(* ===== verification/Prelude.thy ===== *)
theory Prelude
  imports Main "HOL-Library.Word" "HOL-Library.Multiset"
begin

section \<open>Prelude: machine types, outcomes, bytes and lists\<close>

text \<open>
  What every component shares: names for the C integer types, the outcomes of code that can go
  wrong (reads outside an array, NULL dereferences, divisions by zero, calls of \<open>exit\<close>), the
  byte encodings of integers on the wire and in memory, and the lemmas on lists and words that
  the component proofs rewrite with.  The memory of the host is little endian, as on the
  platforms the build supports; the places where the code depends on it are marked there.
\<close>

unbundle bit_operations_syntax

named_theorems horse_simps \<open>rewrite rules of the model's small accessors and encodings\<close>
named_theorems horse_inv \<open>preservation of the components' invariants\<close>

subsection \<open>C integers\<close>

type_synonym u8 = "8 word"
type_synonym u16 = "16 word"
type_synonym u32 = "32 word"
type_synonym u64 = "64 word"

text \<open>An array of \<open>uint8_t\<close>; the arrays of the code have a fixed length, which the
  well-formedness predicates of the components state.\<close>

type_synonym bytes = "u8 list"

subsection \<open>Outcomes\<close>

text \<open>What C leaves undefined, or what ends the process, is a value of the model: a function
  that can reach such a point returns \<^term>\<open>Inl\<close> of the reason.\<close>

datatype c_error =
    Out_Of_Bounds
  | Null_Deref
  | Div_By_Zero
  | Uninitialised
  | Signed_Overflow
  | Use_After_Free
  | Exit_Failure
  | Abort
  | Diverges

type_synonym 'a res = "c_error + 'a"

definition rbind :: "'a res \<Rightarrow> ('a \<Rightarrow> 'b res) \<Rightarrow> 'b res" where
  "rbind r f = (case r of Inl e \<Rightarrow> Inl e | Inr x \<Rightarrow> f x)"

lemma rbind_simps [simp]:
  "rbind (Inl e) f = Inl e"
  "rbind (Inr x) f = f x"
  by (simp_all add: rbind_def)

lemma rbind_eq_Inr [simp]: "rbind r f = Inr y \<longleftrightarrow> (\<exists>x. r = Inr x \<and> f x = Inr y)"
  by (cases r) simp_all

lemma rbind_assoc: "rbind (rbind r f) g = rbind r (\<lambda>x. rbind (f x) g)"
  by (cases r) simp_all

lemma rbind_cong [fundef_cong]:
  "r = r' \<Longrightarrow> (\<And>x. r' = Inr x \<Longrightarrow> f x = f' x) \<Longrightarrow> rbind r f = rbind r' f'"
  by (cases r') simp_all

text \<open>A dereference of a pointer that may be NULL.\<close>

definition deref :: "'a option \<Rightarrow> 'a res" where
  "deref p = (case p of None \<Rightarrow> Inl Null_Deref | Some x \<Rightarrow> Inr x)"

lemma deref_simps [simp]: "deref None = Inl Null_Deref" "deref (Some x) = Inr x"
  by (simp_all add: deref_def)

lemma deref_eq_Inr [simp]: "deref p = Inr x \<longleftrightarrow> p = Some x"
  by (cases p) simp_all

text \<open>An array read with the bounds of the array.\<close>

definition arr_get :: "'a list \<Rightarrow> nat \<Rightarrow> 'a res" where
  "arr_get xs i = (if i < length xs then Inr (xs ! i) else Inl Out_Of_Bounds)"

definition arr_set :: "'a list \<Rightarrow> nat \<Rightarrow> 'a \<Rightarrow> 'a list res" where
  "arr_set xs i v = (if i < length xs then Inr (xs[i := v]) else Inl Out_Of_Bounds)"

lemma arr_get_Inr [simp]: "arr_get xs i = Inr x \<longleftrightarrow> i < length xs \<and> x = xs ! i"
  by (auto simp: arr_get_def)

lemma arr_set_Inr [simp]: "arr_set xs i v = Inr ys \<longleftrightarrow> i < length xs \<and> ys = xs[i := v]"
  by (auto simp: arr_set_def)

subsection \<open>Integers as bytes\<close>

text \<open>Big endian, the order on the wire: what a store of \<open>htons\<close> or \<open>htonl\<close> of a value
  leaves in memory, whatever the order of the host.\<close>

definition put16 :: "u16 \<Rightarrow> bytes" where
  "put16 x = [ucast (drop_bit 8 x), ucast x]"

definition put32 :: "u32 \<Rightarrow> bytes" where
  "put32 x = [ucast (drop_bit 24 x), ucast (drop_bit 16 x), ucast (drop_bit 8 x), ucast x]"

definition get16 :: "u8 \<Rightarrow> u8 \<Rightarrow> u16" where
  "get16 a b = push_bit 8 (ucast a) OR ucast b"

definition get32 :: "u8 \<Rightarrow> u8 \<Rightarrow> u8 \<Rightarrow> u8 \<Rightarrow> u32" where
  "get32 a b c d =
     push_bit 24 (ucast a) OR push_bit 16 (ucast b) OR push_bit 8 (ucast c) OR ucast d"

text \<open>Little endian, the order of the host's memory.\<close>

definition mem16 :: "u16 \<Rightarrow> bytes" where
  "mem16 x = rev (put16 x)"

definition mem32 :: "u32 \<Rightarrow> bytes" where
  "mem32 x = rev (put32 x)"

definition mem64 :: "u64 \<Rightarrow> bytes" where
  "mem64 x = map (\<lambda>i. ucast (drop_bit (8 * i) x)) [0..<8]"

definition swap16 :: "u16 \<Rightarrow> u16" where
  "swap16 x = get16 (ucast x) (ucast (drop_bit 8 x))"

definition swap32 :: "u32 \<Rightarrow> u32" where
  "swap32 x = get32 (ucast x) (ucast (drop_bit 8 x)) (ucast (drop_bit 16 x)) (ucast (drop_bit 24 x))"

lemma length_put [simp]: "length (put16 x) = 2" "length (put32 y) = 4"
  by (simp_all add: put16_def put32_def)

lemma get16_bytes [simp]: "get16 (ucast (drop_bit 8 x)) (ucast x) = x"
  by (rule bit_word_eqI) (auto simp: get16_def bit_simps)

lemma get32_bytes [simp]:
  "get32 (ucast (drop_bit 24 x)) (ucast (drop_bit 16 x)) (ucast (drop_bit 8 x)) (ucast x) = x"
proof (rule bit_word_eqI)
  fix n assume "n < LENGTH(32)"
  then consider "n < 8" | "8 \<le> n" "n < 16" | "16 \<le> n" "n < 24" | "24 \<le> n" "n < 32"
    by fastforce
  then show "bit (get32 (ucast (drop_bit 24 x)) (ucast (drop_bit 16 x)) (ucast (drop_bit 8 x))
      (ucast x)) n = bit x n"
    by cases (auto simp: get32_def bit_simps)
qed

lemma get16_split [simp]:
  "ucast (drop_bit 8 (get16 a b)) = a" "ucast (get16 a b) = b"
  by (rule bit_word_eqI, auto simp: get16_def bit_simps dest: bit_imp_le_length)+

lemma get32_split [simp]:
  "ucast (drop_bit 24 (get32 a b c d)) = a" "ucast (drop_bit 16 (get32 a b c d)) = b"
  "ucast (drop_bit 8 (get32 a b c d)) = c" "ucast (get32 a b c d) = d"
  by (rule bit_word_eqI, auto simp: get32_def bit_simps dest: bit_imp_le_length)+

lemma put16_get16 [simp]: "put16 (get16 a b) = [a, b]"
  by (simp add: put16_def)

lemma put32_get32 [simp]: "put32 (get32 a b c d) = [a, b, c, d]"
  by (simp add: put32_def)

lemma swap16_swap16 [simp]: "swap16 (swap16 x) = x"
  by (simp add: swap16_def)

lemma swap32_swap32 [simp]: "swap32 (swap32 x) = x"
  by (simp add: swap32_def)

text \<open>A read of an integer in network order at an offset of a buffer.\<close>

definition rd8 :: "bytes \<Rightarrow> nat \<Rightarrow> u8 res" where
  "rd8 buf i = arr_get buf i"

definition rd16 :: "bytes \<Rightarrow> nat \<Rightarrow> u16 res" where
  "rd16 buf i =
     (if i + 2 \<le> length buf then Inr (get16 (buf ! i) (buf ! (i + 1))) else Inl Out_Of_Bounds)"

definition rd32 :: "bytes \<Rightarrow> nat \<Rightarrow> u32 res" where
  "rd32 buf i =
     (if i + 4 \<le> length buf
      then Inr (get32 (buf ! i) (buf ! (i + 1)) (buf ! (i + 2)) (buf ! (i + 3)))
      else Inl Out_Of_Bounds)"

definition rdn :: "nat \<Rightarrow> bytes \<Rightarrow> nat \<Rightarrow> bytes res" where
  "rdn n buf i = (if i + n \<le> length buf then Inr (take n (drop i buf)) else Inl Out_Of_Bounds)"

lemma rd16_put16: "length pre = i \<Longrightarrow> rd16 (pre @ put16 x @ post) i = Inr x"
  by (simp add: rd16_def put16_def nth_append)

lemma rd32_put32: "length pre = i \<Longrightarrow> rd32 (pre @ put32 x @ post) i = Inr x"
  by (simp add: rd32_def put32_def nth_append)

lemma rdn_append: "length pre = i \<Longrightarrow> length xs = n \<Longrightarrow> rdn n (pre @ xs @ post) i = Inr xs"
  by (simp add: rdn_def)

subsection \<open>Folds that may fail\<close>

fun rfold :: "('s \<Rightarrow> 'x \<Rightarrow> 's res) \<Rightarrow> 's \<Rightarrow> 'x list \<Rightarrow> 's res" where
  "rfold f s [] = Inr s"
| "rfold f s (x # xs) = rbind (f s x) (\<lambda>s'. rfold f s' xs)"

lemma rfold_append: "rfold f s (xs @ ys) = rbind (rfold f s xs) (\<lambda>s'. rfold f s' ys)"
  by (induction xs arbitrary: s) (auto simp: rbind_def split: sum.splits)

subsection \<open>Lists\<close>

lemma map2_and_idem: "map2 (AND) (map2 (AND) xs ys) ys = map2 (AND) xs (ys :: bytes)"
  by (induction xs ys rule: list_induct2') (simp_all add: and.assoc)

lemma map2_and_assoc:
  "map2 (AND) (map2 (AND) xs ys) zs = map2 (AND) xs (map2 (AND) ys (zs :: bytes))"
  by (induction xs arbitrary: ys zs) (case_tac ys; case_tac zs; simp add: and.assoc)+

lemma map2_and_commute: "map2 (AND) xs ys = map2 (AND) ys (xs :: bytes)"
  by (induction xs ys rule: list_induct2') (simp_all add: and.commute)

lemma map2_and_self [simp]: "map2 (AND) xs xs = (xs :: bytes)"
  by (induction xs) simp_all

end
