(* ===== verification/Util.thy ===== *)
theory Util
  imports Prelude
begin

section \<open>Bit tricks, checksums and byte orders (lib/util)\<close>

text \<open>
  The integer routines of \<open>lib/util.c\<close> and \<open>lib/util.h\<close>: population count, leading
  and trailing zeros, the table-driven CRC-32 the flow hashes use, 64-bit byte order, and the
  choice of an address family.  \<open>rand\<close> is a sequence of numbers handed to
  \<open>random_at_most\<close>; allocation never fails (the code aborts when it does).
\<close>

subsection \<open>Definitions\<close>

definition pop :: "u32 \<Rightarrow> u32" where
  "pop x0 =
    (let x = x0 - (drop_bit 1 x0 AND 0x55555555);
         x = (x AND 0x33333333) + (drop_bit 2 x AND 0x33333333);
         x = (x + drop_bit 4 x) AND 0x0F0F0F0F;
         x = x + push_bit 8 x;
         x = x + push_bit 16 x
     in drop_bit 24 x)"

definition nlz :: "u32 \<Rightarrow> u32" where
  "nlz x0 =
    (let x = x0 OR drop_bit 1 x0;
         x = x OR drop_bit 2 x;
         x = x OR drop_bit 4 x;
         x = x OR drop_bit 8 x;
         x = x OR drop_bit 16 x
     in pop (NOT x))"

definition ntz :: "u32 \<Rightarrow> u32" where
  "ntz x = pop (NOT x AND (x - 1))"

text \<open>\<open>RAND_MAX + 1\<close> of the C library, and the loop over the numbers \<open>rand\<close>
  yields.  \<^term>\<open>None\<close> means the loop has consumed every number it was given.\<close>

definition num_rand :: u32 where
  "num_rand = 0x80000000"

fun random_loop :: "u32 \<Rightarrow> u32 \<Rightarrow> u32 list \<Rightarrow> u32 option" where
  "random_loop bin_size defect [] = None"
| "random_loop bin_size defect (x # xs) =
     (if num_rand - defect \<le> x then random_loop bin_size defect xs else Some (x div bin_size))"

definition random_at_most :: "u32 \<Rightarrow> u32 list \<Rightarrow> u32 option res" where
  "random_at_most mx rs =
    (let num_bins = mx + 1 in
     if num_bins = 0 then Inl Div_By_Zero
     else let bin_size = num_rand div num_bins; defect = num_rand mod num_bins in
       if bin_size = 0 then Inl Div_By_Zero else Inr (random_loop bin_size defect rs))"

datatype ip_family = AF_INET | AF_INET6 | AF_MAX

definition get_ip_family :: "string \<Rightarrow> ip_family" where
  "get_ip_family ip =
     (if CHR ''.'' \<in> set ip then AF_INET
      else if CHR '':'' \<in> set ip then AF_INET6 else AF_MAX)"

definition ROUND_UP :: "nat \<Rightarrow> nat \<Rightarrow> nat" where
  "ROUND_UP x y = (x + (y - 1)) div y * y"

definition hton64 :: "u64 \<Rightarrow> u64" where
  "hton64 n = push_bit 32 (ucast (swap32 (ucast n))) + ucast (swap32 (ucast (drop_bit 32 n)))"

definition ntoh64 :: "u64 \<Rightarrow> u64" where
  "ntoh64 n = push_bit 32 (ucast (swap32 (ucast n))) + ucast (swap32 (ucast (drop_bit 32 n)))"

text \<open>The eight rounds of the table's generator, and the checksum: the static table is filled
  on the first call and holds \<open>crc32_for_byte\<close> of each index from then on.\<close>

definition crc32_poly :: u32 where
  "crc32_poly = 0xEDB88320"

definition crc32_round :: "u32 \<Rightarrow> u32" where
  "crc32_round r = (if bit r 0 then 0 else crc32_poly) XOR drop_bit 1 r"

definition crc32_for_byte :: "u32 \<Rightarrow> u32" where
  "crc32_for_byte r = (crc32_round ^^ 8) r XOR 0xFF000000"

definition crc32_byte :: "u32 \<Rightarrow> u8 \<Rightarrow> u32" where
  "crc32_byte crc b = crc32_for_byte (ucast ((ucast crc :: u8) XOR b)) XOR drop_bit 8 crc"

definition crc32 :: "bytes \<Rightarrow> u32 \<Rightarrow> u32" where
  "crc32 bs crc = fold (\<lambda>b c. crc32_byte c b) bs crc"

function count_set_bits_loop :: "u32 \<Rightarrow> u32 \<Rightarrow> u32" where
  "count_set_bits_loop c n =
     (if n > 0 then count_set_bits_loop (c + 1) (n AND (n - 1)) else c)"
  by pat_completeness auto

lemma and_pred_less:
  fixes n :: "'a::len word"
  assumes "n > 0"
  shows "n AND (n - 1) < n"
proof -
  have "n AND (n - 1) \<le> n - 1"
    by (simp add: word_and_le1)
  also have "n - 1 < n"
    using assms by (simp add: word_less_nat_alt unat_minus_one unat_gt_0)
  finally show ?thesis .
qed

termination count_set_bits_loop
  by (relation "measure (\<lambda>(c, n). unat n)") (auto simp: and_pred_less word_less_nat_alt [symmetric])

declare count_set_bits_loop.simps [simp del]

definition count_set_bits :: "u32 \<Rightarrow> u8" where
  "count_set_bits n = ucast (count_set_bits_loop 0 n)"

subsection \<open>The lowest set bit\<close>

lemma bit_pred_word:
  fixes x :: "'a::len word"
  assumes "bit x k" and low: "\<And>j. j < k \<Longrightarrow> \<not> bit x j"
  shows "bit (x - 1) i \<longleftrightarrow> i < LENGTH('a) \<and> (i < k \<or> k < i \<and> bit x i)"
proof -
  define m where "m = push_bit (Suc k) (drop_bit (Suc k) x)"
  have k: "k < LENGTH('a)"
    using assms(1) by (rule bit_imp_le_length)
  have bit_m: "bit m j \<longleftrightarrow> j < LENGTH('a) \<and> k < j \<and> bit x j" for j
    by (auto simp: m_def bit_simps Suc_le_eq simp del: push_bit_Suc)
  have "x = m OR push_bit k 1"
    using assms k by (intro bit_word_eqI) (auto simp: bit_m bit_simps, metis nat_neq_iff)
  also have "\<dots> = m + push_bit k 1"
    by (rule disjunctive_add [symmetric]) (auto simp: bit_m bit_simps)
  finally have "x - 1 = m + mask k"
    by (simp add: mask_eq_exp_minus_1)
  also have "\<dots> = m OR mask k"
    by (rule disjunctive_add) (auto simp: bit_m bit_simps)
  finally show ?thesis
    using k by (auto simp: bit_m bit_simps)
qed

lemma lowest_bit_exists:
  fixes x :: "'a::len word"
  assumes "x \<noteq> 0"
  obtains k where "bit x k" "\<And>j. j < k \<Longrightarrow> \<not> bit x j"
proof -
  have "\<exists>k. bit x k"
    using assms by (metis bit_0_eq bit_word_eqI bot_apply bot_bool_def)
  then show ?thesis
    using that by (metis exists_least_iff)
qed

lemma nat_le_32_cases: "k \<le> 32 \<Longrightarrow> k \<in> set [0..<33]" for k :: nat
  by simp

lemma pop_mask: "k \<le> 32 \<Longrightarrow> pop (mask k) = word_of_nat k"
proof (drule nat_le_32_cases)
  have "\<forall>k \<in> set [0..<33]. pop (mask k) = word_of_nat k"
    by code_simp
  then show "k \<in> set [0..<33] \<Longrightarrow> pop (mask k) = word_of_nat k"
    by blast
qed

lemma pop_not_mask: "k \<le> 32 \<Longrightarrow> pop (NOT (mask k)) = word_of_nat (32 - k)"
proof (drule nat_le_32_cases)
  have "\<forall>k \<in> set [0..<33]. pop (NOT (mask k)) = word_of_nat (32 - k)"
    by code_simp
  then show "k \<in> set [0..<33] \<Longrightarrow> pop (NOT (mask k)) = word_of_nat (32 - k)"
    by blast
qed

lemma ntz_lowest_bit:
  assumes "bit x k" "\<And>j. j < k \<Longrightarrow> \<not> bit x j"
  shows "ntz x = word_of_nat k"
proof -
  have k: "k < 32"
    using bit_imp_le_length [OF assms(1)] by simp
  have "NOT x AND (x - 1) = mask k"
    using assms by (intro bit_word_eqI) (auto simp: bit_simps bit_pred_word [of x k])
  then show ?thesis
    using k by (simp add: ntz_def pop_mask)
qed

lemma ntz_0: "ntz 0 = 32"
  by code_simp

subsection \<open>Counting bits\<close>

lemma bit_and_pred:
  fixes x :: "'a::len word"
  assumes "bit x k" "\<And>j. j < k \<Longrightarrow> \<not> bit x j"
  shows "bit (x AND (x - 1)) i \<longleftrightarrow> bit x i \<and> i \<noteq> k"
  using assms by (auto simp: bit_simps bit_pred_word [of x k] dest: bit_imp_le_length)

lemma finite_bits [simp]: "finite {i. bit (x :: 'a::len word) i}"
  by (rule finite_subset [of _ "{..<LENGTH('a)}"]) (auto dest: bit_imp_le_length)

lemma card_bits_le: "card {i. bit (x :: 'a::len word) i} \<le> LENGTH('a)"
proof -
  have "{i. bit x i} \<subseteq> {..<LENGTH('a)}"
    by (auto dest: bit_imp_le_length)
  then show ?thesis
    using card_mono [of "{..<LENGTH('a)}" "{i. bit x i}"] by simp
qed

lemma card_no_bits [simp]: "card (Collect bot) = 0"
  by (simp add: bot_fun_def)

lemma count_set_bits_loop_card:
  "count_set_bits_loop c n = c + word_of_nat (card {i. bit n i})"
proof (induction c n rule: count_set_bits_loop.induct)
  case (1 c n)
  show ?case
  proof (cases "n > 0")
    case True
    then have "n \<noteq> 0"
      by auto
    then obtain k where k: "bit n k" "\<And>j. j < k \<Longrightarrow> \<not> bit n j"
      using lowest_bit_exists by metis
    have "{i. bit n i} = insert k {i. bit (n AND (n - 1)) i}"
      using k by (auto simp only: bit_and_pred [OF k])
    moreover have "k \<notin> {i. bit (n AND (n - 1)) i}"
      by (auto simp only: bit_and_pred [OF k])
    ultimately have "card {i. bit n i} = Suc (card {i. bit (n AND (n - 1)) i})"
      by (metis card_insert_disjoint finite_bits)
    then show ?thesis
      using True 1 by (simp add: count_set_bits_loop.simps [of c n])
  next
    case False
    then show ?thesis
      by (subst count_set_bits_loop.simps) (auto simp: word_gt_0)
  qed
qed

subsection \<open>Smearing the highest set bit\<close>

lemma bit_smear:
  fixes x y :: u32
  assumes "\<And>i. bit y i \<longleftrightarrow> (\<exists>d < a. bit x (i + d))"
  shows "bit (y OR drop_bit a y) i \<longleftrightarrow> (\<exists>d < 2 * a. bit x (i + d))"
proof -
  have "(\<exists>d < 2 * a. bit x (i + d)) \<longleftrightarrow>
      (\<exists>d < a. bit x (i + d)) \<or> (\<exists>d < a. bit x (a + i + d))"
    by (auto, metis add.left_commute add.commute le_add_diff_inverse less_diff_conv2 mult_2 not_le,
        metis add_less_mono1 mult_2 nat_add_left_cancel_less trans_less_add1,
        metis add.assoc add.commute mult_2 nat_add_left_cancel_less)
  then show ?thesis
    by (simp add: bit_simps assms)
qed

definition smear :: "u32 \<Rightarrow> u32" where
  "smear x0 =
    (let x = x0 OR drop_bit 1 x0; x = x OR drop_bit 2 x; x = x OR drop_bit 4 x;
         x = x OR drop_bit 8 x
     in x OR drop_bit 16 x)"

lemma nlz_smear: "nlz x = pop (NOT (smear x))"
  by (simp add: nlz_def smear_def Let_def)

lemma bit_smear_32: "bit (smear x) i \<longleftrightarrow> (\<exists>d < 32. bit x (i + d))"
proof -
  have a: "bit x i \<longleftrightarrow> (\<exists>d < 1. bit x (i + d))" for i
    by simp
  note b = bit_smear [OF a, simplified]
  note c = bit_smear [OF b, simplified]
  note d = bit_smear [OF c, simplified]
  note e = bit_smear [OF d, simplified]
  show ?thesis
    using bit_smear [OF e] by (simp add: smear_def Let_def)
qed

lemma smear_highest_bit:
  assumes "bit x k" "\<And>j. k < j \<Longrightarrow> \<not> bit x j"
  shows "smear x = mask (Suc k)"
proof (rule bit_word_eqI)
  fix i assume "i < LENGTH(32)"
  have "k < 32"
    using bit_imp_le_length [OF assms(1)] by simp
  have "(\<exists>d < 32. bit x (i + d)) \<longleftrightarrow> i \<le> k"
  proof
    assume "i \<le> k"
    then show "\<exists>d < 32. bit x (i + d)"
      using assms(1) \<open>k < 32\<close> by (intro exI [of _ "k - i"]) simp
  qed (use assms(2) in \<open>metis le_add1 le_trans not_le\<close>)
  then show "bit (smear x) i = bit (mask (Suc k) :: u32) i"
    using \<open>i < LENGTH(32)\<close> by (simp add: bit_smear_32 bit_mask_iff less_Suc_eq_le)
qed

lemma highest_bit_exists:
  fixes x :: "'a::len word"
  assumes "x \<noteq> 0"
  obtains k where "bit x k" "\<And>j. k < j \<Longrightarrow> \<not> bit x j"
proof -
  have "{i. bit x i} \<noteq> {}"
    using assms lowest_bit_exists by blast
  then show ?thesis
    using that Max_in [OF finite_bits] Max_ge [OF finite_bits] by (metis mem_Collect_eq not_le)
qed

lemma nlz_highest_bit:
  assumes "bit x k" "\<And>j. k < j \<Longrightarrow> \<not> bit x j"
  shows "nlz x = word_of_nat (31 - k)"
proof -
  have "k < 32"
    using bit_imp_le_length [OF assms(1)] by simp
  then show ?thesis
    using pop_not_mask [of "Suc k"] by (simp add: nlz_smear smear_highest_bit [OF assms])
qed

lemma nlz_0: "nlz 0 = 32"
  by code_simp

subsection \<open>Byte order of 64-bit integers\<close>

lemma hi_lo_64:
  fixes a b :: u32
  shows "ucast (push_bit 32 (ucast a) + ucast b :: u64) = b" (is ?lo)
    and "ucast (drop_bit 32 (push_bit 32 (ucast a) + ucast b :: u64)) = a" (is ?hi)
proof -
  have "(push_bit 32 (ucast a) + ucast b :: u64) = push_bit 32 (ucast a) OR ucast b"
    by (rule disjunctive_add) (auto simp: bit_simps dest: bit_imp_le_length)
  note or = this
  show ?lo ?hi
    unfolding or by (intro bit_word_eqI; use bit_imp_le_length [of b] in \<open>force simp: bit_simps\<close>)+
qed

lemma join_64: "push_bit 32 (ucast (ucast (drop_bit 32 n) :: u32)) + ucast (ucast n :: u32) = (n :: u64)"
  by (subst disjunctive_add) (auto intro!: bit_word_eqI simp: bit_simps dest: bit_imp_le_length)

subsection \<open>CRC-32\<close>

text \<open>The reference: the reflected CRC-32 register, which shifts right and subtracts the
  polynomial when the bit that leaves is set.\<close>

definition ref_round :: "u32 \<Rightarrow> u32" where
  "ref_round s = (if bit s 0 then crc32_poly else 0) XOR drop_bit 1 s"

definition ref_byte :: "u32 \<Rightarrow> u8 \<Rightarrow> u32" where
  "ref_byte s b = (ref_round ^^ 8) (s XOR ucast b)"

definition ref_crc32 :: "bytes \<Rightarrow> u32 \<Rightarrow> u32" where
  "ref_crc32 bs s = fold (\<lambda>b s. ref_byte s b) bs s"

lemma ref_round_xor: "ref_round (a XOR b) = ref_round a XOR ref_round b"
  by (rule bit_word_eqI) (auto simp: ref_round_def bit_simps)

lemma ref_rounds_xor: "(ref_round ^^ n) (a XOR b) = (ref_round ^^ n) a XOR (ref_round ^^ n) b"
  by (induction n) (simp_all add: ref_round_xor)

lemma ref_round_even: "\<not> bit s 0 \<Longrightarrow> ref_round s = drop_bit 1 s"
  by (simp add: ref_round_def)

lemma ref_rounds_shift:
  assumes "n \<le> k" "\<And>j. j < k \<Longrightarrow> \<not> bit s j"
  shows "(ref_round ^^ n) s = drop_bit n s"
  using assms
proof (induction n)
  case (Suc n)
  then have "(ref_round ^^ n) s = drop_bit n s" "\<not> bit (drop_bit n s) 0"
    by (simp_all add: bit_simps)
  then show ?case
    using ref_round_even by (simp add: drop_bit_drop_bit)
qed simp

lemma mask_8: "(0xFF :: u32) = mask 8"
  by (simp add: mask_eq_exp_minus_1)

lemma ref_rounds_byte:
  "(ref_round ^^ 8) s = (ref_round ^^ 8) (s AND 0xFF) XOR drop_bit 8 s"
proof -
  have "s = (s AND 0xFF) XOR (s AND NOT 0xFF)"
    by (rule bit_word_eqI) (auto simp: bit_simps)
  then have "(ref_round ^^ 8) s =
      (ref_round ^^ 8) (s AND 0xFF) XOR (ref_round ^^ 8) (s AND NOT 0xFF)"
    by (metis ref_rounds_xor)
  also have "(ref_round ^^ 8) (s AND NOT 0xFF) = drop_bit 8 s"
  proof -
    have "(ref_round ^^ 8) (s AND NOT 0xFF) = drop_bit 8 (s AND NOT 0xFF)"
      by (rule ref_rounds_shift [of _ 8]) (auto simp: mask_8 bit_simps)
    also have "\<dots> = drop_bit 8 s"
      by (rule bit_word_eqI) (auto simp: mask_8 bit_simps dest: bit_imp_le_length)
    finally show ?thesis .
  qed
  finally show ?thesis .
qed

text \<open>The generator of the table keeps the register complemented, so an entry is the reference's
  entry for the complemented index, with the eight bits that entered at the top flipped.\<close>

lemma bit_top_32: "bit (0x80000000 :: int) i \<longleftrightarrow> i = 31"
proof -
  have "(0x80000000 :: int) = 2 ^ 31"
    by simp
  then show ?thesis
    by (simp only: bit_exp_iff) auto
qed

lemma drop_bit_not_32: "drop_bit (Suc 0) (NOT u) = NOT (drop_bit (Suc 0) u XOR (0x80000000 :: u32))"
  by (rule bit_word_eqI) (auto simp: bit_simps bit_top_32 dest: bit_imp_le_length)

lemma crc32_round_complement:
  "\<not> bit t 0 \<Longrightarrow>
     crc32_round (NOT (u XOR t)) = NOT (ref_round u XOR (drop_bit 1 t XOR 0x80000000))"
  by (simp add: crc32_round_def ref_round_def drop_bit_not_32 bit_not_iff bit_xor_iff ac_simps)

primrec tops :: "nat \<Rightarrow> u32" where
  "tops 0 = 0"
| "tops (Suc n) = drop_bit 1 (tops n) XOR 0x80000000"

lemma bit_0_tops: "n < 8 \<Longrightarrow> \<not> bit (tops n) 0"
proof -
  have "\<forall>n \<in> set [0..<8]. \<not> bit (tops n) 0"
    by code_simp
  then show "n < 8 \<Longrightarrow> \<not> bit (tops n) 0"
    by simp
qed

lemma crc32_rounds_complement:
  "n \<le> 8 \<Longrightarrow> (crc32_round ^^ n) (NOT u) = NOT ((ref_round ^^ n) u XOR tops n)"
  by (induction n) (simp_all add: crc32_round_complement bit_0_tops)

lemma crc32_for_byte_complement: "crc32_for_byte (NOT u) = NOT ((ref_round ^^ 8) u)"
proof -
  have "tops 8 = 0xFF000000"
    by code_simp
  then show ?thesis
    by (simp add: crc32_for_byte_def crc32_rounds_complement xor.assoc)
qed

lemma crc32_byte_complement: "crc32_byte (NOT s) b = NOT (ref_byte s b)"
proof -
  let ?v = "ucast ((ucast (NOT s) :: u8) XOR b) :: u32"
  have low: "NOT ?v AND 0xFF = (s XOR ucast b) AND 0xFF"
    by (rule bit_word_eqI) (auto simp: bit_simps mask_8 dest: bit_imp_le_length [of b])
  have high: "drop_bit 8 (NOT ?v) XOR drop_bit 8 (NOT s) = drop_bit 8 (s XOR ucast b)"
    by (rule bit_word_eqI) (auto simp: bit_simps dest: bit_imp_le_length [of b] bit_imp_le_length [of s])
  have "crc32_byte (NOT s) b = NOT ((ref_round ^^ 8) (NOT ?v)) XOR drop_bit 8 (NOT s)"
    using crc32_for_byte_complement [of "NOT ?v"] by (simp add: crc32_byte_def)
  also have "\<dots> = NOT ((ref_round ^^ 8) ((s XOR ucast b) AND 0xFF) XOR drop_bit 8 (s XOR ucast b))"
    by (subst ref_rounds_byte) (simp only: low high [symmetric] bit.xor_compl_left xor.assoc)
  also have "\<dots> = NOT (ref_byte s b)"
    unfolding ref_byte_def by (subst (2) ref_rounds_byte) simp
  finally show ?thesis .
qed

subsection \<open>Random numbers in a range\<close>

lemma random_loop_bound:
  assumes "random_loop bin_size defect rs = Some y"
  shows "\<exists>x \<in> set rs. x < num_rand - defect \<and> y = x div bin_size"
  using assms by (induction rs) (auto split: if_splits)

lemma random_loop_returns:
  assumes "x \<in> set rs" "x < num_rand - defect"
  shows "\<exists>y. random_loop bin_size defect rs = Some y"
  using assms by (induction rs) auto

lemma bins_fit:
  fixes r n :: nat
  assumes "0 < n" "x < r - r mod n"
  shows "x div (r div n) < n"
proof -
  have "x < n * (r div n)"
    using assms(2) by (simp add: minus_mod_eq_mult_div)
  then show ?thesis
    by (metis div_less_iff_less_mult mult.commute mult_0_right not_less_zero gr0I)
qed

lemma random_at_most_bounds:
  assumes "mx < num_rand"
  shows "\<exists>r. random_at_most mx rs = Inr r"
    and "random_at_most mx rs = Inr (Some y) \<Longrightarrow> y \<le> mx"
proof -
  have n: "unat (mx + 1) = unat mx + 1" "unat mx < 2 ^ 31" "unat num_rand = 2 ^ 31"
    using assms by (simp_all add: num_rand_def word_less_nat_alt unat_word_ariths)
  then have "mx + 1 \<noteq> 0"
    by (metis Suc_eq_plus1 nat.simps(3) unat_0)
  moreover have bin: "unat (num_rand div (mx + 1)) = 2 ^ 31 div (unat mx + 1)"
    by (simp add: unat_div n)
  then have "num_rand div (mx + 1) \<noteq> 0"
    using n by (metis Suc_eq_plus1 Suc_leI div_greater_zero_iff unat_0 less_numeral_extra(3) zero_less_Suc)
  ultimately have def: "random_at_most mx rs =
      Inr (random_loop (num_rand div (mx + 1)) (num_rand mod (mx + 1)) rs)"
    by (simp add: random_at_most_def Let_def)
  then show "\<exists>r. random_at_most mx rs = Inr r"
    by blast
  assume "random_at_most mx rs = Inr (Some y)"
  then obtain x where x: "x < num_rand - num_rand mod (mx + 1)" "y = x div (num_rand div (mx + 1))"
    using random_loop_bound def by fastforce
  have "num_rand mod (mx + 1) \<le> num_rand"
    by (simp add: word_le_nat_alt unat_mod)
  then have "unat x < 2 ^ 31 - 2 ^ 31 mod (unat mx + 1)"
    using x(1) n by (simp add: word_less_nat_alt unat_sub unat_mod)
  then have "unat x div (2 ^ 31 div (unat mx + 1)) < unat mx + 1"
    by (intro bins_fit) simp_all
  then show "y \<le> mx"
    by (simp add: x(2) word_le_nat_alt unat_div n)
qed

subsection \<open>Properties\<close>

text \<open>\<open>ntz\<close> returns the number of trailing zeros, that is the position of the lowest
  set bit, and 32 for zero; \<open>nlz\<close> returns the number of leading zeros, that is 31 minus the
  position of the highest set bit, and 32 for zero.\<close>

theorem nlz_ntz_correct:
  "ntz x = (if x = 0 then 32 else word_of_nat (LEAST k. bit x k)) \<and>
   nlz x = (if x = 0 then 32 else word_of_nat (31 - Max {k. bit x k}))"
proof
  show "ntz x = (if x = 0 then 32 else word_of_nat (LEAST k. bit x k))"
  proof (cases "x = 0")
    case False
    then obtain k where "bit x k" "\<And>j. j < k \<Longrightarrow> \<not> bit x j"
      using lowest_bit_exists by metis
    then show ?thesis
      using False ntz_lowest_bit Least_equality [of "bit x" k] by (metis not_le)
  qed (simp add: ntz_0)
  show "nlz x = (if x = 0 then 32 else word_of_nat (31 - Max {k. bit x k}))"
  proof (cases "x = 0")
    case False
    then obtain k where k: "bit x k" "\<And>j. k < j \<Longrightarrow> \<not> bit x j"
      using highest_bit_exists by metis
    then have "Max {k. bit x k} = k"
      by (intro Max_eqI) (auto, metis not_le)
    then show ?thesis
      using False nlz_highest_bit [OF k] by simp
  qed (simp add: nlz_0)
qed

text \<open>\<open>count_set_bits\<close> terminates for every word and returns the number of its bits
  that are set, without truncation.\<close>

theorem count_set_bits_correct: "unat (count_set_bits n) = card {i. bit n i}"
proof -
  have "card {i. bit n i} \<le> 32"
    using card_bits_le [of n] by simp
  then show ?thesis
    by (simp add: count_set_bits_def count_set_bits_loop_card unsigned_ucast_eq unsigned_of_nat
        take_bit_nat_eq_self)
qed

text \<open>C34: the table-driven \<open>crc32\<close> computes the standard CRC-32: started on the complement
  of a register it ends on the complement of what the bitwise reference leaves there, so a
  checksum that starts from 0 is the reference started from all ones, complemented.\<close>

theorem crc32_reference:
  "crc32 bs (NOT s) = NOT (ref_crc32 bs s) \<and> crc32 bs 0 = NOT (ref_crc32 bs 0xFFFFFFFF)"
proof
  show all: "crc32 bs (NOT s) = NOT (ref_crc32 bs s)" for s
    by (induction bs arbitrary: s) (simp_all add: crc32_def ref_crc32_def crc32_byte_complement)
  have "NOT (0xFFFFFFFF :: u32) = 0"
    by simp
  then show "crc32 bs 0 = NOT (ref_crc32 bs 0xFFFFFFFF)"
    using all [of "0xFFFFFFFF"] by (simp only:)
qed

text \<open>\<open>random_at_most\<close> never divides by zero on the arguments its comment allows
  (at most \<open>RAND_MAX\<close>); it returns as soon as one number below the truncated range is drawn,
  and what it returns is at most the argument.\<close>

theorem random_at_most_correct:
  assumes "mx < num_rand" and "x \<in> set rs" "x < num_rand - num_rand mod (mx + 1)"
  shows "\<exists>y. random_at_most mx rs = Inr (Some y) \<and> y \<le> mx"
proof -
  obtain r where r: "random_at_most mx rs = Inr r"
    using random_at_most_bounds(1) [OF assms(1)] by blast
  then have "r = random_loop (num_rand div (mx + 1)) (num_rand mod (mx + 1)) rs"
    by (auto simp: random_at_most_def Let_def split: if_splits)
  then show ?thesis
    using r random_loop_returns [OF assms(2,3)] random_at_most_bounds(2) [OF assms(1)] by fastforce
qed

theorem random_at_most_correct_witness:
  "\<exists>y. random_at_most 9 [0x7FFFFFFF, 5] = Inr (Some y) \<and> y \<le> 9"
  by (rule random_at_most_correct [of _ 5]) (simp_all add: num_rand_def)

end
