(* ===== verification/Event_Queue.thy ===== *)
theory Event_Queue
  imports Prelude
begin

section \<open>The contract of an event queue\<close>

text \<open>
  A discrete event simulation relies on one thing of its queue: that what it dispatches is an
  earliest event and that nothing is lost or invented.  The locale below states that contract
  over the multiset of pending events; the binary heap of \<open>lib/heap.c\<close> and the sorted list of
  \<open>sim/scheduler.c\<close> both meet it.  Its lemmas are the two facts the simulator lives on:
  draining a queue yields its events in time order, and a run that only schedules events in the
  present or the future never moves the clock backwards.
\<close>

text \<open>Dispatching up to \<open>n\<close> events, with the ones dispatched in order.\<close>

primrec drain :: "('q \<Rightarrow> ('ev \<times> 'q) res) \<Rightarrow> nat \<Rightarrow> 'q \<Rightarrow> 'ev list" where
  "drain dispatch 0 q = []"
| "drain dispatch (Suc n) q =
     (case dispatch q of Inl _ \<Rightarrow> [] | Inr (ev, q') \<Rightarrow> ev # drain dispatch n q')"

text \<open>A run of a simulation: each step dispatches an event and inserts what its handler
  schedules, \<open>sched ev\<close>; the result is the list of dispatched events.\<close>

primrec simulate ::
  "('ev \<Rightarrow> 'q \<Rightarrow> 'q) \<Rightarrow> ('q \<Rightarrow> ('ev \<times> 'q) res) \<Rightarrow> ('ev \<Rightarrow> 'ev list) \<Rightarrow> nat \<Rightarrow> 'q \<Rightarrow> 'ev list"
where
  "simulate ins dispatch sched 0 q = []"
| "simulate ins dispatch sched (Suc n) q =
     (case dispatch q of
        Inl _ \<Rightarrow> []
      | Inr (ev, q') \<Rightarrow> ev # simulate ins dispatch sched n (fold ins (sched ev) q'))"

locale event_queue =
  fixes empty :: 'q
    and insert :: "'ev \<Rightarrow> 'q \<Rightarrow> 'q"
    and dispatch :: "'q \<Rightarrow> ('ev \<times> 'q) res"
    and contents :: "'q \<Rightarrow> 'ev multiset"
    and invar :: "'q \<Rightarrow> bool"
    and time :: "'ev \<Rightarrow> u64"
  assumes invar_empty: "invar empty"
    and contents_empty: "contents empty = {#}"
    and invar_insert: "invar q \<Longrightarrow> invar (insert ev q)"
    and contents_insert: "invar q \<Longrightarrow> contents (insert ev q) = add_mset ev (contents q)"
    and dispatch_nonempty: "invar q \<Longrightarrow> contents q \<noteq> {#} \<Longrightarrow> \<exists>ev q'. dispatch q = Inr (ev, q')"
    and dispatch_some:
      "invar q \<Longrightarrow> dispatch q = Inr (ev, q') \<Longrightarrow>
         invar q' \<and> contents q = add_mset ev (contents q') \<and> (\<forall>e \<in># contents q'. time ev \<le> time e)"
begin

lemma fold_insert:
  "invar q \<Longrightarrow> invar (fold insert evs q) \<and> contents (fold insert evs q) = mset evs + contents q"
  by (induction evs arbitrary: q) (simp_all add: invar_insert contents_insert)

lemma set_drain: "invar q \<Longrightarrow> set (drain dispatch n q) \<subseteq> set_mset (contents q)"
proof (induction n arbitrary: q)
  case (Suc n)
  show ?case
  proof (cases "dispatch q")
    case (Inr r)
    then obtain ev q' where r: "dispatch q = Inr (ev, q')"
      by (cases r) simp
    then show ?thesis
      using Suc.IH [of q'] dispatch_some [OF Suc.prems r] by auto
  qed simp
qed simp

lemma sorted_drain: "invar q \<Longrightarrow> sorted (map time (drain dispatch n q))"
proof (induction n arbitrary: q)
  case (Suc n)
  show ?case
  proof (cases "dispatch q")
    case (Inr r)
    then obtain ev q' where r: "dispatch q = Inr (ev, q')"
      by (cases r) simp
    note q' = dispatch_some [OF Suc.prems r]
    then show ?thesis
      using Suc.IH [of q'] set_drain [of q' n] by (auto simp: r)
  qed simp
qed simp

lemma mset_drain: "invar q \<Longrightarrow> mset (drain dispatch (size (contents q)) q) = contents q"
proof (induction "size (contents q)" arbitrary: q)
  case (Suc n)
  then have "contents q \<noteq> {#}"
    by auto
  then obtain ev q' where r: "dispatch q = Inr (ev, q')"
    using dispatch_nonempty Suc.prems by blast
  note q' = dispatch_some [OF Suc.prems r]
  then have "size (contents q') = n"
    using Suc.hyps(2) by auto
  then show ?case
    using Suc.hyps(1) [of q'] Suc.hyps(2) [symmetric] q' by (simp add: r)
qed simp

lemma drain_inserted:
  "mset (drain dispatch (length evs) (fold insert evs empty)) = mset evs"
  "sorted (map time (drain dispatch (length evs) (fold insert evs empty)))"
  using fold_insert [OF invar_empty, of evs] mset_drain [of "fold insert evs empty"]
  by (simp_all add: contents_empty sorted_drain)

lemma simulate_not_before:
  assumes "invar q" "\<forall>e \<in># contents q. t \<le> time e"
    and future: "\<And>ev e. e \<in> set (sched ev) \<Longrightarrow> time ev \<le> time e"
  shows "sorted (t # map time (simulate insert dispatch sched n q))"
  using assms(1,2)
proof (induction n arbitrary: q t)
  case (Suc n)
  show ?case
  proof (cases "dispatch q")
    case (Inr r)
    then obtain ev q' where r: "dispatch q = Inr (ev, q')"
      by (cases r) simp
    note q' = dispatch_some [OF Suc.prems(1) r]
    then have "sorted (time ev # map time (simulate insert dispatch sched n (fold insert (sched ev) q')))"
      using Suc.IH [of "fold insert (sched ev) q'" "time ev"] fold_insert [of q' "sched ev"] future
      by auto
    moreover have "t \<le> time ev"
      using q' Suc.prems(2) by auto
    ultimately show ?thesis
      by (auto simp: r)
  qed simp
qed simp

end

end
