(* ===== verification/Heap.thy ===== *)
theory Heap
  imports Event_Queue
begin

section \<open>The binary heap (lib/heap)\<close>

text \<open>
  The array-based min-heap of \<open>lib/heap.c\<close> and \<open>lib/heap.h\<close>.  The array is a function
  from positions to cells.  Positions start at 1; the cells outside \<open>1..size\<close> hold whatever the
  memory held, so growing the array changes only the number of allocated cells.
  A cell is the embedded \<open>struct heap_node\<close> with the object it is embedded in.  A node is
  in the heap at most once, so that no two cells alias.  The counts are \<open>size_t\<close> and are
  natural numbers here.
\<close>

subsection \<open>Definitions\<close>

record 'a heap_node =
  priority :: u64
  idx :: nat
  owner :: 'a

record 'a heap =
  array :: "nat \<Rightarrow> 'a heap_node"
  hsize :: nat
  allocated :: nat

text \<open>The argument is the content of the memory the array will be allocated in.\<close>

definition heap_init :: "(nat \<Rightarrow> 'a heap_node) \<Rightarrow> 'a heap" where
  "heap_init mem = \<lparr>array = mem, hsize = 0, allocated = 0\<rparr>"

definition heap_parent :: "nat \<Rightarrow> nat" where
  "heap_parent i = i div 2"

definition heap_right_child :: "nat \<Rightarrow> nat" where
  "heap_right_child i = 2 * i"

definition heap_left_child :: "nat \<Rightarrow> nat" where
  "heap_left_child i = 2 * i + 1"

definition add_node :: "'a heap \<Rightarrow> 'a heap_node \<Rightarrow> nat \<Rightarrow> 'a heap" where
  "add_node h node i = h\<lparr>array := (array h)(i := node\<lparr>idx := i\<rparr>)\<rparr>"

definition heap_swap :: "'a heap \<Rightarrow> nat \<Rightarrow> nat \<Rightarrow> 'a heap" where
  "heap_swap h i j = (let tmp = array h i in add_node (add_node h (array h j) i) tmp j)"

text \<open>The bubble-up loop; \<open>p\<close> is the priority of the node that was added.\<close>

function bubble_up :: "'a heap \<Rightarrow> u64 \<Rightarrow> nat \<Rightarrow> 'a heap" where
  "bubble_up h p i =
     (if i > 1 then
        let parent = heap_parent i in
        if priority (array h parent) \<le> p then h
        else bubble_up (heap_swap h i parent) p parent
      else h)"
  by pat_completeness auto
termination
  by (relation "measure (\<lambda>(h, p, i). i)") (auto simp: heap_parent_def)

declare bubble_up.simps [simp del]

definition heap_insert :: "'a heap \<Rightarrow> 'a heap_node \<Rightarrow> u64 \<Rightarrow> 'a heap" where
  "heap_insert h node p =
     (let h = (if hsize h \<ge> allocated h
               then h\<lparr>allocated := (if hsize h = 0 then 1 else 2 * hsize h)\<rparr> else h);
          i = hsize h + 1;
          h = add_node (h\<lparr>hsize := i\<rparr>) node i;
          h = h\<lparr>array := (array h)(i := (array h i)\<lparr>priority := p\<rparr>)\<rparr>
      in bubble_up h p i)"

text \<open>The smallest of a position and its children, and the loop of \<open>min_heapify\<close>.\<close>

definition heapify_min :: "'a heap \<Rightarrow> nat \<Rightarrow> nat \<Rightarrow> nat" where
  "heapify_min h i n =
     (let left = heap_left_child i; right = heap_right_child i; m = i;
          m = (if left \<le> n \<and> priority (array h left) < priority (array h m) then left else m)
      in if right \<le> n \<and> priority (array h right) < priority (array h m) then right else m)"

lemma heapify_min_greater:
  "heapify_min h i n \<noteq> i \<Longrightarrow> i < heapify_min h i n \<and> heapify_min h i n \<le> n"
  by (auto simp: heapify_min_def heap_left_child_def heap_right_child_def Let_def split: if_splits)

function min_heapify_loop :: "'a heap \<Rightarrow> nat \<Rightarrow> nat \<Rightarrow> nat \<Rightarrow> 'a heap" where
  "min_heapify_loop h m i n =
     (if m < hsize h then
        let m' = heapify_min h i n in
        if m' = i then h else min_heapify_loop (heap_swap h i m') m' m' n
      else h)"
  by pat_completeness auto
termination
  by (relation "measure (\<lambda>(h, m, i, n). n - i)") (auto dest: heapify_min_greater)

declare min_heapify_loop.simps [simp del]

definition min_heapify :: "'a heap \<Rightarrow> nat \<Rightarrow> nat \<Rightarrow> 'a heap" where
  "min_heapify h i n = min_heapify_loop h 0 i n"

text \<open>Deleting from an empty heap reads cell 0, through NULL when nothing was ever inserted.\<close>

definition heap_delete :: "'a heap \<Rightarrow> ('a heap_node \<times> 'a heap) res" where
  "heap_delete h =
     (if hsize h = 0 then Inl (if allocated h = 0 then Null_Deref else Uninitialised)
      else
        let temp = array h (hsize h);
            h = h\<lparr>hsize := hsize h - 1\<rparr>;
            removed = array h 1;
            h = h\<lparr>array := (array h)(1 := temp)\<rparr>
        in Inr (removed, min_heapify h 1 (hsize h)))"

definition heap_retrieve :: "'a heap \<Rightarrow> 'a heap_node res" where
  "heap_retrieve h = (if allocated h = 0 then Inl Null_Deref else Inr (array h 1))"

subsection \<open>Order of the cells\<close>

abbreviation prio :: "'a heap \<Rightarrow> nat \<Rightarrow> u64" where
  "prio h i \<equiv> priority (array h i)"

text \<open>The heap order, and the heap order with one position exempted: towards its parent while a
  node bubbles up, towards its children while one sinks.\<close>

definition is_heap :: "'a heap \<Rightarrow> bool" where
  "is_heap h \<longleftrightarrow> (\<forall>i. 2 \<le> i \<and> i \<le> hsize h \<longrightarrow> prio h (i div 2) \<le> prio h i)"

definition heap_but_up :: "'a heap \<Rightarrow> nat \<Rightarrow> bool" where
  "heap_but_up h k \<longleftrightarrow>
     (\<forall>i. 2 \<le> i \<and> i \<le> hsize h \<and> i \<noteq> k \<longrightarrow> prio h (i div 2) \<le> prio h i) \<and>
     (\<forall>i. 2 \<le> i \<and> i \<le> hsize h \<and> i div 2 = k \<and> 2 \<le> k \<longrightarrow> prio h (k div 2) \<le> prio h i)"

definition heap_but_down :: "'a heap \<Rightarrow> nat \<Rightarrow> bool" where
  "heap_but_down h k \<longleftrightarrow>
     (\<forall>i. 2 \<le> i \<and> i \<le> hsize h \<and> i div 2 \<noteq> k \<longrightarrow> prio h (i div 2) \<le> prio h i) \<and>
     (\<forall>i. 2 \<le> i \<and> i \<le> hsize h \<and> i div 2 = k \<and> 2 \<le> k \<longrightarrow> prio h (k div 2) \<le> prio h i)"

definition heap_elems :: "'a heap \<Rightarrow> (u64 \<times> 'a) multiset" where
  "heap_elems h = {# (priority (array h i), owner (array h i)). i \<in># mset_set {1..hsize h} #}"

definition heap_inv :: "'a heap \<Rightarrow> bool" where
  "heap_inv h \<longleftrightarrow> is_heap h \<and> hsize h \<le> allocated h"

lemma heap_swap_simps [simp]:
  "hsize (heap_swap h i j) = hsize h"
  "allocated (heap_swap h i j) = allocated h"
  "prio (heap_swap h i j) k = (if k = j then prio h i else if k = i then prio h j else prio h k)"
  "owner (array (heap_swap h i j) k) =
     (if k = j then owner (array h i) else if k = i then owner (array h j) else owner (array h k))"
  by (simp_all add: heap_swap_def add_node_def Let_def)

lemma image_mset_swap:
  assumes "i \<in> A" "j \<in> A" "finite A"
  shows "image_mset (\<lambda>k. if k = j then f i else if k = i then f j else f k) (mset_set A) =
    image_mset f (mset_set A)"
proof -
  let ?p = "\<lambda>k. if k = j then i else if k = i then j else k"
  have inj: "inj_on ?p A"
    by (auto simp: inj_on_def split: if_splits)
  have "?p ` A = A"
    by (rule endo_inj_surj [OF assms(3) _ inj]) (use assms in auto)
  then have "image_mset f (mset_set A) = image_mset f (image_mset ?p (mset_set A))"
    by (simp add: image_mset_mset_set [OF inj])
  also have "\<dots> = image_mset (\<lambda>k. f (?p k)) (mset_set A)"
    by (simp add: multiset.map_comp comp_def)
  finally show ?thesis
    by (simp add: if_distrib [of f] cong: if_cong)
qed

lemma heap_elems_swap [simp]:
  assumes "1 \<le> i" "i \<le> hsize h" "1 \<le> j" "j \<le> hsize h"
  shows "heap_elems (heap_swap h i j) = heap_elems h"
proof -
  let ?f = "\<lambda>k. (priority (array h k), owner (array h k))"
  have "heap_elems (heap_swap h i j) =
      image_mset (\<lambda>k. if k = j then ?f i else if k = i then ?f j else ?f k) (mset_set {1..hsize h})"
    unfolding heap_elems_def by (auto intro!: image_mset_cong)
  then show ?thesis
    using image_mset_swap [of i "{1..hsize h}" j ?f] assms by (simp add: heap_elems_def)
qed

lemma root_minimal:
  assumes "is_heap h" "1 \<le> i" "i \<le> hsize h"
  shows "prio h 1 \<le> prio h i"
  using assms(2,3)
proof (induction i rule: less_induct)
  case (less i)
  show ?case
  proof (cases "i = 1")
    case False
    then have "prio h 1 \<le> prio h (i div 2)"
      using less by (intro less.IH) auto
    also have "\<dots> \<le> prio h i"
      using assms(1) False less.prems by (simp add: is_heap_def)
    finally show ?thesis .
  qed simp
qed

subsection \<open>Insertion\<close>

lemma is_heap_iff_but_up_1: "heap_but_up h 1 \<longleftrightarrow> is_heap h"
  by (auto simp: is_heap_def heap_but_up_def)

lemma heap_but_up_stop:
  "heap_but_up h i \<Longrightarrow> prio h (i div 2) \<le> prio h i \<Longrightarrow> is_heap h"
  unfolding is_heap_def heap_but_up_def by metis

lemma heap_but_up_swap:
  assumes "heap_but_up h i" "1 < i" "i \<le> hsize h" "prio h i < prio h (i div 2)"
  shows "heap_but_up (heap_swap h i (i div 2)) (i div 2)"
  unfolding heap_but_up_def
proof (intro conjI allI impI)
  note but = assms(1) [unfolded heap_but_up_def]
  fix k assume k: "2 \<le> k \<and> k \<le> hsize (heap_swap h i (i div 2)) \<and> k \<noteq> i div 2"
  consider "k = i" | "k \<noteq> i" "k div 2 = i div 2" | "k \<noteq> i" "k div 2 = i"
    | "k \<noteq> i" "k div 2 \<noteq> i" "k div 2 \<noteq> i div 2"
    by blast
  then show "prio (heap_swap h i (i div 2)) (k div 2) \<le> prio (heap_swap h i (i div 2)) k"
  proof cases
    case 2
    then have "prio h (i div 2) \<le> prio h k"
      using but k by (metis heap_swap_simps(1))
    then show ?thesis
      using 2 k assms(2,4) by auto
  qed (use but k assms in auto)
next
  note but = assms(1) [unfolded heap_but_up_def]
  fix k assume k: "2 \<le> k \<and> k \<le> hsize (heap_swap h i (i div 2)) \<and> k div 2 = i div 2 \<and> 2 \<le> i div 2"
  then have up: "prio h (i div 2 div 2) \<le> prio h (i div 2)"
    using but assms(2,3) by auto
  have "k \<noteq> i \<Longrightarrow> prio h (i div 2) \<le> prio h k"
    using but k by (metis heap_swap_simps(1))
  then show "prio (heap_swap h i (i div 2)) (i div 2 div 2) \<le> prio (heap_swap h i (i div 2)) k"
    using up k assms(2) by auto
qed

lemma bubble_up_correct:
  assumes "heap_but_up h i" "1 \<le> i" "i \<le> hsize h" "prio h i = p"
  shows "is_heap (bubble_up h p i) \<and> hsize (bubble_up h p i) = hsize h \<and>
    allocated (bubble_up h p i) = allocated h \<and> heap_elems (bubble_up h p i) = heap_elems h"
  using assms
proof (induction h p i rule: bubble_up.induct)
  case (1 h p i)
  show ?case
  proof (cases "1 < i \<and> \<not> prio h (i div 2) \<le> p")
    case True
    let ?h = "heap_swap h i (i div 2)"
    have "heap_but_up ?h (i div 2)"
      using 1 True by (intro heap_but_up_swap) auto
    moreover have "1 \<le> i div 2" "i div 2 \<le> hsize ?h" "prio ?h (i div 2) = p"
      using 1 True by auto
    ultimately have "is_heap (bubble_up ?h p (i div 2)) \<and> hsize (bubble_up ?h p (i div 2)) = hsize ?h \<and>
      allocated (bubble_up ?h p (i div 2)) = allocated ?h \<and>
      heap_elems (bubble_up ?h p (i div 2)) = heap_elems ?h"
      using 1(1) [of "i div 2"] True by (auto simp: heap_parent_def)
    then show ?thesis
      using 1 True by (subst (1 2 3 4) bubble_up.simps) (auto simp: heap_parent_def Let_def)
  next
    case False
    then have "bubble_up h p i = h"
      by (subst bubble_up.simps) (auto simp: heap_parent_def Let_def)
    moreover have "is_heap h"
    proof (cases "i = 1")
      case True
      then show ?thesis
        using 1(2) is_heap_iff_but_up_1 by blast
    next
      case False
      then show ?thesis
        using \<open>\<not> (1 < i \<and> \<not> prio h (i div 2) \<le> p)\<close> 1(2-5) by (intro heap_but_up_stop [of h i]) auto
    qed
    ultimately show ?thesis
      by simp
  qed
qed

lemma atLeastAtMost_Suc_mset: "mset_set {Suc 0..Suc n} = add_mset (Suc n) (mset_set {Suc 0..n})"
  by (simp add: atLeastAtMostSuc_conv)

lemma heap_insert_correct:
  assumes "heap_inv h"
  shows "heap_inv (heap_insert h node p)"
    and "heap_elems (heap_insert h node p) = add_mset (p, owner node) (heap_elems h)"
proof -
  define n where "n = Suc (hsize h)"
  define h' where "h' = h\<lparr>array := (array h)(n := node\<lparr>idx := n, priority := p\<rparr>), hsize := n,
    allocated := (if hsize h \<ge> allocated h then if hsize h = 0 then 1 else 2 * hsize h else allocated h)\<rparr>"
  have ins: "heap_insert h node p = bubble_up h' p n"
    by (cases h) (simp add: heap_insert_def h'_def add_node_def n_def Let_def)
  have "heap_but_up h' n"
    using assms by (auto simp: heap_but_up_def heap_inv_def is_heap_def h'_def n_def le_Suc_eq)
  then have *: "is_heap (bubble_up h' p n) \<and> hsize (bubble_up h' p n) = hsize h' \<and>
    allocated (bubble_up h' p n) = allocated h' \<and> heap_elems (bubble_up h' p n) = heap_elems h'"
    by (intro bubble_up_correct) (simp_all add: h'_def n_def)
  moreover have "hsize h' \<le> allocated h'"
    using assms by (auto simp: h'_def n_def heap_inv_def)
  ultimately show "heap_inv (heap_insert h node p)"
    by (simp add: ins heap_inv_def)
  have "heap_elems h' = add_mset (p, owner node) (heap_elems h)"
    unfolding heap_elems_def h'_def n_def
    by (auto simp: atLeastAtMost_Suc_mset intro!: image_mset_cong)
  then show "heap_elems (heap_insert h node p) = add_mset (p, owner node) (heap_elems h)"
    using * by (simp add: ins)
qed

subsection \<open>Deletion\<close>

lemma heap_but_down_stop:
  assumes "heap_but_down h i" "heapify_min h i (hsize h) = i" "1 \<le> i"
  shows "is_heap h"
  unfolding is_heap_def
proof (intro allI impI)
  fix k assume k: "2 \<le> k \<and> k \<le> hsize h"
  show "prio h (k div 2) \<le> prio h k"
  proof (cases "k div 2 = i")
    case True
    then have "k = heap_left_child i \<or> k = heap_right_child i"
      by (auto simp: heap_left_child_def heap_right_child_def)
    then show ?thesis
      using assms(2,3) True k
      by (auto simp: heapify_min_def heap_left_child_def heap_right_child_def Let_def split: if_splits)
  qed (use assms(1) k in \<open>auto simp: heap_but_down_def\<close>)
qed

lemma heapify_min_child:
  assumes "m = heapify_min h i n" "m \<noteq> i" "1 \<le> i"
  shows "m div 2 = i" "m \<le> n" "2 \<le> m" "prio h m < prio h i"
    and "\<And>k. k \<le> n \<Longrightarrow> k div 2 = i \<Longrightarrow> prio h m \<le> prio h k"
proof -
  show "m div 2 = i" "m \<le> n" "2 \<le> m" "prio h m < prio h i"
    using assms
    by (auto simp: heapify_min_def heap_left_child_def heap_right_child_def Let_def split: if_splits)
  fix k assume k: "k \<le> n" "k div 2 = i"
  then have "k = heap_left_child i \<or> k = heap_right_child i"
    by (auto simp: heap_left_child_def heap_right_child_def)
  then show "prio h m \<le> prio h k"
    using assms k
    by (auto simp: heapify_min_def heap_left_child_def heap_right_child_def Let_def split: if_splits)
qed

lemma heap_but_down_swap:
  assumes "heap_but_down h i" "m = heapify_min h i (hsize h)" "m \<noteq> i" "1 \<le> i"
  shows "heap_but_down (heap_swap h i m) m"
proof -
  note m = heapify_min_child [OF assms(2-4)]
  note but = assms(1) [unfolded heap_but_down_def]
  have "prio (heap_swap h i m) (k div 2) \<le> prio (heap_swap h i m) k"
    if k: "2 \<le> k" "k \<le> hsize h" "k div 2 \<noteq> m" for k
  proof -
    consider "k = m" | "k = i" "k \<noteq> m" | "k \<noteq> i" "k \<noteq> m" "k div 2 = i" | "k \<noteq> i" "k \<noteq> m" "k div 2 \<noteq> i"
      by blast
    then show ?thesis
    proof cases
      case 2
      then show ?thesis
        using but k m by auto
    qed (use but k m in auto)
  qed
  moreover have "prio (heap_swap h i m) (m div 2) \<le> prio (heap_swap h i m) k"
    if k: "2 \<le> k" "k \<le> hsize h" "k div 2 = m" for k
  proof -
    have "prio h m \<le> prio h k" "k \<noteq> i" "k \<noteq> m"
      using but k m(1,3) assms(4) by auto
    then show ?thesis
      using m(1,3) by auto
  qed
  ultimately show ?thesis
    by (auto simp: heap_but_down_def)
qed

lemma min_heapify_loop_correct:
  assumes "heap_but_down h i" "1 \<le> i" "n = hsize h" "m < n \<or> n < 2 * i"
  shows "is_heap (min_heapify_loop h m i n) \<and> hsize (min_heapify_loop h m i n) = hsize h \<and>
    allocated (min_heapify_loop h m i n) = allocated h \<and>
    heap_elems (min_heapify_loop h m i n) = heap_elems h"
  using assms
proof (induction h m i n rule: min_heapify_loop.induct)
  case (1 h m i n)
  let ?m = "heapify_min h i n"
  show ?case
  proof (cases "m < hsize h \<and> ?m \<noteq> i")
    case True
    let ?h = "heap_swap h i ?m"
    note c = heapify_min_child [OF refl, of h i n]
    have "?m < n \<or> n < 2 * ?m"
      using True 1(3) c by auto
    moreover have "heap_but_down ?h ?m"
      using 1 True by (intro heap_but_down_swap) auto
    ultimately have "is_heap (min_heapify_loop ?h ?m ?m n) \<and> hsize (min_heapify_loop ?h ?m ?m n) = hsize ?h \<and>
      allocated (min_heapify_loop ?h ?m ?m n) = allocated ?h \<and>
      heap_elems (min_heapify_loop ?h ?m ?m n) = heap_elems ?h"
      using 1(1) [of ?m] 1(3,4) True c by auto
    moreover have "heap_elems ?h = heap_elems h"
      using 1(3,4) True c by (intro heap_elems_swap) auto
    ultimately show ?thesis
      using True by (subst (1 2 3 4) min_heapify_loop.simps) (auto simp: Let_def)
  next
    case False
    then have "min_heapify_loop h m i n = h"
      by (subst min_heapify_loop.simps) (auto simp: Let_def)
    moreover have "?m = i"
    proof (rule ccontr)
      assume "?m \<noteq> i"
      then show False
        using False heapify_min_child [OF refl, of h i n] 1(3,4,5) by auto
    qed
    ultimately show ?thesis
      using 1(2,3,4) heap_but_down_stop by simp
  qed
qed

lemma heap_delete_correct:
  assumes "heap_inv h" "heap_delete h = Inr (node, h')"
  shows "heap_inv h'"
    and "heap_elems h = add_mset (priority node, owner node) (heap_elems h')"
    and "\<forall>e \<in># heap_elems h. priority node \<le> fst e"
proof -
  obtain n where n: "hsize h = Suc n"
    using assms(2) by (cases "hsize h") (auto simp: heap_delete_def)
  define g where "g = h\<lparr>hsize := n, array := (array h)(1 := array h (Suc n))\<rparr>"
  have node: "node = array h 1" and h': "h' = min_heapify_loop g 0 1 n"
    using assms(2) n by (auto simp: heap_delete_def min_heapify_def g_def Let_def)
  have "heap_but_down g 1"
    using assms(1) n by (auto simp: heap_but_down_def heap_inv_def is_heap_def g_def)
  then have *: "is_heap h' \<and> hsize h' = hsize g \<and> allocated h' = allocated g \<and> heap_elems h' = heap_elems g"
    unfolding h' by (intro min_heapify_loop_correct) (auto simp: g_def)
  then show "heap_inv h'"
    using assms(1) n by (simp add: heap_inv_def g_def)
  let ?f = "\<lambda>k. (priority (array h k), owner (array h k))"
  have "add_mset (?f 1) (heap_elems g) = heap_elems h"
  proof (cases n)
    case (Suc k)
    have "mset_set {Suc 0..n} = add_mset (Suc 0) (mset_set {2..n})"
      by (simp add: Suc atLeastAtMost_insertL numeral_2_eq_2 flip: mset_set.insert)
    then show ?thesis
      by (auto simp: heap_elems_def g_def n atLeastAtMost_Suc_mset intro!: image_mset_cong)
  qed (simp add: heap_elems_def g_def n)
  then show "heap_elems h = add_mset (priority node, owner node) (heap_elems h')"
    using * by (simp add: node)
  show "\<forall>e \<in># heap_elems h. priority node \<le> fst e"
    using root_minimal assms(1) by (auto simp: heap_elems_def heap_inv_def node)
qed

subsection \<open>The heap as an event queue\<close>

definition heap_put :: "u64 \<times> 'a \<Rightarrow> 'a heap \<Rightarrow> 'a heap" where
  "heap_put e h = heap_insert h \<lparr>priority = 0, idx = 0, owner = snd e\<rparr> (fst e)"

definition heap_take :: "'a heap \<Rightarrow> ((u64 \<times> 'a) \<times> 'a heap) res" where
  "heap_take h =
     (case heap_delete h of
        Inl e \<Rightarrow> Inl e
      | Inr (node, h') \<Rightarrow> Inr ((priority node, owner node), h'))"

lemma heap_inv_init [simp]: "heap_inv (heap_init mem)"
  by (simp add: heap_inv_def is_heap_def heap_init_def)

lemma heap_elems_init [simp]: "heap_elems (heap_init mem) = {#}"
  by (simp add: heap_elems_def heap_init_def)

lemma heap_delete_nonempty: "0 < hsize h \<Longrightarrow> \<exists>h'. heap_delete h = Inr (array h 1, h')"
  by (simp add: heap_delete_def Let_def)

interpretation heap_queue: event_queue "heap_init mem" heap_put heap_take heap_elems heap_inv fst
  for mem
proof
  fix h :: "'a heap" and e
  assume h: "heap_inv h"
  show "heap_inv (heap_put e h)" "heap_elems (heap_put e h) = add_mset e (heap_elems h)"
    using heap_insert_correct [OF h] by (simp_all add: heap_put_def)
  show "heap_elems h \<noteq> {#} \<Longrightarrow> \<exists>e h'. heap_take h = Inr (e, h')"
    using heap_delete_nonempty [of h]
    by (cases "hsize h") (auto simp: heap_take_def heap_elems_def)
  fix h'
  assume "heap_take h = Inr (e, h')"
  then obtain node where "heap_delete h = Inr (node, h')" "e = (priority node, owner node)"
    by (auto simp: heap_take_def split: sum.splits)
  then show "heap_inv h' \<and> heap_elems h = add_mset e (heap_elems h') \<and>
      (\<forall>e' \<in># heap_elems h'. fst e \<le> fst e')"
    using heap_delete_correct [OF h] by (metis fst_conv insert_iff set_mset_add_mset_insert)
qed simp_all

subsection \<open>Properties\<close>

text \<open>on a heap in order, \<open>heap_insert\<close> and \<open>heap_delete\<close> keep the order and the bound
  on the array, an insertion adds exactly the node with its priority, and a deletion from a
  non-empty heap returns the node \<open>heap_retrieve\<close> shows, which has the least priority of all,
  and removes exactly that node.\<close>

theorem heap_operations_correct:
  assumes "heap_inv h" "0 < hsize h"
  shows "heap_inv (heap_insert h node p) \<and>
    heap_elems (heap_insert h node p) = add_mset (p, owner node) (heap_elems h) \<and>
    (\<exists>least h'. heap_delete h = Inr (least, h') \<and> heap_retrieve h = Inr least \<and> heap_inv h' \<and>
       heap_elems h = add_mset (priority least, owner least) (heap_elems h') \<and>
       (\<forall>e \<in># heap_elems h. priority least \<le> fst e))"
proof -
  obtain h' where d: "heap_delete h = Inr (array h 1, h')"
    using heap_delete_nonempty [OF assms(2)] by blast
  moreover have "heap_retrieve h = Inr (array h 1)"
    using assms by (simp add: heap_retrieve_def heap_inv_def)
  ultimately show ?thesis
    using heap_insert_correct [OF assms(1)] heap_delete_correct [OF assms(1) d] by blast
qed

text \<open>A heap with the priorities 5 and 3.\<close>

definition example_heap :: "string heap" where
  "example_heap =
     heap_put (3, ''b'') (heap_put (5, ''a'')
       (heap_init (\<lambda>_. \<lparr>priority = 0, idx = 0, owner = ''''\<rparr>)))"

lemma example_heap_simps:
  "heap_inv example_heap" "heap_elems example_heap = {#(3, ''b''), (5, ''a'')#}"
  by (simp_all add: example_heap_def heap_queue.invar_insert heap_queue.contents_insert)

theorem heap_operations_correct_witness:
  "heap_inv (heap_insert example_heap \<lparr>priority = 0, idx = 0, owner = ''c''\<rparr> 4) \<and>
   (\<exists>least h'. heap_delete example_heap = Inr (least, h') \<and> heap_inv h' \<and> priority least \<le> 3)"
proof -
  have "0 < hsize example_heap"
    using example_heap_simps(2) by (cases "hsize example_heap") (auto simp: heap_elems_def)
  then show ?thesis
    using heap_operations_correct [OF example_heap_simps(1), of "\<lparr>priority = 0, idx = 0, owner = ''c''\<rparr>" 4]
    by (auto simp: example_heap_simps(2))
qed

text \<open>whatever priorities are inserted, and in whatever order, deleting until the heap is
  empty returns every inserted node exactly once, in the order of the priorities.\<close>

theorem heap_drains_in_order:
  "mset (drain heap_take (length evs) (fold heap_put evs (heap_init mem))) = mset evs \<and>
   sorted (map fst (drain heap_take (length evs) (fold heap_put evs (heap_init mem))))"
  using heap_queue.drain_inserted by blast

text \<open>\<open>heap_delete\<close> writes the last node into position 1 without its index: when no swap
  follows, the node keeps the index of the position it came from.\<close>

lemma heap_delete_stale_idx:
  "case heap_delete example_heap of
     Inr (node, h) \<Rightarrow> hsize h = 1 \<and> idx (array h 1) = 2
   | Inl _ \<Rightarrow> False"
  by code_simp

end
