(* ===== verification/Containers.thy ===== *)
theory Containers
  imports Prelude
begin

section \<open>The intrusive containers (utlist, uthash)\<close>

text \<open>
  The lists and hash tables of the code are intrusive: the links are members of the elements and
  the macros of \<open>utlist.h\<close> and \<open>uthash.h\<close> thread them.  A list is the list of its elements
  from the head.  A hash table is the list of its elements in the order of insertion, the order in
  which \<open>HASH_ITER\<close> visits them; a table may hold two elements with one key, because
  \<open>HASH_ADD\<close> does not look, and then \<open>HASH_FIND\<close> returns the one added last: an element is put
  at the head of its bucket.  (When a table grows, its chains are rebuilt back to front, which
  reverses that choice for duplicates; every component below keeps its keys distinct except where
  it is said otherwise, and then the order does not matter.)
\<close>

subsection \<open>Singly linked lists\<close>

definition LL_APPEND :: "'a list \<Rightarrow> 'a \<Rightarrow> 'a list" where
  "LL_APPEND xs x = xs @ [x]"

text \<open>\<open>LL_INSERT_INORDER\<close>: before the first element that does not compare below the new one.\<close>

primrec LL_INSERT_INORDER :: "('a \<Rightarrow> 'a \<Rightarrow> int) \<Rightarrow> 'a list \<Rightarrow> 'a \<Rightarrow> 'a list" where
  "LL_INSERT_INORDER cmp [] x = [x]"
| "LL_INSERT_INORDER cmp (y # ys) x =
     (if cmp y x \<ge> 0 then x # y # ys else y # LL_INSERT_INORDER cmp ys x)"

text \<open>\<open>LL_DELETE\<close> by address: \<open>is\<close> tells the element.  The macro reads the head's link
  first, so an empty list is dereferenced.\<close>

primrec ll_remove :: "('a \<Rightarrow> bool) \<Rightarrow> 'a list \<Rightarrow> 'a list" where
  "ll_remove is [] = []"
| "ll_remove is (y # ys) = (if is y then ys else y # ll_remove is ys)"

definition LL_DELETE :: "('a \<Rightarrow> bool) \<Rightarrow> 'a list \<Rightarrow> 'a list res" where
  "LL_DELETE is xs = (if xs = [] then Inl Null_Deref else Inr (ll_remove is xs))"

subsection \<open>Hash tables\<close>

definition HASH_ADD :: "'a list \<Rightarrow> 'a \<Rightarrow> 'a list" where
  "HASH_ADD t e = t @ [e]"

definition HASH_FIND :: "('a \<Rightarrow> 'k) \<Rightarrow> 'a list \<Rightarrow> 'k \<Rightarrow> 'a option" where
  "HASH_FIND key t k = find (\<lambda>e. key e = k) (rev t)"

text \<open>Deletion of, and assignment through, the element a search has returned.\<close>

definition HASH_DEL :: "('a \<Rightarrow> 'k) \<Rightarrow> 'a list \<Rightarrow> 'k \<Rightarrow> 'a list" where
  "HASH_DEL key t k = rev (ll_remove (\<lambda>e. key e = k) (rev t))"

primrec update_first :: "('a \<Rightarrow> bool) \<Rightarrow> ('a \<Rightarrow> 'a) \<Rightarrow> 'a list \<Rightarrow> 'a list" where
  "update_first is f [] = []"
| "update_first is f (y # ys) = (if is y then f y # ys else y # update_first is f ys)"

definition hash_update :: "('a \<Rightarrow> 'k) \<Rightarrow> 'a list \<Rightarrow> 'k \<Rightarrow> ('a \<Rightarrow> 'a) \<Rightarrow> 'a list" where
  "hash_update key t k f = rev (update_first (\<lambda>e. key e = k) f (rev t))"

definition HASH_REPLACE :: "('a \<Rightarrow> 'k) \<Rightarrow> 'a list \<Rightarrow> 'a \<Rightarrow> 'a list" where
  "HASH_REPLACE key t e = HASH_ADD (HASH_DEL key t (key e)) e"

abbreviation keys_of :: "('a \<Rightarrow> 'k) \<Rightarrow> 'a list \<Rightarrow> 'k set" where
  "keys_of key t \<equiv> key ` set t"

subsection \<open>Lemmas on lists\<close>

lemma mset_LL_INSERT_INORDER [simp]:
  "mset (LL_INSERT_INORDER cmp xs x) = add_mset x (mset xs)"
  by (induction xs) simp_all

lemma set_LL_INSERT_INORDER [simp]: "set (LL_INSERT_INORDER cmp xs x) = insert x (set xs)"
  by (induction xs) auto

lemma ll_remove_none: "\<forall>x \<in> set xs. \<not> is x \<Longrightarrow> ll_remove is xs = xs"
  by (induction xs) simp_all

lemma set_ll_remove_subset: "set (ll_remove is xs) \<subseteq> set xs"
  by (induction xs) auto

lemma ll_remove_append:
  "ll_remove is (xs @ ys) =
     (if \<exists>x \<in> set xs. is x then ll_remove is xs @ ys else xs @ ll_remove is ys)"
  by (induction xs) auto

lemma key_not_in_rest: "distinct (map key (x # xs)) \<Longrightarrow> \<forall>y \<in> set xs. key y \<noteq> key x"
  by (metis distinct.simps(2) imageI list.set_map list.simps(9))

lemma ll_remove_filter:
  "distinct (map key xs) \<Longrightarrow> ll_remove (\<lambda>e. key e = k) xs = filter (\<lambda>e. key e \<noteq> k) xs"
proof (induction xs)
  case (Cons x xs)
  show ?case
  proof (cases "key x = k")
    case True
    then have "filter (\<lambda>e. key e \<noteq> k) xs = xs"
      using key_not_in_rest [OF Cons.prems] by (simp add: filter_id_conv)
    then show ?thesis
      using True by simp
  qed (use Cons in auto)
qed simp

lemma sorted_ll_remove: "sorted_wrt R xs \<Longrightarrow> sorted_wrt R (ll_remove is xs)"
  by (induction xs) (auto dest: set_ll_remove_subset [THEN subsetD])

lemma mset_ll_remove:
  "find is xs = Some x \<Longrightarrow> mset xs = add_mset x (mset (ll_remove is xs))"
  by (induction xs) (auto split: if_splits)

lemma map_update_first:
  "(\<And>x. g (f x) = g x) \<Longrightarrow> map g (update_first is f xs) = map g xs"
  by (induction xs) auto

lemma length_update_first [simp]: "length (update_first is f xs) = length xs"
  by (induction xs) auto

lemma update_first_map:
  "distinct (map key xs) \<Longrightarrow>
     update_first (\<lambda>e. key e = k) f xs = map (\<lambda>e. if key e = k then f e else e) xs"
proof (induction xs)
  case (Cons x xs)
  show ?case
  proof (cases "key x = k")
    case True
    then have "map (\<lambda>e. if key e = k then f e else e) xs = xs"
      using key_not_in_rest [OF Cons.prems] by (intro map_idI) simp
    then show ?thesis
      using True by simp
  qed (use Cons in auto)
qed simp

subsection \<open>Lemmas on hash tables\<close>

lemma set_HASH_ADD [simp]: "set (HASH_ADD t e) = insert e (set t)"
  by (auto simp: HASH_ADD_def)

lemma HASH_FIND_empty [simp]: "HASH_FIND key [] k = None"
  by (simp add: HASH_FIND_def)

lemma HASH_FIND_add [simp]:
  "HASH_FIND key (HASH_ADD t e) k = (if key e = k then Some e else HASH_FIND key t k)"
  by (simp add: HASH_FIND_def HASH_ADD_def)

lemma find_SomeD: "find P xs = Some x \<Longrightarrow> x \<in> set xs \<and> P x"
  by (induction xs) (auto split: if_splits)

lemma HASH_FIND_SomeD: "HASH_FIND key t k = Some e \<Longrightarrow> e \<in> set t \<and> key e = k"
  using find_SomeD [of "\<lambda>e. key e = k" "rev t" e] by (simp add: HASH_FIND_def)

lemma HASH_FIND_None: "HASH_FIND key t k = None \<longleftrightarrow> k \<notin> keys_of key t"
  by (auto simp: HASH_FIND_def find_None_iff)

lemma HASH_FIND_unique:
  assumes "distinct (map key t)"
  shows "HASH_FIND key t k = Some e \<longleftrightarrow> e \<in> set t \<and> key e = k"
proof
  assume e: "e \<in> set t \<and> key e = k"
  then obtain e' where e': "HASH_FIND key t k = Some e'"
    using HASH_FIND_None [of key t k] by force
  then show "HASH_FIND key t k = Some e"
    using e HASH_FIND_SomeD [OF e'] assms by (metis distinct_map inj_onD)
qed (rule HASH_FIND_SomeD)

lemma HASH_DEL_filter:
  "distinct (map key t) \<Longrightarrow> HASH_DEL key t k = filter (\<lambda>e. key e \<noteq> k) t"
  using ll_remove_filter [of key "rev t" k] by (simp add: HASH_DEL_def flip: rev_map rev_filter)

lemma HASH_DEL_absent: "k \<notin> keys_of key t \<Longrightarrow> HASH_DEL key t k = t"
  unfolding HASH_DEL_def by (subst ll_remove_none) auto

lemma set_HASH_DEL_subset: "set (HASH_DEL key t k) \<subseteq> set t"
  by (simp add: HASH_DEL_def) (metis set_ll_remove_subset set_rev)

lemma hash_update_map:
  "distinct (map key t) \<Longrightarrow> hash_update key t k f = map (\<lambda>e. if key e = k then f e else e) t"
  using update_first_map [of key "rev t" k f] by (simp add: hash_update_def flip: rev_map)

lemma find_update_first:
  assumes "\<And>x. key x = k \<Longrightarrow> key (f x) = k"
  shows "find (\<lambda>e. key e = k') (update_first (\<lambda>e. key e = k) f xs) =
    (if k' = k then map_option f (find (\<lambda>e. key e = k) xs) else find (\<lambda>e. key e = k') xs)"
  using assms by (induction xs) auto

lemma HASH_FIND_hash_update:
  "(\<And>x. key x = k \<Longrightarrow> key (f x) = k) \<Longrightarrow> HASH_FIND key (hash_update key t k f) k' =
    (if k' = k then map_option f (HASH_FIND key t k) else HASH_FIND key t k')"
  using find_update_first [of key k f k' "rev t"] by (simp add: HASH_FIND_def hash_update_def)

lemma map_hash_update:
  "(\<And>x. g (f x) = g x) \<Longrightarrow> map g (hash_update key t k f) = map g t"
  using map_update_first [of g f _ "rev t"] by (simp add: hash_update_def flip: rev_map)

lemma distinct_HASH_ADD [simp]:
  "distinct (map key (HASH_ADD t e)) \<longleftrightarrow> distinct (map key t) \<and> key e \<notin> keys_of key t"
  by (auto simp: HASH_ADD_def)

lemma distinct_HASH_DEL: "distinct (map key t) \<Longrightarrow> distinct (map key (HASH_DEL key t k))"
  by (simp add: HASH_DEL_filter distinct_map_filter)

subsection \<open>The contract of a keyed table\<close>

text \<open>What the clients of a table that replaces by key rely on.  The law is stated over the
  search function only, so that it says nothing about the order of the elements.\<close>

locale keyed_table =
  fixes empty :: 't
    and lookup :: "'t \<Rightarrow> 'k \<Rightarrow> 'e option"
    and put :: "'t \<Rightarrow> 'e \<Rightarrow> 't"
    and key :: "'e \<Rightarrow> 'k"
    and invar :: "'t \<Rightarrow> bool"
  assumes lookup_empty: "lookup empty = Map.empty"
    and invar_empty: "invar empty"
    and invar_put: "invar t \<Longrightarrow> invar (put t e)"
    and lookup_put: "invar t \<Longrightarrow> lookup (put t e) = (lookup t)(key e \<mapsto> e)"
begin

lemma lookup_key: "invar t \<Longrightarrow> lookup (put t e) k = (if k = key e then Some e else lookup t k)"
  by (simp add: lookup_put)

lemma invar_fold: "invar t \<Longrightarrow> invar (fold (\<lambda>e t. put t e) es t)"
  by (induction es arbitrary: t) (simp_all add: invar_put)

lemma lookup_fold:
  "invar t \<Longrightarrow>
     lookup (fold (\<lambda>e t. put t e) es t) = lookup t ++ map_of (rev (map (\<lambda>e. (key e, e)) es))"
  by (induction es arbitrary: t) (simp_all add: invar_put lookup_put)

lemma lookup_fold_distinct:
  assumes "distinct (map key es)" "e \<in> set es"
  shows "lookup (fold (\<lambda>e t. put t e) es empty) (key e) = Some e"
proof -
  let ?kvs = "rev (map (\<lambda>e. (key e, e)) es)"
  have "distinct (map fst ?kvs)"
    using assms(1) by (simp add: rev_map comp_def flip: rev_map)
  moreover have "(key e, e) \<in> set ?kvs"
    using assms(2) by simp
  ultimately have "map_of ?kvs (key e) = Some e"
    by (metis map_of_is_SomeI)
  then show ?thesis
    by (simp add: lookup_fold invar_empty lookup_empty)
qed

end

lemma HASH_FIND_DEL:
  assumes "distinct (map key t)"
  shows "HASH_FIND key (HASH_DEL key t k) k' = (if k' = k then None else HASH_FIND key t k')"
proof (cases "k' = k")
  case True
  then show ?thesis
    using assms by (auto simp: HASH_FIND_None HASH_DEL_filter)
next
  case False
  show ?thesis
  proof (cases "HASH_FIND key t k'")
    case None
    then have "HASH_FIND key (HASH_DEL key t k) k' = None"
      using assms by (auto simp: HASH_FIND_None HASH_DEL_filter)
    then show ?thesis
      using None False by simp
  next
    case (Some e)
    then have "e \<in> set t \<and> key e = k'"
      by (rule HASH_FIND_SomeD)
    then have "e \<in> set (HASH_DEL key t k) \<and> key e = k'"
      using assms False by (simp add: HASH_DEL_filter)
    then have "HASH_FIND key (HASH_DEL key t k) k' = Some e"
      using HASH_FIND_unique [OF distinct_HASH_DEL [OF assms]] by blast
    then show ?thesis
      using False Some by simp
  qed
qed

lemma distinct_HASH_REPLACE: "distinct (map key t) \<Longrightarrow> distinct (map key (HASH_REPLACE key t e))"
  by (auto simp: HASH_REPLACE_def HASH_DEL_filter distinct_map_filter)

lemma HASH_FIND_REPLACE:
  "distinct (map key t) \<Longrightarrow>
     HASH_FIND key (HASH_REPLACE key t e) k = (if k = key e then Some e else HASH_FIND key t k)"
  by (auto simp: HASH_REPLACE_def HASH_FIND_DEL)

interpretation hash_table: keyed_table "[]" "HASH_FIND key" "HASH_REPLACE key" key
  "\<lambda>t. distinct (map key t)" for key :: "'e \<Rightarrow> 'k"
  by unfold_locales (auto simp: HASH_FIND_REPLACE intro: distinct_HASH_REPLACE)

end
