(* ===== verification/Server.thy ===== *)
theory Server
  imports Containers
begin

section \<open>The server for the daemons of the routers (sim/server)\<close>

text \<open>
  The connections of the daemons.  A connection is kept under its number; its buffer is an object of
  the event library, of which the model keeps whether it was released.  A number is an \<open>int\<close> of the
  program, given out by a counter.  The listener and its thread are the library's.
\<close>

subsection \<open>Definitions\<close>

record conn =
  c_id :: int
  c_bev :: nat

record server =
  srv_port :: u16
  srv_address :: string
  srv_running :: bool
  connections :: "conn list"
  next_conn_id :: int
  bevs :: "nat list"
  srv_sent :: "(nat \<times> bytes) list"

definition BEV_EVENT_EOF :: u16 where "BEV_EVENT_EOF = 0x10"
definition BEV_EVENT_ERROR :: u16 where "BEV_EVENT_ERROR = 0x20"

definition server_new :: "string \<Rightarrow> u16 \<Rightarrow> server" where
  "server_new address p =
     \<lparr>srv_port = p, srv_address = address, srv_running = False, connections = [], next_conn_id = 0, bevs = [], srv_sent = []\<rparr>"

definition server_start :: "server \<Rightarrow> server" where
  "server_start s = s\<lparr>srv_running := True\<rparr>"

text \<open>\<open>bev\<close> is the buffer the library makes for the socket.\<close>

definition accept_conn_cb :: "server \<Rightarrow> nat \<Rightarrow> server res" where
  "accept_conn_cb s bev =
     (let s = s\<lparr>connections := HASH_ADD (connections s) \<lparr>c_id = next_conn_id s, c_bev = bev\<rparr>, bevs := bevs s @ [bev]\<rparr> in
      if next_conn_id s < 2147483647 then Inr (s\<lparr>next_conn_id := next_conn_id s + 1\<rparr>) else Inl Signed_Overflow)"

text \<open>A connection that is closed by its peer or fails: its buffer is released.\<close>

definition event_cb :: "server \<Rightarrow> nat \<Rightarrow> u16 \<Rightarrow> server" where
  "event_cb s bev events =
     (if events AND (BEV_EVENT_EOF OR BEV_EVENT_ERROR) \<noteq> 0 then s\<lparr>bevs := removeAll bev (bevs s)\<rparr> else s)"

definition server_send :: "server \<Rightarrow> int \<Rightarrow> bytes \<Rightarrow> nat \<Rightarrow> server res" where
  "server_send s conn_id data len =
     (case HASH_FIND c_id (connections s) conn_id of
        None \<Rightarrow> Inr s
      | Some c \<Rightarrow>
          if c_bev c \<in> set (bevs s) then Inr (s\<lparr>srv_sent := srv_sent s @ [(c_bev c, take len data)]\<rparr>)
          else Inl Use_After_Free)"

definition server_destroy :: "server \<Rightarrow> conn list" where
  "server_destroy s = foldl (HASH_DEL c_id) (connections s) (map c_id (connections s))"

inductive server_reach :: "server \<Rightarrow> bool" where
  reach_new: "server_reach (server_new address p)"
| reach_start: "server_reach s \<Longrightarrow> server_reach (server_start s)"
| reach_accept: "server_reach s \<Longrightarrow> bev \<notin> set (bevs s) \<Longrightarrow> accept_conn_cb s bev = Inr s' \<Longrightarrow> server_reach s'"
| reach_event: "server_reach s \<Longrightarrow> server_reach (event_cb s bev events)"
| reach_send: "server_reach s \<Longrightarrow> server_send s conn_id data len = Inr s' \<Longrightarrow> server_reach s'"

subsection \<open>Connections are numbered and never forgotten\<close>

lemma server_numbers:
  "server_reach s \<Longrightarrow> map c_id (connections s) = map int [0..<length (connections s)] \<and> next_conn_id s = int (length (connections s))"
proof (induction rule: server_reach.induct)
  case (reach_accept s bev s')
  then show ?case
    by (auto simp: accept_conn_cb_def Let_def HASH_ADD_def split: if_splits)
next
  case (reach_send s conn_id data len s')
  then show ?case
    by (auto simp: server_send_def split: option.splits if_splits)
qed (simp_all add: server_new_def server_start_def event_cb_def)

lemma server_find:
  assumes "server_reach s" "i < length (connections s)"
  shows "HASH_FIND c_id (connections s) (int i) = Some (connections s ! i)"
proof -
  have ids: "map c_id (connections s) = map int [0..<length (connections s)]"
    using server_numbers [OF assms(1)] by simp
  then have "c_id (connections s ! i) = int i"
    using assms(2) by (metis add_0 diff_zero length_map length_upt nth_map nth_upt)
  moreover have "distinct (map c_id (connections s))"
    unfolding ids by (simp add: distinct_map inj_on_def)
  ultimately show ?thesis
    using HASH_FIND_unique [of c_id "connections s" "int i" "connections s ! i"] assms(2) by simp
qed

text \<open>C38: The daemons' connections are numbered from zero in the order of their arrival, and a message for
  a number goes to the buffer of that connection.  A connection is never taken out of the table:
  once its peer has closed it, a message for its number is written through the released buffer.\<close>

theorem closed_connection_used:
  assumes "server_reach s" "i < length (connections s)"
  shows "HASH_FIND c_id (connections s) (int i) = Some (connections s ! i) \<and>
    (c_bev (connections s ! i) \<in> set (bevs s) \<longrightarrow>
       (\<exists>s'. server_send s (int i) data len = Inr s' \<and> srv_sent s' = srv_sent s @ [(c_bev (connections s ! i), take len data)])) \<and>
    server_send (event_cb s (c_bev (connections s ! i)) BEV_EVENT_EOF) (int i) data len = Inl Use_After_Free"
proof -
  let ?s = "event_cb s (c_bev (connections s ! i)) BEV_EVENT_EOF"
  have "connections ?s = connections s" "c_bev (connections s ! i) \<notin> set (bevs ?s)"
    by (simp_all add: event_cb_def BEV_EVENT_EOF_def BEV_EVENT_ERROR_def)
  then show ?thesis
    using server_find [OF assms] by (simp add: server_send_def)
qed

theorem closed_connection_used_witness:
  "\<exists>s. accept_conn_cb (server_new ''172.20.254.254'' 6000) 5 = Inr s \<and>
     server_send (event_cb s 5 BEV_EVENT_EOF) 0 [1] 1 = Inl Use_After_Free"
proof -
  obtain s where s: "accept_conn_cb (server_new ''172.20.254.254'' 6000) 5 = Inr s" "connections s = [\<lparr>c_id = 0, c_bev = 5\<rparr>]"
    by (simp add: accept_conn_cb_def server_new_def HASH_ADD_def)
  have "server_reach s"
    using reach_accept [OF reach_new _ s(1)] by (simp add: server_new_def)
  then show ?thesis
    using closed_connection_used [of s 0 "[1]" 1] s by auto
qed

end
