(* ===== verification/Actions.thy ===== *)
theory Actions
  imports Containers
begin

section \<open>Actions and instructions (lib/action, action\_list, action\_set, instruction, instruction\_set)\<close>

text \<open>
  OpenFlow actions and the instructions that carry them.  A \<open>struct action\<close> is a type and a
  union; the union is the member last written.  The value of a set-field action is the initialised
  prefix of its own union, as bytes in memory, so that reading a wider member than was written is
  visible.  An action list is a linked list; an action set is a hash table with the action's type
  as its key.
\<close>

subsection \<open>Actions\<close>

datatype action_set_order =
    ACT_METER
  | ACT_COPY_TTL_INWARDS
  | ACT_POP_VLAN
  | ACT_POP_MPLS
  | ACT_PUSH_MPLS
  | ACT_PUSH_VLAN
  | ACT_COPY_TTL_OUTWARDS
  | ACT_DECREMENT_TTL
  | ACT_SET_MPLS_TTL
  | ACT_DECREMENT_MPLS_TTL
  | ACT_SET_FIELD
  | ACT_QOS
  | ACT_GROUP
  | ACT_OUTPUT

text \<open>The enumerators from 0 to \<open>MAX_ACTION_SET - 1\<close>, the order in which a set is executed.\<close>

definition action_types :: "action_set_order list" where
  "action_types =
     [ACT_METER, ACT_COPY_TTL_INWARDS, ACT_POP_VLAN, ACT_POP_MPLS, ACT_PUSH_MPLS, ACT_PUSH_VLAN,
      ACT_COPY_TTL_OUTWARDS, ACT_DECREMENT_TTL, ACT_SET_MPLS_TTL, ACT_DECREMENT_MPLS_TTL,
      ACT_SET_FIELD, ACT_QOS, ACT_GROUP, ACT_OUTPUT]"

datatype set_field_type =
    SET_IN_PORT | SET_METADATA | SET_TUNNEL_ID | SET_ETH_TYPE | SET_ETH_DST | SET_ETH_SRC
  | SET_VLAN_ID | SET_VLAN_PCP | SET_MPLS_LABEL | SET_MPLS_TC | SET_MPLS_BOS | SET_IP_DSCP
  | SET_IP_ECN | SET_IP_PROTO | SET_IPV4_DST | SET_IPV4_SRC | SET_ICMPV4_TYPE | SET_ICMPV4_CODE
  | SET_TCP_DST | SET_TCP_SRC | SET_UDP_DST | SET_UDP_SRC | SET_SCTP_DST | SET_SCTP_SRC
  | SET_ARP_OP | SET_ARP_SPA | SET_ARP_TPA | SET_ARP_SHA | SET_ARP_THA | SET_IPV6_DST
  | SET_IPV6_SRC | SET_IPV6_FLABEL | SET_ICMPV6_TYPE | SET_ICMPV6_CODE | SET_IPV6_ND_TARGET
  | SET_IPV6_ND_SLL | SET_IPV6_ND_TLL

datatype action_arg =
    No_Arg
  | Meter u32
  | Output u32
  | Set_Mpls_Ttl u8
  | Group u32
  | Eth_Type u16
  | Set_Field set_field_type bytes

record action =
  act_type :: action_set_order
  act_arg :: action_arg

definition action_meter :: "u32 \<Rightarrow> action" where
  "action_meter meter_id = \<lparr>act_type = ACT_METER, act_arg = Meter meter_id\<rparr>"

text \<open>The constructors that write only the type leave the union as it was.\<close>

definition action_copy_ttl_in :: "action \<Rightarrow> action" where
  "action_copy_ttl_in a = a\<lparr>act_type := ACT_COPY_TTL_INWARDS\<rparr>"

definition action_pop_vlan :: "action \<Rightarrow> action" where
  "action_pop_vlan a = a\<lparr>act_type := ACT_POP_VLAN\<rparr>"

text \<open>\<open>struct push\<close> and \<open>struct pop_mpls\<close> both hold one Ethernet type at the start of the
  union.\<close>

definition action_pop_mpls :: "u16 \<Rightarrow> action" where
  "action_pop_mpls eth_type = \<lparr>act_type = ACT_POP_MPLS, act_arg = Eth_Type eth_type\<rparr>"

definition action_push_vlan :: "u16 \<Rightarrow> action" where
  "action_push_vlan eth_type = \<lparr>act_type = ACT_PUSH_VLAN, act_arg = Eth_Type eth_type\<rparr>"

definition action_push_mpls :: "u16 \<Rightarrow> action" where
  "action_push_mpls eth_type = \<lparr>act_type = ACT_POP_MPLS, act_arg = Eth_Type eth_type\<rparr>"

definition action_copy_ttl_out :: "action \<Rightarrow> action" where
  "action_copy_ttl_out a = a\<lparr>act_type := ACT_COPY_TTL_OUTWARDS\<rparr>"

definition action_dec_ttl :: "action \<Rightarrow> action" where
  "action_dec_ttl a = a\<lparr>act_type := ACT_DECREMENT_TTL\<rparr>"

definition action_dec_mpls_ttl :: "action \<Rightarrow> action" where
  "action_dec_mpls_ttl a = a\<lparr>act_type := ACT_DECREMENT_MPLS_TTL\<rparr>"

definition action_mpls_ttl :: "u8 \<Rightarrow> action" where
  "action_mpls_ttl new_ttl = \<lparr>act_type = ACT_SET_MPLS_TTL, act_arg = Set_Mpls_Ttl new_ttl\<rparr>"

definition action_set_field :: "set_field_type \<Rightarrow> bytes \<Rightarrow> action" where
  "action_set_field field value = \<lparr>act_type = ACT_SET_FIELD, act_arg = Set_Field field value\<rparr>"

definition action_set_field_u8 :: "set_field_type \<Rightarrow> u8 \<Rightarrow> action" where
  "action_set_field_u8 field value = action_set_field field [value]"

definition action_set_field_u16 :: "set_field_type \<Rightarrow> u16 \<Rightarrow> action" where
  "action_set_field_u16 field value = action_set_field field (mem16 value)"

definition action_set_field_u32 :: "set_field_type \<Rightarrow> u32 \<Rightarrow> action" where
  "action_set_field_u32 field value = action_set_field field (mem32 value)"

definition action_set_field_u64 :: "set_field_type \<Rightarrow> u64 \<Rightarrow> action" where
  "action_set_field_u64 field value = action_set_field field (mem64 value)"

definition action_set_field_eth_addr :: "set_field_type \<Rightarrow> bytes \<Rightarrow> action" where
  "action_set_field_eth_addr field eth_addr = action_set_field field (take 6 eth_addr)"

definition action_set_field_ipv6_addr :: "set_field_type \<Rightarrow> bytes \<Rightarrow> action" where
  "action_set_field_ipv6_addr field ipv6_addr = action_set_field field (take 16 ipv6_addr)"

definition action_output :: "u32 \<Rightarrow> action" where
  "action_output port = \<lparr>act_type = ACT_OUTPUT, act_arg = Output port\<rparr>"

definition action_group :: "u32 \<Rightarrow> action" where
  "action_group group_id = \<lparr>act_type = ACT_GROUP, act_arg = Group group_id\<rparr>"

text \<open>Reads of the union's members; a member wider than what was written is uninitialised.\<close>

definition u8_field :: "bytes \<Rightarrow> u8 res" where
  "u8_field b = (if 1 \<le> length b then Inr (b ! 0) else Inl Uninitialised)"

definition u16_field :: "bytes \<Rightarrow> u16 res" where
  "u16_field b = (if 2 \<le> length b then Inr (get16 (b ! 1) (b ! 0)) else Inl Uninitialised)"

definition u32_field :: "bytes \<Rightarrow> u32 res" where
  "u32_field b =
     (if 4 \<le> length b then Inr (get32 (b ! 3) (b ! 2) (b ! 1) (b ! 0)) else Inl Uninitialised)"

definition u64_field :: "bytes \<Rightarrow> u64 res" where
  "u64_field b =
     (if 8 \<le> length b
      then Inr (push_bit 32 (ucast (get32 (b ! 7) (b ! 6) (b ! 5) (b ! 4))) OR
                ucast (get32 (b ! 3) (b ! 2) (b ! 1) (b ! 0)))
      else Inl Uninitialised)"

definition addr_field :: "nat \<Rightarrow> bytes \<Rightarrow> bytes res" where
  "addr_field n b = (if n \<le> length b then Inr (take n b) else Inl Uninitialised)"

subsection \<open>Action lists\<close>

type_synonym action_list = "action list"

definition action_list_init :: action_list where
  "action_list_init = []"

text \<open>The loop deletes the head of the list until there is none.\<close>

fun action_list_clean :: "action_list \<Rightarrow> action_list" where
  "action_list_clean [] = []"
| "action_list_clean (_ # al) = action_list_clean al"

definition action_list_add :: "action_list \<Rightarrow> action \<Rightarrow> action_list" where
  "action_list_add al act = LL_APPEND al act"

subsection \<open>Action sets\<close>

type_synonym action_set = "action list"

definition action_set_init :: action_set where
  "action_set_init = []"

fun action_set_clean :: "action_set \<Rightarrow> action_set" where
  "action_set_clean [] = []"
| "action_set_clean (_ # as) = action_set_clean as"

definition action_set_add :: "action_set \<Rightarrow> action \<Rightarrow> action_set" where
  "action_set_add as act =
     (case HASH_FIND act_type as (act_type act) of
        Some orig_action \<Rightarrow> HASH_REPLACE act_type as act
      | None \<Rightarrow> HASH_ADD as act)"

definition action_set_merge :: "action_set \<Rightarrow> action_set \<Rightarrow> action_set" where
  "action_set_merge as_orig as_merge = fold (\<lambda>act as. action_set_add as act) as_merge as_orig"

definition action_set_action :: "action_set \<Rightarrow> action_set_order \<Rightarrow> action option" where
  "action_set_action as type = HASH_FIND act_type as type"

subsection \<open>Instructions\<close>

definition INSTRUCTION_APPLY_ACTIONS :: u8 where "INSTRUCTION_APPLY_ACTIONS = 1"
definition INSTRUCTION_CLEAR_ACTIONS :: u8 where "INSTRUCTION_CLEAR_ACTIONS = 2"
definition INSTRUCTION_WRITE_ACTIONS :: u8 where "INSTRUCTION_WRITE_ACTIONS = 4"
definition INSTRUCTION_WRITE_METADATA :: u8 where "INSTRUCTION_WRITE_METADATA = 8"
definition INSTRUCTION_GOTO_TABLE :: u8 where "INSTRUCTION_GOTO_TABLE = 16"

record apply_actions =
  aa_type :: u8
  aa_actions :: action_list

record clear_actions =
  ca_type :: u8

record write_actions =
  wa_type :: u8
  wa_actions :: action_set

record write_metadata =
  wm_type :: u8
  wm_metadata :: u64
  wm_metadata_mask :: u64

record goto_table =
  gt_type :: u8
  gt_table_id :: u8

record instruction_set =
  active :: u8
  apply_act :: apply_actions
  clear_act :: clear_actions
  write_act :: write_actions
  write_meta :: write_metadata
  gt_table :: goto_table

definition inst_apply_actions :: "action_list \<Rightarrow> apply_actions" where
  "inst_apply_actions al = \<lparr>aa_type = INSTRUCTION_APPLY_ACTIONS, aa_actions = al\<rparr>"

definition inst_clear_actions :: clear_actions where
  "inst_clear_actions = \<lparr>ca_type = INSTRUCTION_CLEAR_ACTIONS\<rparr>"

definition inst_write_actions :: "action_set \<Rightarrow> write_actions" where
  "inst_write_actions as = \<lparr>wa_type = INSTRUCTION_WRITE_ACTIONS, wa_actions = as\<rparr>"

definition inst_write_metadata :: "u64 \<Rightarrow> u64 \<Rightarrow> write_metadata" where
  "inst_write_metadata metadata metadata_mask =
     \<lparr>wm_type = INSTRUCTION_WRITE_METADATA, wm_metadata = metadata, wm_metadata_mask = metadata_mask\<rparr>"

definition inst_goto_table :: "u8 \<Rightarrow> goto_table" where
  "inst_goto_table table_id = \<lparr>gt_type = INSTRUCTION_GOTO_TABLE, gt_table_id = table_id\<rparr>"

definition apply_actions_clean :: "apply_actions \<Rightarrow> apply_actions" where
  "apply_actions_clean aa = aa\<lparr>aa_actions := action_list_clean (aa_actions aa)\<rparr>"

definition write_actions_clean :: "write_actions \<Rightarrow> write_actions" where
  "write_actions_clean wa = wa\<lparr>wa_actions := action_set_clean (wa_actions wa)\<rparr>"

subsection \<open>Instruction sets\<close>

definition instruction_set_init :: "instruction_set \<Rightarrow> instruction_set" where
  "instruction_set_init is =
     is\<lparr>active := 0,
        apply_act := (apply_act is)\<lparr>aa_actions := action_list_init\<rparr>,
        write_act := (write_act is)\<lparr>wa_actions := action_set_init\<rparr>\<rparr>"

definition add_apply_actions :: "instruction_set \<Rightarrow> apply_actions \<Rightarrow> instruction_set" where
  "add_apply_actions is act =
     is\<lparr>active := active is OR INSTRUCTION_APPLY_ACTIONS, apply_act := act\<rparr>"

definition add_clear_actions :: "instruction_set \<Rightarrow> clear_actions \<Rightarrow> instruction_set" where
  "add_clear_actions is act =
     is\<lparr>active := active is OR INSTRUCTION_CLEAR_ACTIONS, clear_act := act\<rparr>"

definition add_write_actions :: "instruction_set \<Rightarrow> write_actions \<Rightarrow> instruction_set" where
  "add_write_actions is act =
     is\<lparr>active := active is OR INSTRUCTION_WRITE_ACTIONS, write_act := act\<rparr>"

definition add_write_metadata :: "instruction_set \<Rightarrow> write_metadata \<Rightarrow> instruction_set" where
  "add_write_metadata is act =
     is\<lparr>active := active is OR INSTRUCTION_WRITE_METADATA, write_meta := act\<rparr>"

definition add_goto_table :: "instruction_set \<Rightarrow> goto_table \<Rightarrow> instruction_set" where
  "add_goto_table is act =
     is\<lparr>active := active is OR INSTRUCTION_GOTO_TABLE, gt_table := act\<rparr>"

definition instruction_set_clean :: "instruction_set \<Rightarrow> instruction_set" where
  "instruction_set_clean is =
     is\<lparr>apply_act := apply_actions_clean (apply_act is),
        write_act := write_actions_clean (write_act is)\<rparr>"

definition instruction_is_active :: "instruction_set \<Rightarrow> u8 \<Rightarrow> bool" where
  "instruction_is_active is type = (active is AND type \<noteq> 0)"

text \<open>The set left by \<open>memset\<close> with zero.\<close>

definition instruction_set_zero :: instruction_set where
  "instruction_set_zero =
     \<lparr>active = 0, apply_act = \<lparr>aa_type = 0, aa_actions = []\<rparr>, clear_act = \<lparr>ca_type = 0\<rparr>,
      write_act = \<lparr>wa_type = 0, wa_actions = []\<rparr>,
      write_meta = \<lparr>wm_type = 0, wm_metadata = 0, wm_metadata_mask = 0\<rparr>,
      gt_table = \<lparr>gt_type = 0, gt_table_id = 0\<rparr>\<rparr>"

lemmas instruction_types =
  INSTRUCTION_APPLY_ACTIONS_def INSTRUCTION_CLEAR_ACTIONS_def INSTRUCTION_WRITE_ACTIONS_def
  INSTRUCTION_WRITE_METADATA_def INSTRUCTION_GOTO_TABLE_def

subsection \<open>Reading back what was written\<close>

lemma u8_field_written [simp]: "u8_field [v] = Inr v"
  by (simp add: u8_field_def)

lemma u16_field_written [simp]: "u16_field (mem16 v) = Inr v"
  by (simp add: u16_field_def mem16_def put16_def)

lemma u32_field_written [simp]: "u32_field (mem32 v) = Inr v"
  by (simp add: u32_field_def mem32_def put32_def)

lemma get32_halves:
  "get32 (ucast (drop_bit 24 x)) (ucast (drop_bit 16 x)) (ucast (drop_bit 8 x)) (ucast x) =
     (ucast x :: u32)" for x :: u64
proof -
  have "ucast (drop_bit k x) = (ucast (drop_bit k (ucast x :: u32)) :: u8)" if "k \<le> 24" for k
    using that by (intro bit_word_eqI) (auto simp: bit_simps)
  moreover have "(ucast x :: u8) = ucast (ucast x :: u32)"
    by (intro bit_word_eqI) (auto simp: bit_simps)
  ultimately show ?thesis
    by simp
qed

lemma u64_field_written [simp]: "u64_field (mem64 v) = Inr v"
proof -
  have hi: "get32 (ucast (drop_bit 56 v)) (ucast (drop_bit 48 v)) (ucast (drop_bit 40 v))
      (ucast (drop_bit 32 v)) = ucast (drop_bit 32 v)"
    using get32_halves [of "drop_bit 32 v"] by simp
  have "push_bit 32 (ucast (ucast (drop_bit 32 v) :: u32)) OR ucast (ucast v :: u32) = v"
    by (rule bit_word_eqI) (auto simp: bit_simps dest: bit_imp_le_length)
  then show ?thesis
    by (simp add: u64_field_def mem64_def hi get32_halves upt_rec)
qed

lemma addr_field_written [simp]: "length a = n \<Longrightarrow> addr_field n a = Inr a"
  by (simp add: addr_field_def)

subsection \<open>Action sets are finite maps\<close>

text \<open>At most one action of each type.\<close>

definition action_set_inv :: "action_set \<Rightarrow> bool" where
  "action_set_inv as \<longleftrightarrow> distinct (map act_type as)"

lemma action_set_add_eq: "action_set_inv as \<Longrightarrow> action_set_add as act = HASH_REPLACE act_type as act"
  by (auto simp: action_set_add_def HASH_REPLACE_def HASH_FIND_None HASH_DEL_absent
      split: option.splits)

interpretation action_sets: keyed_table action_set_init action_set_action action_set_add act_type
  action_set_inv
proof
  fix as act
  assume "action_set_inv as"
  then show "action_set_inv (action_set_add as act)"
      "action_set_action (action_set_add as act) = (action_set_action as)(act_type act \<mapsto> act)"
    by (auto simp: action_set_add_eq, auto simp: action_set_inv_def action_set_action_def
        hash_table.lookup_put hash_table.invar_put)
qed (auto simp: action_set_action_def action_set_init_def action_set_inv_def)

lemma action_set_inv_merge [horse_inv]: "action_set_inv a \<Longrightarrow> action_set_inv (action_set_merge a b)"
  by (simp add: action_set_merge_def action_sets.invar_fold)

lemma map_of_rev_action_set:
  "action_set_inv b \<Longrightarrow> map_of (rev (map (\<lambda>e. (act_type e, e)) b)) = action_set_action b"
proof (rule ext)
  fix t assume b: "action_set_inv b"
  then have "distinct (map fst (rev (map (\<lambda>e. (act_type e, e)) b)))"
    by (simp add: action_set_inv_def comp_def flip: rev_map)
  then show "map_of (rev (map (\<lambda>e. (act_type e, e)) b)) t = action_set_action b t"
  proof (cases "action_set_action b t")
    case None
    then have "t \<notin> act_type ` set b"
      by (simp add: action_set_action_def HASH_FIND_None)
    then have "map_of (rev (map (\<lambda>e. (act_type e, e)) b)) t = None"
      by (auto simp: map_of_eq_None_iff)
    then show ?thesis
      using None by simp
  next
    case (Some e)
    then have "e \<in> set b \<and> act_type e = t"
      unfolding action_set_action_def by (rule HASH_FIND_SomeD)
    then show ?thesis
      using Some \<open>distinct _\<close> by (auto intro!: map_of_is_SomeI)
  qed
qed

lemma length_action_types [simp]: "length action_types = 14"
  by (simp add: action_types_def)

lemma set_action_types: "set action_types = UNIV"
proof -
  have "t \<in> set action_types" for t
    by (cases t) (simp_all add: action_types_def)
  then show ?thesis
    by blast
qed

lemma distinct_action_types: "distinct action_types"
  by (simp add: action_types_def)

subsection \<open>Properties\<close>

text \<open>C32: an action set holds at most one action of each type, and refines a finite map from
  types to actions: adding is map update (the later action of a type replaces the earlier),
  merging is map override in favour of the merged set, and both keep the set well-formed.\<close>

theorem action_set_refines_map:
  assumes "action_set_inv a" "action_set_inv b"
  shows "action_set_inv (action_set_add a act) \<and> action_set_inv (action_set_merge a b) \<and>
    action_set_action (action_set_add a act) = (action_set_action a)(act_type act \<mapsto> act) \<and>
    action_set_action (action_set_merge a b) = action_set_action a ++ action_set_action b"
  using assms action_sets.lookup_fold [of a b] map_of_rev_action_set [of b]
  by (simp add: action_sets.invar_put action_sets.lookup_put action_set_inv_merge)
    (simp add: action_set_merge_def)

theorem action_set_refines_map_witness:
  "action_set_action (action_set_merge [action_output 1, action_group 2] [action_output 3])
     ACT_OUTPUT = Some (action_output 3)"
  using action_set_refines_map [of "[action_output 1, action_group 2]" "[action_output 3]"]
  by (simp add: action_set_inv_def action_output_def action_group_def action_set_action_def
      HASH_FIND_def)

text \<open>Adding an instruction to a set makes exactly that instruction active, keeps every
  other one as active as it was, and cleaning a set leaves no action in it.\<close>

theorem instruction_set_active:
  "instruction_is_active (add_goto_table is gt) ty =
     (instruction_is_active is ty \<or> INSTRUCTION_GOTO_TABLE AND ty \<noteq> 0) \<and>
   instruction_is_active (add_apply_actions is aa) ty =
     (instruction_is_active is ty \<or> INSTRUCTION_APPLY_ACTIONS AND ty \<noteq> 0) \<and>
   instruction_is_active (add_clear_actions is ca) ty =
     (instruction_is_active is ty \<or> INSTRUCTION_CLEAR_ACTIONS AND ty \<noteq> 0) \<and>
   instruction_is_active (add_write_actions is wa) ty =
     (instruction_is_active is ty \<or> INSTRUCTION_WRITE_ACTIONS AND ty \<noteq> 0) \<and>
   instruction_is_active (add_write_metadata is wm) ty =
     (instruction_is_active is ty \<or> INSTRUCTION_WRITE_METADATA AND ty \<noteq> 0) \<and>
   \<not> instruction_is_active (instruction_set_init is) ty \<and>
   aa_actions (apply_act (instruction_set_clean is)) = [] \<and>
   wa_actions (write_act (instruction_set_clean is)) = []"
proof -
  have or_and: "(a OR b) AND ty = 0 \<longleftrightarrow> a AND ty = 0 \<and> b AND ty = 0" for a b :: u8
    by (simp only: bit.conj_disj_distrib2 or_eq_0_iff)
  have "action_list_clean al = []" for al
    by (induction al) simp_all
  moreover have "action_set_clean as = []" for as
    by (induction as) simp_all
  ultimately show ?thesis
    by (simp add: instruction_is_active_def add_goto_table_def add_apply_actions_def
        add_clear_actions_def add_write_actions_def add_write_metadata_def instruction_set_init_def
        instruction_set_clean_def apply_actions_clean_def write_actions_clean_def or_and)
qed

theorem instruction_set_active_witness:
  "instruction_is_active (add_goto_table instruction_set_zero (inst_goto_table 3))
     INSTRUCTION_GOTO_TABLE"
  using instruction_set_active [of instruction_set_zero "inst_goto_table 3" INSTRUCTION_GOTO_TABLE]
  by (simp add: instruction_types)

end
