(* ===== verification/Flow.thy ===== *)
theory Flow
  imports Actions
begin

section \<open>Flow keys, masks and flows (lib/ofl.h, lib/packets.h, lib/flow)\<close>

text \<open>
  The match key of a flow with its 38 header fields, the mask of the fields that matter, and the
  flow entry of \<open>lib/flow.c\<close>.  Addresses are byte lists of length \<open>ETH_LEN\<close> or
  \<open>IPV6_LEN\<close>; \<open>wf_key\<close> states the lengths.  Keys are compared and hashed as whole structs in
  the code; every key starts from a zeroed struct and is copied whole, so its padding is zero and
  equality of the structs is equality of the fields.
\<close>

subsection \<open>Keys\<close>

definition ETH_LEN :: nat where "ETH_LEN = 6"
definition IPV6_LEN :: nat where "IPV6_LEN = 16"

record ofl_flow_key =
  in_port :: u32
  in_phy_port :: u32
  metadata :: u64
  tunnel_id :: u64
  eth_dst :: bytes
  eth_src :: bytes
  eth_type :: u16
  vlan_id :: u16
  vlan_pcp :: u8
  ip_dscp :: u8
  ip_ecn :: u8
  ip_proto :: u8
  ipv4_src :: u32
  ipv4_dst :: u32
  tcp_src :: u16
  tcp_dst :: u16
  udp_src :: u16
  udp_dst :: u16
  sctp_src :: u16
  sctp_dst :: u16
  icmpv4_type :: u8
  icmpv4_code :: u8
  arp_op :: u16
  arp_spa :: u32
  arp_tpa :: u32
  arp_sha :: bytes
  arp_tha :: bytes
  ipv6_src :: bytes
  ipv6_dst :: bytes
  ipv6_flabel :: u32
  icmpv6_type :: u8
  icmpv6_code :: u8
  ipv6_nd_target :: bytes
  ipv6_nd_sll :: bytes
  ipv6_nd_tll :: bytes
  mpls_label :: u32
  mpls_tc :: u8
  mpls_bos :: u8

text \<open>A key after \<open>memset\<close> with zero.\<close>

definition zero_key :: ofl_flow_key where
  "zero_key = \<lparr>in_port = 0,
    in_phy_port = 0,
    metadata = 0,
    tunnel_id = 0,
    eth_dst = replicate ETH_LEN 0,
    eth_src = replicate ETH_LEN 0,
    eth_type = 0,
    vlan_id = 0,
    vlan_pcp = 0,
    ip_dscp = 0,
    ip_ecn = 0,
    ip_proto = 0,
    ipv4_src = 0,
    ipv4_dst = 0,
    tcp_src = 0,
    tcp_dst = 0,
    udp_src = 0,
    udp_dst = 0,
    sctp_src = 0,
    sctp_dst = 0,
    icmpv4_type = 0,
    icmpv4_code = 0,
    arp_op = 0,
    arp_spa = 0,
    arp_tpa = 0,
    arp_sha = replicate ETH_LEN 0,
    arp_tha = replicate ETH_LEN 0,
    ipv6_src = replicate IPV6_LEN 0,
    ipv6_dst = replicate IPV6_LEN 0,
    ipv6_flabel = 0,
    icmpv6_type = 0,
    icmpv6_code = 0,
    ipv6_nd_target = replicate IPV6_LEN 0,
    ipv6_nd_sll = replicate ETH_LEN 0,
    ipv6_nd_tll = replicate ETH_LEN 0,
    mpls_label = 0,
    mpls_tc = 0,
    mpls_bos = 0\<rparr>"

definition wf_key :: "ofl_flow_key \<Rightarrow> bool" where
  "wf_key k \<longleftrightarrow>
     length (eth_dst k) = ETH_LEN \<and>
     length (eth_src k) = ETH_LEN \<and>
     length (arp_sha k) = ETH_LEN \<and>
     length (arp_tha k) = ETH_LEN \<and>
     length (ipv6_src k) = IPV6_LEN \<and>
     length (ipv6_dst k) = IPV6_LEN \<and>
     length (ipv6_nd_target k) = IPV6_LEN \<and>
     length (ipv6_nd_sll k) = ETH_LEN \<and>
     length (ipv6_nd_tll k) = ETH_LEN"

definition apply_mask_eth_addr :: "bytes \<Rightarrow> bytes \<Rightarrow> bytes" where
  "apply_mask_eth_addr addr msk = map2 (AND) addr msk"

definition apply_mask_ipv6 :: "bytes \<Rightarrow> bytes \<Rightarrow> bytes" where
  "apply_mask_ipv6 addr msk = map2 (AND) addr msk"

definition apply_all_mask :: "ofl_flow_key \<Rightarrow> ofl_flow_key \<Rightarrow> ofl_flow_key" where
  "apply_all_mask key msk = key\<lparr>
    in_port := in_port key AND in_port msk,
    in_phy_port := in_phy_port key AND in_phy_port msk,
    metadata := metadata key AND metadata msk,
    tunnel_id := tunnel_id key AND tunnel_id msk,
    eth_type := eth_type key AND eth_type msk,
    eth_dst := apply_mask_eth_addr (eth_dst key) (eth_dst msk),
    eth_src := apply_mask_eth_addr (eth_src key) (eth_src msk),
    vlan_id := vlan_id key AND vlan_id msk,
    vlan_pcp := vlan_pcp key AND vlan_pcp msk,
    mpls_label := mpls_label key AND mpls_label msk,
    mpls_tc := mpls_tc key AND mpls_tc msk,
    mpls_bos := mpls_bos key AND mpls_bos msk,
    ip_dscp := ip_dscp key AND ip_dscp msk,
    ip_ecn := ip_ecn key AND ip_ecn msk,
    ip_proto := ip_proto key AND ip_proto msk,
    ipv4_dst := ipv4_dst key AND ipv4_dst msk,
    ipv4_src := ipv4_src key AND ipv4_src msk,
    tcp_dst := tcp_dst key AND tcp_dst msk,
    tcp_src := tcp_src key AND tcp_src msk,
    sctp_dst := sctp_dst key AND sctp_dst msk,
    sctp_src := sctp_src key AND sctp_src msk,
    udp_dst := udp_dst key AND udp_dst msk,
    udp_src := udp_src key AND udp_src msk,
    arp_op := arp_op key AND arp_op msk,
    icmpv4_type := icmpv4_type key AND icmpv4_type msk,
    icmpv4_code := icmpv4_code key AND icmpv4_code msk,
    arp_spa := arp_spa key AND arp_spa msk,
    arp_tpa := arp_tpa key AND arp_tpa msk,
    arp_sha := apply_mask_eth_addr (arp_sha key) (arp_sha msk),
    arp_tha := apply_mask_eth_addr (arp_tha key) (arp_tha msk),
    ipv6_dst := apply_mask_ipv6 (ipv6_dst key) (ipv6_dst msk),
    ipv6_src := apply_mask_ipv6 (ipv6_src key) (ipv6_src msk),
    ipv6_flabel := ipv6_flabel key AND ipv6_flabel msk,
    icmpv6_type := icmpv6_type key AND icmpv6_type msk,
    icmpv6_code := icmpv6_code key AND icmpv6_code msk,
    ipv6_nd_target := apply_mask_ipv6 (ipv6_nd_target key) (ipv6_nd_target msk),
    ipv6_nd_sll := apply_mask_eth_addr (ipv6_nd_sll key) (ipv6_nd_sll msk),
    ipv6_nd_tll := apply_mask_eth_addr (ipv6_nd_tll key) (ipv6_nd_tll msk)\<rparr>"

definition flow_key_cmp :: "ofl_flow_key \<Rightarrow> ofl_flow_key \<Rightarrow> bool" where
  "flow_key_cmp a b \<longleftrightarrow>
     in_port a = in_port b \<and>
     in_phy_port a = in_phy_port b \<and>
     metadata a = metadata b \<and>
     tunnel_id a = tunnel_id b \<and>
     eth_dst a = eth_dst b \<and>
     eth_src a = eth_src b \<and>
     eth_type a = eth_type b \<and>
     vlan_id a = vlan_id b \<and>
     vlan_pcp a = vlan_pcp b \<and>
     ip_dscp a = ip_dscp b \<and>
     ip_ecn a = ip_ecn b \<and>
     ip_proto a = ip_proto b \<and>
     ipv4_src a = ipv4_src b \<and>
     ipv4_dst a = ipv4_dst b \<and>
     tcp_src a = tcp_src b \<and>
     tcp_dst a = tcp_dst b \<and>
     udp_src a = udp_src b \<and>
     udp_dst a = udp_dst b \<and>
     sctp_src a = sctp_src b \<and>
     sctp_dst a = sctp_dst b \<and>
     icmpv4_type a = icmpv4_type b \<and>
     icmpv4_code a = icmpv4_code b \<and>
     arp_op a = arp_op b \<and>
     arp_spa a = arp_spa b \<and>
     arp_tpa a = arp_tpa b \<and>
     arp_sha a = arp_sha b \<and>
     arp_tha a = arp_tha b \<and>
     ipv6_src a = ipv6_src b \<and>
     ipv6_dst a = ipv6_dst b \<and>
     ipv6_flabel a = ipv6_flabel b \<and>
     icmpv6_type a = icmpv6_type b \<and>
     icmpv6_code a = icmpv6_code b \<and>
     ipv6_nd_target a = ipv6_nd_target b \<and>
     ipv6_nd_sll a = ipv6_nd_sll b \<and>
     ipv6_nd_tll a = ipv6_nd_tll b \<and>
     mpls_label a = mpls_label b \<and>
     mpls_tc a = mpls_tc b \<and>
     mpls_bos a = mpls_bos b"

subsection \<open>Flows\<close>

record flow =
  f_key :: ofl_flow_key
  f_mask :: ofl_flow_key
  f_table_id :: u8
  f_flags :: u16
  f_priority :: u16
  f_cookie :: u64
  f_pkt_cnt :: u64
  f_byte_cnt :: u64
  f_created :: u64
  f_hard_timeout :: u64
  f_idle_timeout :: u64
  f_remove_at :: u64
  f_last_used :: u64
  f_insts :: instruction_set

definition init_instruction_set :: "flow \<Rightarrow> flow" where
  "init_instruction_set f = f\<lparr>f_insts := instruction_set_zero\<rparr>"

text \<open>\<open>flow_new\<close> sets every member but the flags; the argument is the content of the
  allocated memory.\<close>

definition flow_new :: "flow \<Rightarrow> flow" where
  "flow_new mem = init_instruction_set (mem\<lparr>
     f_table_id := 0, f_priority := 0, f_cookie := 0, f_pkt_cnt := 0, f_byte_cnt := 0,
     f_hard_timeout := 0, f_idle_timeout := 0, f_created := 0, f_remove_at := 0,
     f_last_used := 0, f_key := zero_key, f_mask := zero_key\<rparr>)"

definition flow_add_instructions :: "flow \<Rightarrow> instruction_set \<Rightarrow> flow" where
  "flow_add_instructions f insts = f\<lparr>f_insts := insts\<rparr>"

definition ALL_UINT8_MASK :: u8 where "ALL_UINT8_MASK = 0xff"
definition ALL_UINT16_MASK :: u16 where "ALL_UINT16_MASK = 0xffff"
definition ALL_UINT32_MASK :: u32 where "ALL_UINT32_MASK = 0xffffffff"
definition ALL_UINT64_MASK :: u64 where "ALL_UINT64_MASK = 0xffffffffffffffff"

subsubsection \<open>Exact fields\<close>

definition set_in_port :: "flow \<Rightarrow> u32 \<Rightarrow> flow" where
  "set_in_port f v =
     f\<lparr>f_key := (f_key f)\<lparr>in_port := v\<rparr>, f_mask := (f_mask f)\<lparr>in_port := ALL_UINT32_MASK\<rparr>\<rparr>"

definition set_metadata :: "flow \<Rightarrow> u64 \<Rightarrow> flow" where
  "set_metadata f v =
     f\<lparr>f_key := (f_key f)\<lparr>metadata := v\<rparr>, f_mask := (f_mask f)\<lparr>metadata := ALL_UINT64_MASK\<rparr>\<rparr>"

definition set_tunnel_id :: "flow \<Rightarrow> u64 \<Rightarrow> flow" where
  "set_tunnel_id f v =
     f\<lparr>f_key := (f_key f)\<lparr>tunnel_id := v\<rparr>, f_mask := (f_mask f)\<lparr>tunnel_id := ALL_UINT64_MASK\<rparr>\<rparr>"

definition set_eth_type :: "flow \<Rightarrow> u16 \<Rightarrow> flow" where
  "set_eth_type f v =
     f\<lparr>f_key := (f_key f)\<lparr>eth_type := v\<rparr>, f_mask := (f_mask f)\<lparr>eth_type := ALL_UINT16_MASK\<rparr>\<rparr>"

definition set_eth_dst :: "flow \<Rightarrow> bytes \<Rightarrow> flow" where
  "set_eth_dst f v =
     f\<lparr>f_key := (f_key f)\<lparr>eth_dst := take 6 v\<rparr>, f_mask := (f_mask f)\<lparr>eth_dst := replicate 6 0xff\<rparr>\<rparr>"

definition set_eth_src :: "flow \<Rightarrow> bytes \<Rightarrow> flow" where
  "set_eth_src f v =
     f\<lparr>f_key := (f_key f)\<lparr>eth_src := take 6 v\<rparr>, f_mask := (f_mask f)\<lparr>eth_src := replicate 6 0xff\<rparr>\<rparr>"

definition set_vlan_id :: "flow \<Rightarrow> u16 \<Rightarrow> flow" where
  "set_vlan_id f v =
     f\<lparr>f_key := (f_key f)\<lparr>vlan_id := v\<rparr>, f_mask := (f_mask f)\<lparr>vlan_id := ALL_UINT16_MASK\<rparr>\<rparr>"

definition set_vlan_pcp :: "flow \<Rightarrow> u8 \<Rightarrow> flow" where
  "set_vlan_pcp f v =
     f\<lparr>f_key := (f_key f)\<lparr>vlan_pcp := v\<rparr>, f_mask := (f_mask f)\<lparr>vlan_pcp := ALL_UINT8_MASK\<rparr>\<rparr>"

definition set_mpls_label :: "flow \<Rightarrow> u32 \<Rightarrow> flow" where
  "set_mpls_label f v =
     f\<lparr>f_key := (f_key f)\<lparr>mpls_label := v\<rparr>, f_mask := (f_mask f)\<lparr>mpls_label := ALL_UINT32_MASK\<rparr>\<rparr>"

definition set_mpls_tc :: "flow \<Rightarrow> u8 \<Rightarrow> flow" where
  "set_mpls_tc f v =
     f\<lparr>f_key := (f_key f)\<lparr>mpls_tc := v\<rparr>, f_mask := (f_mask f)\<lparr>mpls_tc := ALL_UINT8_MASK\<rparr>\<rparr>"

definition set_mpls_bos :: "flow \<Rightarrow> u8 \<Rightarrow> flow" where
  "set_mpls_bos f v =
     f\<lparr>f_key := (f_key f)\<lparr>mpls_bos := v\<rparr>, f_mask := (f_mask f)\<lparr>mpls_bos := ALL_UINT8_MASK\<rparr>\<rparr>"

definition set_ip_dscp :: "flow \<Rightarrow> u8 \<Rightarrow> flow" where
  "set_ip_dscp f v =
     f\<lparr>f_key := (f_key f)\<lparr>ip_dscp := v\<rparr>, f_mask := (f_mask f)\<lparr>ip_dscp := ALL_UINT8_MASK\<rparr>\<rparr>"

definition set_ip_ecn :: "flow \<Rightarrow> u8 \<Rightarrow> flow" where
  "set_ip_ecn f v =
     f\<lparr>f_key := (f_key f)\<lparr>ip_ecn := v\<rparr>, f_mask := (f_mask f)\<lparr>ip_ecn := ALL_UINT8_MASK\<rparr>\<rparr>"

definition set_ip_proto :: "flow \<Rightarrow> u8 \<Rightarrow> flow" where
  "set_ip_proto f v =
     f\<lparr>f_key := (f_key f)\<lparr>ip_proto := v\<rparr>, f_mask := (f_mask f)\<lparr>ip_proto := ALL_UINT8_MASK\<rparr>\<rparr>"

definition set_ipv4_dst :: "flow \<Rightarrow> u32 \<Rightarrow> flow" where
  "set_ipv4_dst f v =
     f\<lparr>f_key := (f_key f)\<lparr>ipv4_dst := v\<rparr>, f_mask := (f_mask f)\<lparr>ipv4_dst := ALL_UINT32_MASK\<rparr>\<rparr>"

definition set_ipv4_src :: "flow \<Rightarrow> u32 \<Rightarrow> flow" where
  "set_ipv4_src f v =
     f\<lparr>f_key := (f_key f)\<lparr>ipv4_src := v\<rparr>, f_mask := (f_mask f)\<lparr>ipv4_src := ALL_UINT32_MASK\<rparr>\<rparr>"

definition set_tcp_dst :: "flow \<Rightarrow> u16 \<Rightarrow> flow" where
  "set_tcp_dst f v =
     f\<lparr>f_key := (f_key f)\<lparr>tcp_dst := v\<rparr>, f_mask := (f_mask f)\<lparr>tcp_dst := ALL_UINT16_MASK\<rparr>\<rparr>"

definition set_tcp_src :: "flow \<Rightarrow> u16 \<Rightarrow> flow" where
  "set_tcp_src f v =
     f\<lparr>f_key := (f_key f)\<lparr>tcp_src := v\<rparr>, f_mask := (f_mask f)\<lparr>tcp_src := ALL_UINT16_MASK\<rparr>\<rparr>"

definition set_sctp_dst :: "flow \<Rightarrow> u16 \<Rightarrow> flow" where
  "set_sctp_dst f v =
     f\<lparr>f_key := (f_key f)\<lparr>sctp_dst := v\<rparr>, f_mask := (f_mask f)\<lparr>sctp_dst := ALL_UINT16_MASK\<rparr>\<rparr>"

definition set_sctp_src :: "flow \<Rightarrow> u16 \<Rightarrow> flow" where
  "set_sctp_src f v =
     f\<lparr>f_key := (f_key f)\<lparr>sctp_src := v\<rparr>, f_mask := (f_mask f)\<lparr>sctp_src := ALL_UINT16_MASK\<rparr>\<rparr>"

definition set_udp_dst :: "flow \<Rightarrow> u16 \<Rightarrow> flow" where
  "set_udp_dst f v =
     f\<lparr>f_key := (f_key f)\<lparr>udp_dst := v\<rparr>, f_mask := (f_mask f)\<lparr>udp_dst := ALL_UINT16_MASK\<rparr>\<rparr>"

definition set_udp_src :: "flow \<Rightarrow> u16 \<Rightarrow> flow" where
  "set_udp_src f v =
     f\<lparr>f_key := (f_key f)\<lparr>udp_src := v\<rparr>, f_mask := (f_mask f)\<lparr>udp_src := ALL_UINT16_MASK\<rparr>\<rparr>"

definition set_icmpv4_type :: "flow \<Rightarrow> u8 \<Rightarrow> flow" where
  "set_icmpv4_type f v =
     f\<lparr>f_key := (f_key f)\<lparr>icmpv4_type := v\<rparr>, f_mask := (f_mask f)\<lparr>icmpv4_type := ALL_UINT8_MASK\<rparr>\<rparr>"

definition set_icmpv4_code :: "flow \<Rightarrow> u8 \<Rightarrow> flow" where
  "set_icmpv4_code f v =
     f\<lparr>f_key := (f_key f)\<lparr>icmpv4_code := v\<rparr>, f_mask := (f_mask f)\<lparr>icmpv4_code := ALL_UINT8_MASK\<rparr>\<rparr>"

definition set_arp_op :: "flow \<Rightarrow> u16 \<Rightarrow> flow" where
  "set_arp_op f v =
     f\<lparr>f_key := (f_key f)\<lparr>arp_op := v\<rparr>, f_mask := (f_mask f)\<lparr>arp_op := ALL_UINT16_MASK\<rparr>\<rparr>"

definition set_arp_spa :: "flow \<Rightarrow> u32 \<Rightarrow> flow" where
  "set_arp_spa f v =
     f\<lparr>f_key := (f_key f)\<lparr>arp_spa := v\<rparr>, f_mask := (f_mask f)\<lparr>arp_spa := ALL_UINT32_MASK\<rparr>\<rparr>"

definition set_arp_tpa :: "flow \<Rightarrow> u32 \<Rightarrow> flow" where
  "set_arp_tpa f v =
     f\<lparr>f_key := (f_key f)\<lparr>arp_tpa := v\<rparr>, f_mask := (f_mask f)\<lparr>arp_tpa := ALL_UINT32_MASK\<rparr>\<rparr>"

definition set_arp_sha :: "flow \<Rightarrow> bytes \<Rightarrow> flow" where
  "set_arp_sha f v =
     f\<lparr>f_key := (f_key f)\<lparr>arp_sha := take 6 v\<rparr>, f_mask := (f_mask f)\<lparr>arp_sha := replicate 6 0xff\<rparr>\<rparr>"

definition set_arp_tha :: "flow \<Rightarrow> bytes \<Rightarrow> flow" where
  "set_arp_tha f v =
     f\<lparr>f_key := (f_key f)\<lparr>arp_tha := take 6 v\<rparr>, f_mask := (f_mask f)\<lparr>arp_tha := replicate 6 0xff\<rparr>\<rparr>"

definition set_ipv6_dst :: "flow \<Rightarrow> bytes \<Rightarrow> flow" where
  "set_ipv6_dst f v =
     f\<lparr>f_key := (f_key f)\<lparr>ipv6_dst := take 16 v\<rparr>, f_mask := (f_mask f)\<lparr>ipv6_dst := replicate 16 0xff\<rparr>\<rparr>"

definition set_ipv6_src :: "flow \<Rightarrow> bytes \<Rightarrow> flow" where
  "set_ipv6_src f v =
     f\<lparr>f_key := (f_key f)\<lparr>ipv6_src := take 16 v\<rparr>, f_mask := (f_mask f)\<lparr>ipv6_src := replicate 16 0xff\<rparr>\<rparr>"

definition set_ipv6_flabel :: "flow \<Rightarrow> u32 \<Rightarrow> flow" where
  "set_ipv6_flabel f v =
     f\<lparr>f_key := (f_key f)\<lparr>ipv6_flabel := v\<rparr>, f_mask := (f_mask f)\<lparr>ipv6_flabel := ALL_UINT32_MASK\<rparr>\<rparr>"

definition set_icmpv6_type :: "flow \<Rightarrow> u8 \<Rightarrow> flow" where
  "set_icmpv6_type f v =
     f\<lparr>f_key := (f_key f)\<lparr>icmpv6_type := v\<rparr>, f_mask := (f_mask f)\<lparr>icmpv6_type := ALL_UINT8_MASK\<rparr>\<rparr>"

definition set_icmpv6_code :: "flow \<Rightarrow> u8 \<Rightarrow> flow" where
  "set_icmpv6_code f v =
     f\<lparr>f_key := (f_key f)\<lparr>icmpv6_code := v\<rparr>, f_mask := (f_mask f)\<lparr>icmpv6_code := ALL_UINT8_MASK\<rparr>\<rparr>"

definition set_ipv6_nd_target :: "flow \<Rightarrow> bytes \<Rightarrow> flow" where
  "set_ipv6_nd_target f v =
     f\<lparr>f_key := (f_key f)\<lparr>ipv6_nd_target := take 16 v\<rparr>, f_mask := (f_mask f)\<lparr>ipv6_nd_target := replicate 16 0xff\<rparr>\<rparr>"

definition set_ipv6_nd_sll :: "flow \<Rightarrow> bytes \<Rightarrow> flow" where
  "set_ipv6_nd_sll f v =
     f\<lparr>f_key := (f_key f)\<lparr>ipv6_nd_sll := take 6 v\<rparr>, f_mask := (f_mask f)\<lparr>ipv6_nd_sll := replicate 6 0xff\<rparr>\<rparr>"

definition set_ipv6_nd_tll :: "flow \<Rightarrow> bytes \<Rightarrow> flow" where
  "set_ipv6_nd_tll f v =
     f\<lparr>f_key := (f_key f)\<lparr>ipv6_nd_tll := take 6 v\<rparr>, f_mask := (f_mask f)\<lparr>ipv6_nd_tll := replicate 6 0xff\<rparr>\<rparr>"

subsubsection \<open>Masked fields\<close>

text \<open>The mask of the metadata is stored, truncated, as the mask of the input port.\<close>

definition flow_set_masked_metadata :: "flow \<Rightarrow> u64 \<Rightarrow> u64 \<Rightarrow> flow" where
  "flow_set_masked_metadata f v m =
     f\<lparr>f_key := (f_key f)\<lparr>metadata := v AND m\<rparr>, f_mask := (f_mask f)\<lparr>in_port := ucast m\<rparr>\<rparr>"

definition flow_set_masked_tunnel_id :: "flow \<Rightarrow> u64 \<Rightarrow> u64 \<Rightarrow> flow" where
  "flow_set_masked_tunnel_id f v m =
     f\<lparr>f_key := (f_key f)\<lparr>tunnel_id := v AND m\<rparr>, f_mask := (f_mask f)\<lparr>tunnel_id := m\<rparr>\<rparr>"

definition flow_set_masked_eth_dst :: "flow \<Rightarrow> bytes \<Rightarrow> bytes \<Rightarrow> flow" where
  "flow_set_masked_eth_dst f v m =
     f\<lparr>f_mask := (f_mask f)\<lparr>eth_dst := take 6 m\<rparr>,
       f_key := (f_key f)\<lparr>eth_dst := apply_mask_eth_addr (take 6 v) m\<rparr>\<rparr>"

definition flow_set_masked_eth_src :: "flow \<Rightarrow> bytes \<Rightarrow> bytes \<Rightarrow> flow" where
  "flow_set_masked_eth_src f v m =
     f\<lparr>f_mask := (f_mask f)\<lparr>eth_src := take 6 m\<rparr>,
       f_key := (f_key f)\<lparr>eth_src := apply_mask_eth_addr (take 6 v) m\<rparr>\<rparr>"

definition flow_set_masked_vlan_id :: "flow \<Rightarrow> u16 \<Rightarrow> u16 \<Rightarrow> flow" where
  "flow_set_masked_vlan_id f v m =
     f\<lparr>f_key := (f_key f)\<lparr>vlan_id := v AND m\<rparr>, f_mask := (f_mask f)\<lparr>vlan_id := m\<rparr>\<rparr>"

definition flow_set_masked_mpls_label :: "flow \<Rightarrow> u32 \<Rightarrow> u32 \<Rightarrow> flow" where
  "flow_set_masked_mpls_label f v m =
     f\<lparr>f_key := (f_key f)\<lparr>mpls_label := v AND m\<rparr>, f_mask := (f_mask f)\<lparr>mpls_label := m\<rparr>\<rparr>"

definition flow_set_masked_ipv4_dst :: "flow \<Rightarrow> u32 \<Rightarrow> u32 \<Rightarrow> flow" where
  "flow_set_masked_ipv4_dst f v m =
     f\<lparr>f_key := (f_key f)\<lparr>ipv4_dst := v AND m\<rparr>, f_mask := (f_mask f)\<lparr>ipv4_dst := m\<rparr>\<rparr>"

definition flow_set_masked_ipv4_src :: "flow \<Rightarrow> u32 \<Rightarrow> u32 \<Rightarrow> flow" where
  "flow_set_masked_ipv4_src f v m =
     f\<lparr>f_key := (f_key f)\<lparr>ipv4_src := v AND m\<rparr>, f_mask := (f_mask f)\<lparr>ipv4_src := m\<rparr>\<rparr>"

definition flow_set_masked_arp_spa :: "flow \<Rightarrow> u32 \<Rightarrow> u32 \<Rightarrow> flow" where
  "flow_set_masked_arp_spa f v m =
     f\<lparr>f_key := (f_key f)\<lparr>arp_spa := v AND m\<rparr>, f_mask := (f_mask f)\<lparr>arp_spa := m\<rparr>\<rparr>"

definition flow_set_masked_arp_tpa :: "flow \<Rightarrow> u32 \<Rightarrow> u32 \<Rightarrow> flow" where
  "flow_set_masked_arp_tpa f v m =
     f\<lparr>f_key := (f_key f)\<lparr>arp_tpa := v AND m\<rparr>, f_mask := (f_mask f)\<lparr>arp_tpa := m\<rparr>\<rparr>"

definition flow_set_masked_arp_sha :: "flow \<Rightarrow> bytes \<Rightarrow> bytes \<Rightarrow> flow" where
  "flow_set_masked_arp_sha f v m =
     f\<lparr>f_mask := (f_mask f)\<lparr>arp_sha := take 6 m\<rparr>,
       f_key := (f_key f)\<lparr>arp_sha := apply_mask_eth_addr (take 6 v) m\<rparr>\<rparr>"

definition flow_set_masked_arp_tha :: "flow \<Rightarrow> bytes \<Rightarrow> bytes \<Rightarrow> flow" where
  "flow_set_masked_arp_tha f v m =
     f\<lparr>f_mask := (f_mask f)\<lparr>arp_tha := take 6 m\<rparr>,
       f_key := (f_key f)\<lparr>arp_tha := apply_mask_eth_addr (take 6 v) m\<rparr>\<rparr>"

text \<open>The IPv6 addresses are stored as masks, and the key is only masked.\<close>

definition flow_set_masked_ipv6_dst :: "flow \<Rightarrow> bytes \<Rightarrow> bytes \<Rightarrow> flow" where
  "flow_set_masked_ipv6_dst f v m =
     f\<lparr>f_mask := (f_mask f)\<lparr>ipv6_dst := take 16 m, ipv6_src := take 16 v\<rparr>,
       f_key := (f_key f)\<lparr>ipv6_dst := apply_mask_ipv6 (ipv6_dst (f_key f)) m\<rparr>\<rparr>"

definition flow_set_masked_ipv6_src :: "flow \<Rightarrow> bytes \<Rightarrow> bytes \<Rightarrow> flow" where
  "flow_set_masked_ipv6_src f v m =
     f\<lparr>f_mask := (f_mask f)\<lparr>ipv6_src := take 16 m\<rparr>\<lparr>ipv6_src := take 16 v\<rparr>,
       f_key := (f_key f)\<lparr>ipv6_src := apply_mask_ipv6 (ipv6_src (f_key f)) m\<rparr>\<rparr>"

definition flow_set_masked_ipv6_nd_target :: "flow \<Rightarrow> bytes \<Rightarrow> bytes \<Rightarrow> flow" where
  "flow_set_masked_ipv6_nd_target f v m =
     f\<lparr>f_mask := (f_mask f)\<lparr>ipv6_nd_target := take 16 m\<rparr>,
       f_key := (f_key f)\<lparr>ipv6_nd_target := apply_mask_ipv6 (take 16 v) m\<rparr>\<rparr>"

definition flow_set_masked_ipv6_nd_sll :: "flow \<Rightarrow> bytes \<Rightarrow> bytes \<Rightarrow> flow" where
  "flow_set_masked_ipv6_nd_sll f v m =
     f\<lparr>f_mask := (f_mask f)\<lparr>ipv6_nd_sll := take 6 m\<rparr>,
       f_key := (f_key f)\<lparr>ipv6_nd_sll := apply_mask_eth_addr (take 6 v) m\<rparr>\<rparr>"

definition flow_set_masked_ipv6_nd_tll :: "flow \<Rightarrow> bytes \<Rightarrow> bytes \<Rightarrow> flow" where
  "flow_set_masked_ipv6_nd_tll f v m =
     f\<lparr>f_mask := (f_mask f)\<lparr>ipv6_nd_tll := take 6 m\<rparr>,
       f_key := (f_key f)\<lparr>ipv6_nd_tll := apply_mask_eth_addr (take 6 v) m\<rparr>\<rparr>"

subsection \<open>Masking\<close>

lemmas mask_defs = apply_all_mask_def apply_mask_eth_addr_def apply_mask_ipv6_def

lemma apply_all_mask_fields [simp]:
  "in_port (apply_all_mask k m) = in_port k AND in_port m"
  "in_phy_port (apply_all_mask k m) = in_phy_port k AND in_phy_port m"
  "metadata (apply_all_mask k m) = metadata k AND metadata m"
  "tunnel_id (apply_all_mask k m) = tunnel_id k AND tunnel_id m"
  "eth_dst (apply_all_mask k m) = map2 (AND) (eth_dst k) (eth_dst m)"
  "eth_src (apply_all_mask k m) = map2 (AND) (eth_src k) (eth_src m)"
  "eth_type (apply_all_mask k m) = eth_type k AND eth_type m"
  "vlan_id (apply_all_mask k m) = vlan_id k AND vlan_id m"
  "vlan_pcp (apply_all_mask k m) = vlan_pcp k AND vlan_pcp m"
  "ip_dscp (apply_all_mask k m) = ip_dscp k AND ip_dscp m"
  "ip_ecn (apply_all_mask k m) = ip_ecn k AND ip_ecn m"
  "ip_proto (apply_all_mask k m) = ip_proto k AND ip_proto m"
  "ipv4_src (apply_all_mask k m) = ipv4_src k AND ipv4_src m"
  "ipv4_dst (apply_all_mask k m) = ipv4_dst k AND ipv4_dst m"
  "tcp_src (apply_all_mask k m) = tcp_src k AND tcp_src m"
  "tcp_dst (apply_all_mask k m) = tcp_dst k AND tcp_dst m"
  "udp_src (apply_all_mask k m) = udp_src k AND udp_src m"
  "udp_dst (apply_all_mask k m) = udp_dst k AND udp_dst m"
  "sctp_src (apply_all_mask k m) = sctp_src k AND sctp_src m"
  "sctp_dst (apply_all_mask k m) = sctp_dst k AND sctp_dst m"
  "icmpv4_type (apply_all_mask k m) = icmpv4_type k AND icmpv4_type m"
  "icmpv4_code (apply_all_mask k m) = icmpv4_code k AND icmpv4_code m"
  "arp_op (apply_all_mask k m) = arp_op k AND arp_op m"
  "arp_spa (apply_all_mask k m) = arp_spa k AND arp_spa m"
  "arp_tpa (apply_all_mask k m) = arp_tpa k AND arp_tpa m"
  "arp_sha (apply_all_mask k m) = map2 (AND) (arp_sha k) (arp_sha m)"
  "arp_tha (apply_all_mask k m) = map2 (AND) (arp_tha k) (arp_tha m)"
  "ipv6_src (apply_all_mask k m) = map2 (AND) (ipv6_src k) (ipv6_src m)"
  "ipv6_dst (apply_all_mask k m) = map2 (AND) (ipv6_dst k) (ipv6_dst m)"
  "ipv6_flabel (apply_all_mask k m) = ipv6_flabel k AND ipv6_flabel m"
  "icmpv6_type (apply_all_mask k m) = icmpv6_type k AND icmpv6_type m"
  "icmpv6_code (apply_all_mask k m) = icmpv6_code k AND icmpv6_code m"
  "ipv6_nd_target (apply_all_mask k m) = map2 (AND) (ipv6_nd_target k) (ipv6_nd_target m)"
  "ipv6_nd_sll (apply_all_mask k m) = map2 (AND) (ipv6_nd_sll k) (ipv6_nd_sll m)"
  "ipv6_nd_tll (apply_all_mask k m) = map2 (AND) (ipv6_nd_tll k) (ipv6_nd_tll m)"
  "mpls_label (apply_all_mask k m) = mpls_label k AND mpls_label m"
  "mpls_tc (apply_all_mask k m) = mpls_tc k AND mpls_tc m"
  "mpls_bos (apply_all_mask k m) = mpls_bos k AND mpls_bos m"
  by (simp_all add: mask_defs)

lemma key_eqI:
  fixes a b :: ofl_flow_key
  assumes "in_port a = in_port b"
    and "in_phy_port a = in_phy_port b"
    and "metadata a = metadata b"
    and "tunnel_id a = tunnel_id b"
    and "eth_dst a = eth_dst b"
    and "eth_src a = eth_src b"
    and "eth_type a = eth_type b"
    and "vlan_id a = vlan_id b"
    and "vlan_pcp a = vlan_pcp b"
    and "ip_dscp a = ip_dscp b"
    and "ip_ecn a = ip_ecn b"
    and "ip_proto a = ip_proto b"
    and "ipv4_src a = ipv4_src b"
    and "ipv4_dst a = ipv4_dst b"
    and "tcp_src a = tcp_src b"
    and "tcp_dst a = tcp_dst b"
    and "udp_src a = udp_src b"
    and "udp_dst a = udp_dst b"
    and "sctp_src a = sctp_src b"
    and "sctp_dst a = sctp_dst b"
    and "icmpv4_type a = icmpv4_type b"
    and "icmpv4_code a = icmpv4_code b"
    and "arp_op a = arp_op b"
    and "arp_spa a = arp_spa b"
    and "arp_tpa a = arp_tpa b"
    and "arp_sha a = arp_sha b"
    and "arp_tha a = arp_tha b"
    and "ipv6_src a = ipv6_src b"
    and "ipv6_dst a = ipv6_dst b"
    and "ipv6_flabel a = ipv6_flabel b"
    and "icmpv6_type a = icmpv6_type b"
    and "icmpv6_code a = icmpv6_code b"
    and "ipv6_nd_target a = ipv6_nd_target b"
    and "ipv6_nd_sll a = ipv6_nd_sll b"
    and "ipv6_nd_tll a = ipv6_nd_tll b"
    and "mpls_label a = mpls_label b"
    and "mpls_tc a = mpls_tc b"
    and "mpls_bos a = mpls_bos b"
  shows "a = b"
  using assms by (cases a, cases b) simp

text \<open>Masking is conjunction in every field: masks form a semilattice, whose order is inclusion
  of the bits that matter.\<close>

interpretation mask_lattice: semilattice apply_all_mask
proof
  fix a b c
  show "apply_all_mask (apply_all_mask a b) c = apply_all_mask a (apply_all_mask b c)"
    by (rule key_eqI) (simp_all add: map2_and_assoc and.assoc)
  show "apply_all_mask a b = apply_all_mask b a"
    by (rule key_eqI) (simp_all add: map2_and_commute and.commute)
  show "apply_all_mask a a = a"
    by (rule key_eqI) simp_all
qed

lemma flow_key_cmp_iff: "flow_key_cmp a b \<longleftrightarrow> a = b"
proof
  assume "flow_key_cmp a b"
  then show "a = b"
    unfolding flow_key_cmp_def by (intro key_eqI) blast+
qed (simp add: flow_key_cmp_def)

lemma wf_key_mask [simp]: "wf_key k \<Longrightarrow> wf_key m \<Longrightarrow> wf_key (apply_all_mask k m)"
  by (simp add: wf_key_def)

lemma wf_zero_key [simp]: "wf_key zero_key"
  by (simp add: wf_key_def zero_key_def)

text \<open>The key with every bit outside the mask set: the packet furthest from \<open>k\<close> that a flow with
  key \<open>k\<close> and mask \<open>m\<close> still matches.\<close>

definition key_fill :: "ofl_flow_key \<Rightarrow> ofl_flow_key \<Rightarrow> ofl_flow_key" where
  "key_fill k m = \<lparr>in_port = in_port k OR NOT (in_port m),
    in_phy_port = in_phy_port k OR NOT (in_phy_port m),
    metadata = metadata k OR NOT (metadata m),
    tunnel_id = tunnel_id k OR NOT (tunnel_id m),
    eth_dst = map2 (\<lambda>a b. a OR NOT b) (eth_dst k) (eth_dst m),
    eth_src = map2 (\<lambda>a b. a OR NOT b) (eth_src k) (eth_src m),
    eth_type = eth_type k OR NOT (eth_type m),
    vlan_id = vlan_id k OR NOT (vlan_id m),
    vlan_pcp = vlan_pcp k OR NOT (vlan_pcp m),
    ip_dscp = ip_dscp k OR NOT (ip_dscp m),
    ip_ecn = ip_ecn k OR NOT (ip_ecn m),
    ip_proto = ip_proto k OR NOT (ip_proto m),
    ipv4_src = ipv4_src k OR NOT (ipv4_src m),
    ipv4_dst = ipv4_dst k OR NOT (ipv4_dst m),
    tcp_src = tcp_src k OR NOT (tcp_src m),
    tcp_dst = tcp_dst k OR NOT (tcp_dst m),
    udp_src = udp_src k OR NOT (udp_src m),
    udp_dst = udp_dst k OR NOT (udp_dst m),
    sctp_src = sctp_src k OR NOT (sctp_src m),
    sctp_dst = sctp_dst k OR NOT (sctp_dst m),
    icmpv4_type = icmpv4_type k OR NOT (icmpv4_type m),
    icmpv4_code = icmpv4_code k OR NOT (icmpv4_code m),
    arp_op = arp_op k OR NOT (arp_op m),
    arp_spa = arp_spa k OR NOT (arp_spa m),
    arp_tpa = arp_tpa k OR NOT (arp_tpa m),
    arp_sha = map2 (\<lambda>a b. a OR NOT b) (arp_sha k) (arp_sha m),
    arp_tha = map2 (\<lambda>a b. a OR NOT b) (arp_tha k) (arp_tha m),
    ipv6_src = map2 (\<lambda>a b. a OR NOT b) (ipv6_src k) (ipv6_src m),
    ipv6_dst = map2 (\<lambda>a b. a OR NOT b) (ipv6_dst k) (ipv6_dst m),
    ipv6_flabel = ipv6_flabel k OR NOT (ipv6_flabel m),
    icmpv6_type = icmpv6_type k OR NOT (icmpv6_type m),
    icmpv6_code = icmpv6_code k OR NOT (icmpv6_code m),
    ipv6_nd_target = map2 (\<lambda>a b. a OR NOT b) (ipv6_nd_target k) (ipv6_nd_target m),
    ipv6_nd_sll = map2 (\<lambda>a b. a OR NOT b) (ipv6_nd_sll k) (ipv6_nd_sll m),
    ipv6_nd_tll = map2 (\<lambda>a b. a OR NOT b) (ipv6_nd_tll k) (ipv6_nd_tll m),
    mpls_label = mpls_label k OR NOT (mpls_label m),
    mpls_tc = mpls_tc k OR NOT (mpls_tc m),
    mpls_bos = mpls_bos k OR NOT (mpls_bos m)\<rparr>"

lemma fill_mask_field: "(a OR NOT m) AND m = a AND (m :: 'a::len word)"
  by (rule bit_word_eqI) (auto simp: bit_simps)

lemma fill_mask_bytes: "map2 (AND) (map2 (\<lambda>a b. a OR NOT b) xs ms) ms = map2 (AND) xs (ms :: bytes)"
  by (induction xs ms rule: list_induct2') (simp_all add: fill_mask_field)

lemma fill_diff_field:
  assumes "(a OR NOT m) AND f = a AND f" "a AND m = a"
  shows "m AND f = (f :: 'a::len word)"
proof (rule bit_word_eqI)
  fix n assume n: "n < LENGTH('a)"
  have "bit ((a OR NOT m) AND f) n = bit (a AND f) n" "bit (a AND m) n = bit a n"
    using assms by simp_all
  then show "bit (m AND f) n = bit f n"
    using n by (auto simp: bit_simps)
qed

lemma fill_diff_bytes:
  assumes "length xs = length ms" "length ms = length fs"
    and "map2 (AND) (map2 (\<lambda>a b. a OR NOT b) xs ms) fs = map2 (AND) xs fs"
    and "map2 (AND) xs ms = (xs :: bytes)"
  shows "map2 (AND) ms fs = fs"
  using assms by (induction xs ms fs rule: list_induct3) (auto dest: fill_diff_field)

lemma key_fill_matches: "apply_all_mask k m = k \<Longrightarrow> apply_all_mask (key_fill k m) m = k"
proof -
  have "apply_all_mask (key_fill k m) m = apply_all_mask k m"
    by (rule key_eqI) (simp_all add: key_fill_def fill_mask_field fill_mask_bytes)
  then show "apply_all_mask k m = k \<Longrightarrow> ?thesis"
    by simp
qed

lemma wf_key_fill [simp]: "wf_key k \<Longrightarrow> wf_key m \<Longrightarrow> wf_key (key_fill k m)"
  by (simp add: wf_key_def key_fill_def)

text \<open>Equality of keys, field by field.\<close>

lemma key_eq_iff:
  fixes a b :: ofl_flow_key
  shows "a = b \<longleftrightarrow>
     in_port a = in_port b \<and>
     in_phy_port a = in_phy_port b \<and>
     metadata a = metadata b \<and>
     tunnel_id a = tunnel_id b \<and>
     eth_dst a = eth_dst b \<and>
     eth_src a = eth_src b \<and>
     eth_type a = eth_type b \<and>
     vlan_id a = vlan_id b \<and>
     vlan_pcp a = vlan_pcp b \<and>
     ip_dscp a = ip_dscp b \<and>
     ip_ecn a = ip_ecn b \<and>
     ip_proto a = ip_proto b \<and>
     ipv4_src a = ipv4_src b \<and>
     ipv4_dst a = ipv4_dst b \<and>
     tcp_src a = tcp_src b \<and>
     tcp_dst a = tcp_dst b \<and>
     udp_src a = udp_src b \<and>
     udp_dst a = udp_dst b \<and>
     sctp_src a = sctp_src b \<and>
     sctp_dst a = sctp_dst b \<and>
     icmpv4_type a = icmpv4_type b \<and>
     icmpv4_code a = icmpv4_code b \<and>
     arp_op a = arp_op b \<and>
     arp_spa a = arp_spa b \<and>
     arp_tpa a = arp_tpa b \<and>
     arp_sha a = arp_sha b \<and>
     arp_tha a = arp_tha b \<and>
     ipv6_src a = ipv6_src b \<and>
     ipv6_dst a = ipv6_dst b \<and>
     ipv6_flabel a = ipv6_flabel b \<and>
     icmpv6_type a = icmpv6_type b \<and>
     icmpv6_code a = icmpv6_code b \<and>
     ipv6_nd_target a = ipv6_nd_target b \<and>
     ipv6_nd_sll a = ipv6_nd_sll b \<and>
     ipv6_nd_tll a = ipv6_nd_tll b \<and>
     mpls_label a = mpls_label b \<and>
     mpls_tc a = mpls_tc b \<and>
     mpls_bos a = mpls_bos b"
  using flow_key_cmp_iff [of a b] by (simp add: flow_key_cmp_def)

lemma fill_diff_sel:
  fixes s :: "ofl_flow_key \<Rightarrow> 'a::len word"
  assumes "\<And>a b. s (apply_all_mask a b) = s a AND s b"
    and "\<And>a b. s (key_fill a b) = s a OR NOT (s b)"
    and "apply_all_mask k m = k" "apply_all_mask (key_fill k m) fm = apply_all_mask k fm"
  shows "s (apply_all_mask m fm) = s fm"
  using assms fill_diff_field by metis

lemma fill_diff_sel_bytes:
  fixes s :: "ofl_flow_key \<Rightarrow> bytes"
  assumes "\<And>a b. s (apply_all_mask a b) = map2 (AND) (s a) (s b)"
    and "\<And>a b. s (key_fill a b) = map2 (\<lambda>x y. x OR NOT y) (s a) (s b)"
    and "apply_all_mask k m = k" "apply_all_mask (key_fill k m) fm = apply_all_mask k fm"
    and "length (s k) = length (s m)" "length (s m) = length (s fm)"
  shows "s (apply_all_mask m fm) = s fm"
  using assms fill_diff_bytes [of "s k" "s m" "s fm"] by metis

lemma key_fill_differs:
  assumes "wf_key k" "wf_key m" "wf_key fm" "apply_all_mask k m = k"
    and "apply_all_mask (key_fill k m) fm = apply_all_mask k fm"
  shows "apply_all_mask m fm = fm"
proof -
  note lens = assms(1-3) [unfolded wf_key_def]
  show ?thesis
    by (rule key_eqI;
        ((rule fill_diff_sel [OF _ _ assms(4,5)] | rule fill_diff_sel_bytes [OF _ _ assms(4,5)]);
          simp add: key_fill_def lens))
qed

subsection \<open>What a flow matches\<close>

text \<open>A flow matches the packets whose masked key is its key.  A flow is well formed when its
  key has no bit outside its mask.\<close>

definition flow_matches :: "flow \<Rightarrow> ofl_flow_key \<Rightarrow> bool" where
  "flow_matches f p \<longleftrightarrow> apply_all_mask p (f_mask f) = f_key f"

definition flow_ok :: "flow \<Rightarrow> bool" where
  "flow_ok f \<longleftrightarrow> wf_key (f_key f) \<and> wf_key (f_mask f) \<and> apply_all_mask (f_key f) (f_mask f) = f_key f"

lemma flow_okD:
  "flow_ok f \<Longrightarrow> wf_key (f_key f)" "flow_ok f \<Longrightarrow> wf_key (f_mask f)"
  "flow_ok f \<Longrightarrow> apply_all_mask (f_key f) (f_mask f) = f_key f"
  by (simp_all add: flow_ok_def)

lemma flow_ok_new [simp]: "flow_ok (flow_new mem)"
  by (simp add: flow_ok_def flow_new_def init_instruction_set_def)

text \<open>The test on masks and keys is inclusion of the sets of packets.\<close>

lemma masked_subset_iff:
  assumes "flow_ok g" "wf_key fm"
  shows "apply_all_mask (f_mask g) fm = fm \<and> apply_all_mask (f_key g) fm = fk \<longleftrightarrow>
    (\<forall>p. wf_key p \<longrightarrow> flow_matches g p \<longrightarrow> apply_all_mask p fm = fk)"
proof
  assume *: "apply_all_mask (f_mask g) fm = fm \<and> apply_all_mask (f_key g) fm = fk"
  show "\<forall>p. wf_key p \<longrightarrow> flow_matches g p \<longrightarrow> apply_all_mask p fm = fk"
    unfolding flow_matches_def using * by (metis mask_lattice.assoc)
next
  assume *: "\<forall>p. wf_key p \<longrightarrow> flow_matches g p \<longrightarrow> apply_all_mask p fm = fk"
  note g = flow_okD [OF assms(1)]
  have "apply_all_mask (f_key g) fm = fk"
    using * g by (simp add: flow_matches_def)
  moreover have "apply_all_mask (key_fill (f_key g) (f_mask g)) fm = fk"
    using * g key_fill_matches by (simp add: flow_matches_def)
  ultimately show "apply_all_mask (f_mask g) fm = fm \<and> apply_all_mask (f_key g) fm = fk"
    using key_fill_differs [OF g(1,2) assms(2) g(3)] by simp
qed

subsection \<open>Setters keep flows well formed\<close>

lemma ones:
  "(0xff :: u8) = - 1" "(0xffff :: u16) = - 1" "(0xffffffff :: u32) = - 1"
  "(0xffffffffffffffff :: u64) = - 1"
  by simp_all

lemma all_ones [simp]:
  "v8 AND ALL_UINT8_MASK = v8" "v16 AND ALL_UINT16_MASK = v16"
  "v32 AND ALL_UINT32_MASK = v32" "v64 AND ALL_UINT64_MASK = v64"
  by (simp_all only: ALL_UINT8_MASK_def ALL_UINT16_MASK_def ALL_UINT32_MASK_def ALL_UINT64_MASK_def
      ones and.right_neutral)

lemma all_ones_bytes [simp]: "length xs = n \<Longrightarrow> map2 (AND) xs (replicate n 0xff) = (xs :: bytes)"
proof -
  have "map2 (AND) xs (replicate (length xs) (- 1)) = xs"
    by (induction xs) simp_all
  then show "length xs = n \<Longrightarrow> ?thesis"
    by (simp only: ones)
qed

lemma flow_ok_fields:
  "flow_ok f \<longleftrightarrow> wf_key (f_key f) \<and> wf_key (f_mask f) \<and> flow_key_cmp (apply_all_mask (f_key f) (f_mask f)) (f_key f)"
  by (simp add: flow_ok_def flow_key_cmp_iff)

lemmas exact_setters =
  set_in_port_def set_metadata_def set_tunnel_id_def set_eth_type_def set_eth_dst_def set_eth_src_def set_vlan_id_def set_vlan_pcp_def set_mpls_label_def set_mpls_tc_def set_mpls_bos_def set_ip_dscp_def set_ip_ecn_def set_ip_proto_def set_ipv4_dst_def set_ipv4_src_def set_tcp_dst_def set_tcp_src_def set_sctp_dst_def set_sctp_src_def set_udp_dst_def set_udp_src_def set_icmpv4_type_def set_icmpv4_code_def set_arp_op_def set_arp_spa_def set_arp_tpa_def set_arp_sha_def set_arp_tha_def set_ipv6_dst_def set_ipv6_src_def set_ipv6_flabel_def set_icmpv6_type_def set_icmpv6_code_def set_ipv6_nd_target_def set_ipv6_nd_sll_def set_ipv6_nd_tll_def

lemmas masked_setters =
  flow_set_masked_tunnel_id_def flow_set_masked_eth_dst_def flow_set_masked_eth_src_def flow_set_masked_vlan_id_def flow_set_masked_mpls_label_def flow_set_masked_ipv4_dst_def flow_set_masked_ipv4_src_def flow_set_masked_arp_spa_def flow_set_masked_arp_tpa_def flow_set_masked_arp_sha_def flow_set_masked_arp_tha_def flow_set_masked_ipv6_nd_target_def flow_set_masked_ipv6_nd_sll_def flow_set_masked_ipv6_nd_tll_def

lemmas ok_unfold =
  flow_ok_fields flow_key_cmp_def apply_all_mask_fields wf_key_def apply_mask_eth_addr_def
  apply_mask_ipv6_def ETH_LEN_def IPV6_LEN_def map2_and_idem and.assoc

lemma flow_ok_exact [horse_inv]:
  assumes "flow_ok f"
  shows "flow_ok (set_in_port f v32)"
    and "flow_ok (set_metadata f v64)"
    and "flow_ok (set_tunnel_id f v64)"
    and "flow_ok (set_eth_type f v16)"
    and "length a = 6 \<Longrightarrow> flow_ok (set_eth_dst f a)"
    and "length a = 6 \<Longrightarrow> flow_ok (set_eth_src f a)"
    and "flow_ok (set_vlan_id f v16)"
    and "flow_ok (set_vlan_pcp f v8)"
    and "flow_ok (set_mpls_label f v32)"
    and "flow_ok (set_mpls_tc f v8)"
    and "flow_ok (set_mpls_bos f v8)"
    and "flow_ok (set_ip_dscp f v8)"
    and "flow_ok (set_ip_ecn f v8)"
    and "flow_ok (set_ip_proto f v8)"
    and "flow_ok (set_ipv4_dst f v32)"
    and "flow_ok (set_ipv4_src f v32)"
    and "flow_ok (set_tcp_dst f v16)"
    and "flow_ok (set_tcp_src f v16)"
    and "flow_ok (set_sctp_dst f v16)"
    and "flow_ok (set_sctp_src f v16)"
    and "flow_ok (set_udp_dst f v16)"
    and "flow_ok (set_udp_src f v16)"
    and "flow_ok (set_icmpv4_type f v8)"
    and "flow_ok (set_icmpv4_code f v8)"
    and "flow_ok (set_arp_op f v16)"
    and "flow_ok (set_arp_spa f v32)"
    and "flow_ok (set_arp_tpa f v32)"
    and "length a = 6 \<Longrightarrow> flow_ok (set_arp_sha f a)"
    and "length a = 6 \<Longrightarrow> flow_ok (set_arp_tha f a)"
    and "length a = 16 \<Longrightarrow> flow_ok (set_ipv6_dst f a)"
    and "length a = 16 \<Longrightarrow> flow_ok (set_ipv6_src f a)"
    and "flow_ok (set_ipv6_flabel f v32)"
    and "flow_ok (set_icmpv6_type f v8)"
    and "flow_ok (set_icmpv6_code f v8)"
    and "length a = 16 \<Longrightarrow> flow_ok (set_ipv6_nd_target f a)"
    and "length a = 6 \<Longrightarrow> flow_ok (set_ipv6_nd_sll f a)"
    and "length a = 6 \<Longrightarrow> flow_ok (set_ipv6_nd_tll f a)"
  using assms by (simp_all add: exact_setters ok_unfold)

lemma flow_ok_masked [horse_inv]:
  assumes "flow_ok f"
  shows "flow_ok (flow_set_masked_tunnel_id f v64 w64)"
    and "length a = 6 \<Longrightarrow> length b = 6 \<Longrightarrow> flow_ok (flow_set_masked_eth_dst f a b)"
    and "length a = 6 \<Longrightarrow> length b = 6 \<Longrightarrow> flow_ok (flow_set_masked_eth_src f a b)"
    and "flow_ok (flow_set_masked_vlan_id f v16 w16)"
    and "flow_ok (flow_set_masked_mpls_label f v32 w32)"
    and "flow_ok (flow_set_masked_ipv4_dst f v32 w32)"
    and "flow_ok (flow_set_masked_ipv4_src f v32 w32)"
    and "flow_ok (flow_set_masked_arp_spa f v32 w32)"
    and "flow_ok (flow_set_masked_arp_tpa f v32 w32)"
    and "length a = 6 \<Longrightarrow> length b = 6 \<Longrightarrow> flow_ok (flow_set_masked_arp_sha f a b)"
    and "length a = 6 \<Longrightarrow> length b = 6 \<Longrightarrow> flow_ok (flow_set_masked_arp_tha f a b)"
    and "length a = 16 \<Longrightarrow> length b = 16 \<Longrightarrow> flow_ok (flow_set_masked_ipv6_nd_target f a b)"
    and "length a = 6 \<Longrightarrow> length b = 6 \<Longrightarrow> flow_ok (flow_set_masked_ipv6_nd_sll f a b)"
    and "length a = 6 \<Longrightarrow> length b = 6 \<Longrightarrow> flow_ok (flow_set_masked_ipv6_nd_tll f a b)"
  using assms by (simp_all add: masked_setters ok_unfold)

subsection \<open>Properties\<close>

text \<open>\<open>flow_key_cmp\<close> compares every field: it holds exactly when the two keys are
  equal.\<close>

theorem flow_key_cmp_complete: "flow_key_cmp a b \<longleftrightarrow> a = b"
  by (rule flow_key_cmp_iff)

text \<open>\<open>apply_all_mask\<close> is the meet of a semilattice on keys: masking twice is masking by
  the common bits, in any order, masking again changes nothing, and a field survives exactly where
  the mask is set.\<close>

theorem apply_all_mask_semilattice:
  "apply_all_mask (apply_all_mask k m) n = apply_all_mask k (apply_all_mask m n) \<and>
   apply_all_mask k m = apply_all_mask m k \<and>
   apply_all_mask (apply_all_mask k m) m = apply_all_mask k m \<and>
   ipv4_dst (apply_all_mask k m) = ipv4_dst k AND ipv4_dst m \<and>
   eth_dst (apply_all_mask k m) = map2 (AND) (eth_dst k) (eth_dst m)"
  by (simp add: mask_lattice.assoc) (rule mask_lattice.commute)

text \<open>a fresh flow is well formed, and setting fields, exactly or under a mask, keeps it so:
  no bit of the key lies outside the mask, which is what makes the hash lookup on masked keys
  find it.  (The masked setters of the metadata and of the IPv6 addresses are the exception.)\<close>

theorem setters_keep_flow_ok:
  assumes "flow_ok f" "length mac = 6" "length mac_mask = 6" "length ip6 = 16" "length ip6_mask = 16"
  shows "flow_ok (flow_new mem) \<and>
    flow_ok (set_in_port f v32) \<and>
    flow_ok (set_metadata f v64) \<and>
    flow_ok (set_tunnel_id f v64) \<and>
    flow_ok (set_eth_type f v16) \<and>
    flow_ok (set_eth_dst f mac) \<and>
    flow_ok (set_eth_src f mac) \<and>
    flow_ok (set_vlan_id f v16) \<and>
    flow_ok (set_vlan_pcp f v8) \<and>
    flow_ok (set_mpls_label f v32) \<and>
    flow_ok (set_mpls_tc f v8) \<and>
    flow_ok (set_mpls_bos f v8) \<and>
    flow_ok (set_ip_dscp f v8) \<and>
    flow_ok (set_ip_ecn f v8) \<and>
    flow_ok (set_ip_proto f v8) \<and>
    flow_ok (set_ipv4_dst f v32) \<and>
    flow_ok (set_ipv4_src f v32) \<and>
    flow_ok (set_tcp_dst f v16) \<and>
    flow_ok (set_tcp_src f v16) \<and>
    flow_ok (set_sctp_dst f v16) \<and>
    flow_ok (set_sctp_src f v16) \<and>
    flow_ok (set_udp_dst f v16) \<and>
    flow_ok (set_udp_src f v16) \<and>
    flow_ok (set_icmpv4_type f v8) \<and>
    flow_ok (set_icmpv4_code f v8) \<and>
    flow_ok (set_arp_op f v16) \<and>
    flow_ok (set_arp_spa f v32) \<and>
    flow_ok (set_arp_tpa f v32) \<and>
    flow_ok (set_arp_sha f mac) \<and>
    flow_ok (set_arp_tha f mac) \<and>
    flow_ok (set_ipv6_dst f ip6) \<and>
    flow_ok (set_ipv6_src f ip6) \<and>
    flow_ok (set_ipv6_flabel f v32) \<and>
    flow_ok (set_icmpv6_type f v8) \<and>
    flow_ok (set_icmpv6_code f v8) \<and>
    flow_ok (set_ipv6_nd_target f ip6) \<and>
    flow_ok (set_ipv6_nd_sll f mac) \<and>
    flow_ok (set_ipv6_nd_tll f mac) \<and>
    flow_ok (flow_set_masked_tunnel_id f v64 w64) \<and>
    flow_ok (flow_set_masked_eth_dst f mac mac_mask) \<and>
    flow_ok (flow_set_masked_eth_src f mac mac_mask) \<and>
    flow_ok (flow_set_masked_vlan_id f v16 w16) \<and>
    flow_ok (flow_set_masked_mpls_label f v32 w32) \<and>
    flow_ok (flow_set_masked_ipv4_dst f v32 w32) \<and>
    flow_ok (flow_set_masked_ipv4_src f v32 w32) \<and>
    flow_ok (flow_set_masked_arp_spa f v32 w32) \<and>
    flow_ok (flow_set_masked_arp_tpa f v32 w32) \<and>
    flow_ok (flow_set_masked_arp_sha f mac mac_mask) \<and>
    flow_ok (flow_set_masked_arp_tha f mac mac_mask) \<and>
    flow_ok (flow_set_masked_ipv6_nd_target f ip6 ip6_mask) \<and>
    flow_ok (flow_set_masked_ipv6_nd_sll f mac mac_mask) \<and>
    flow_ok (flow_set_masked_ipv6_nd_tll f mac mac_mask)"
  using assms by (simp add: flow_ok_exact flow_ok_masked)

theorem setters_keep_flow_ok_witness:
  "flow_ok (flow_set_masked_ipv4_dst
     (flow_new \<lparr>f_key = zero_key, f_mask = zero_key, f_table_id = 0, f_flags = 0, f_priority = 0,
        f_cookie = 0, f_pkt_cnt = 0, f_byte_cnt = 0, f_created = 0, f_hard_timeout = 0,
        f_idle_timeout = 0, f_remove_at = 0, f_last_used = 0, f_insts = instruction_set_zero\<rparr>)
     0x0A000001 0xFFFFFF00)"
  using setters_keep_flow_ok [OF flow_ok_new, of "replicate 6 1" "replicate 6 255" "replicate 16 0"
      "replicate 16 255"]
  by simp

text \<open>The exceptions: a masked metadata match leaves the metadata unmasked, and a masked IPv6
  match stores the address as the mask.\<close>

lemma masked_metadata_not_ok: "\<not> flow_ok (flow_set_masked_metadata (flow_new mem) 1 1)"
  by (simp add: flow_ok_def flow_set_masked_metadata_def flow_new_def init_instruction_set_def
      key_eq_iff) (simp add: zero_key_def)

lemma masked_ipv6_dst_ignores_address:
  "f_key (flow_set_masked_ipv6_dst (flow_new mem) a m) = f_key (flow_set_masked_ipv6_dst (flow_new mem) b m)"
  by (simp add: flow_set_masked_ipv6_dst_def flow_new_def init_instruction_set_def)

end
