(* ===== verification/Netflow.thy ===== *)
theory Netflow
  imports Flow Util
begin

section \<open>Network flows and packets (lib/netflow, lib/packets.h)\<close>

text \<open>
  A network flow is what travels through the simulated network: counters, a match key, a stack of
  VLAN and MPLS tags, a list of output ports.  \<open>netflow_to_pkt\<close> turns it into packet headers and
  \<open>pkt_to_netflow\<close> parses headers into a flow; the latter reads the buffer with its bounds and
  writes the tag stack with its bounds.  The members of a \<open>struct tag\<close>'s union overlay one
  32-bit word in host memory: the Ethernet type of a VLAN tag is its low half and the tag its high
  half.  \<open>tcp_flags\<close> overlays the identifier of \<open>icmp_info\<close>.
\<close>

subsection \<open>Constants and data\<close>

definition ETH_TYPE_IP :: u16 where "ETH_TYPE_IP = 0x0800"
definition ETH_TYPE_IPV6 :: u16 where "ETH_TYPE_IPV6 = 0x86dd"
definition ETH_TYPE_ARP :: u16 where "ETH_TYPE_ARP = 0x0806"
definition ETH_TYPE_VLAN :: u16 where "ETH_TYPE_VLAN = 0x8100"
definition ETH_TYPE_LLDP :: u16 where "ETH_TYPE_LLDP = 0x88cc"
definition ETH_TYPE_VLAN_QinQ :: u16 where "ETH_TYPE_VLAN_QinQ = 0x88a8"
definition ETH_TYPE_MPLS :: u16 where "ETH_TYPE_MPLS = 0x8847"
definition ETH_TYPE_MPLS_MCAST :: u16 where "ETH_TYPE_MPLS_MCAST = 0x8848"

definition ARP_OP_REQUEST :: u16 where "ARP_OP_REQUEST = 1"
definition ARP_OP_REPLY :: u16 where "ARP_OP_REPLY = 2"

definition VLAN_VID_MASK :: u16 where "VLAN_VID_MASK = 0x0fff"
definition VLAN_PCP_MASK :: u16 where "VLAN_PCP_MASK = 0xe000"
definition MPLS_S_MASK :: u32 where "MPLS_S_MASK = 0x00000100"
definition MPLS_TC_MASK :: u32 where "MPLS_TC_MASK = 0x00000e00"
definition MPLS_LABEL_MASK :: u32 where "MPLS_LABEL_MASK = 0xfffff000"

definition IP_PROTO_ICMPV4 :: u8 where "IP_PROTO_ICMPV4 = 1"
definition IP_PROTO_TCP :: u8 where "IP_PROTO_TCP = 6"
definition IP_PROTO_UDP :: u8 where "IP_PROTO_UDP = 17"
definition IP_PROTO_ICMPV6 :: u8 where "IP_PROTO_ICMPV6 = 58"

definition ECHO_REPLY :: u8 where "ECHO_REPLY = 0"
definition ECHO :: u8 where "ECHO = 8"

lemmas eth_types =
  ETH_TYPE_IP_def ETH_TYPE_IPV6_def ETH_TYPE_ARP_def ETH_TYPE_VLAN_def ETH_TYPE_LLDP_def
  ETH_TYPE_VLAN_QinQ_def ETH_TYPE_MPLS_def ETH_TYPE_MPLS_MCAST_def

lemmas ip_protos = IP_PROTO_ICMPV4_def IP_PROTO_TCP_def IP_PROTO_UDP_def IP_PROTO_ICMPV6_def

definition MAX_STACK_SIZE :: nat where "MAX_STACK_SIZE = 8"
definition STACK_EMPTY :: int where "STACK_EMPTY = -1"

record tag =
  t_type :: u16
  t_union :: u32

record tag_stack =
  level :: "tag list"
  top :: int

record dp_meta =
  meta_buffer_id :: u32
  meta_reason :: u8
  meta_table_id :: u8
  meta_cookie :: u64

record icmp_echo_reply =
  echo_id :: u16
  echo_seq :: u16
  echo_data :: bytes

record netflow =
  pkt_cnt :: u64
  byte_cnt :: u64
  start_time :: u64
  exec_id :: u64
  nf_rate :: u32
  nf_match :: ofl_flow_key
  tags :: tag_stack
  icmp_info :: icmp_echo_reply
  payload :: "bytes option"
  payload_len :: u16
  nf_meta :: dp_meta
  out_ports :: "u32 list"

text \<open>The members of the tag's union.\<close>

definition vlan_ethertype :: "tag \<Rightarrow> u16" where
  "vlan_ethertype t = ucast (t_union t)"

definition vlan_tag :: "tag \<Rightarrow> u16" where
  "vlan_tag t = ucast (drop_bit 16 (t_union t))"

definition mpls_fields :: "tag \<Rightarrow> u32" where
  "mpls_fields t = t_union t"

definition set_vlan_ethertype :: "u16 \<Rightarrow> tag \<Rightarrow> tag" where
  "set_vlan_ethertype e t = t\<lparr>t_union := (t_union t AND 0xffff0000) OR ucast e\<rparr>"

definition set_vlan_tag :: "u16 \<Rightarrow> tag \<Rightarrow> tag" where
  "set_vlan_tag v t = t\<lparr>t_union := (t_union t AND 0x0000ffff) OR push_bit 16 (ucast v)\<rparr>"

definition set_mpls_fields :: "u32 \<Rightarrow> tag \<Rightarrow> tag" where
  "set_mpls_fields v t = t\<lparr>t_union := v\<rparr>"

definition zero_tag :: tag where
  "zero_tag = \<lparr>t_type = 0, t_union = 0\<rparr>"

definition is_vlan_type :: "u16 \<Rightarrow> bool" where
  "is_vlan_type ty \<longleftrightarrow> ty = ETH_TYPE_VLAN \<or> ty = ETH_TYPE_VLAN_QinQ"

definition is_mpls_type :: "u16 \<Rightarrow> bool" where
  "is_mpls_type ty \<longleftrightarrow> ty = ETH_TYPE_MPLS \<or> ty = ETH_TYPE_MPLS_MCAST"

subsection \<open>Creation\<close>

definition netflow_init :: netflow where
  "netflow_init = \<lparr>pkt_cnt = 0, byte_cnt = 0, start_time = 0, exec_id = 0, nf_rate = 0,
     nf_match = zero_key, tags = \<lparr>level = replicate MAX_STACK_SIZE zero_tag, top = 0\<rparr>,
     icmp_info = \<lparr>echo_id = 0, echo_seq = 0, echo_data = replicate 48 0\<rparr>,
     payload = None, payload_len = 0,
     nf_meta = \<lparr>meta_buffer_id = 0, meta_reason = 0, meta_table_id = 0, meta_cookie = 0\<rparr>,
     out_ports = []\<rparr>"

definition netflow_new :: netflow where
  "netflow_new = netflow_init"

text \<open>A copy shares the payload and the list of ports with the original.\<close>

definition netflow_new_from_netflow :: "netflow \<Rightarrow> netflow" where
  "netflow_new_from_netflow to_copy = to_copy"

subsection \<open>The tag stack\<close>

definition tag_at :: "netflow \<Rightarrow> int \<Rightarrow> tag" where
  "tag_at nf i = level (tags nf) ! nat i"

definition set_tag :: "netflow \<Rightarrow> int \<Rightarrow> tag \<Rightarrow> netflow" where
  "set_tag nf i t = nf\<lparr>tags := (tags nf)\<lparr>level := (level (tags nf))[nat i := t]\<rparr>\<rparr>"

definition set_top :: "netflow \<Rightarrow> int \<Rightarrow> netflow" where
  "set_top nf i = nf\<lparr>tags := (tags nf)\<lparr>top := i\<rparr>\<rparr>"

definition netflow_is_outer_mpls :: "netflow \<Rightarrow> bool" where
  "netflow_is_outer_mpls nf \<longleftrightarrow>
     top (tags nf) \<noteq> STACK_EMPTY \<and> is_mpls_type (t_type (tag_at nf (top (tags nf))))"

definition netflow_is_vlan_tagged :: "netflow \<Rightarrow> bool" where
  "netflow_is_vlan_tagged nf \<longleftrightarrow>
     top (tags nf) \<noteq> STACK_EMPTY \<and> is_vlan_type (t_type (tag_at nf (top (tags nf))))"

definition tags_empty :: "netflow \<Rightarrow> bool" where
  "tags_empty nf \<longleftrightarrow> top (tags nf) = STACK_EMPTY"

definition netflow_push_vlan :: "netflow \<Rightarrow> u16 \<Rightarrow> netflow" where
  "netflow_push_vlan nf ety =
     (if top (tags nf) < int MAX_STACK_SIZE - 1 \<and> is_vlan_type ety then
        let empty = (top (tags nf) = STACK_EMPTY);
            i = top (tags nf) + 1;
            nf = set_top nf i;
            new = (tag_at nf i)\<lparr>t_type := ety\<rparr>;
            new =
              (if \<not> empty then
                 let prev = tag_at nf (i - 1) in
                 if is_vlan_type (t_type prev) then set_vlan_tag (vlan_tag prev) new else new
               else set_vlan_tag 0 new)
        in set_tag nf i (set_vlan_ethertype ety new)
      else nf)"

definition netflow_push_mpls :: "netflow \<Rightarrow> u16 \<Rightarrow> netflow" where
  "netflow_push_mpls nf ety =
     (if top (tags nf) < int MAX_STACK_SIZE - 1 \<and> is_mpls_type ety then
        let prev_empty = (top (tags nf) = STACK_EMPTY);
            i = top (tags nf) + 1;
            nf = set_top nf i;
            new = (tag_at nf i)\<lparr>t_type := ety\<rparr>;
            (new, nf) =
              (if \<not> prev_empty then
                 let prev = tag_at nf (i - 1) in
                 if is_mpls_type (t_type prev)
                 then (set_mpls_fields (mpls_fields prev AND NOT MPLS_S_MASK) new,
                       nf\<lparr>nf_match := (nf_match nf)\<lparr>mpls_bos := 0\<rparr>\<rparr>)
                 else (new, nf)
               else (set_mpls_fields MPLS_S_MASK new,
                     nf\<lparr>nf_match := (nf_match nf)\<lparr>mpls_bos := 1\<rparr>\<rparr>));
            nf = set_tag nf i new
        in nf\<lparr>nf_match := (nf_match nf)\<lparr>eth_type := ety\<rparr>\<rparr>
      else nf)"

definition netflow_pop_vlan :: "netflow \<Rightarrow> netflow" where
  "netflow_pop_vlan nf =
     (if netflow_is_vlan_tagged nf then
        let nf = set_tag nf (top (tags nf)) zero_tag;
            nf = set_top nf (top (tags nf) - 1)
        in if netflow_is_vlan_tagged nf then
             let t = tag_at nf (top (tags nf)) in
             nf\<lparr>nf_match := (nf_match nf)
               \<lparr>vlan_id := vlan_tag t AND VLAN_VID_MASK,
                vlan_pcp := ucast (drop_bit 13 (vlan_tag t AND VLAN_PCP_MASK))\<rparr>\<rparr>
           else nf\<lparr>nf_match := (nf_match nf)\<lparr>vlan_id := 0, vlan_pcp := 0\<rparr>\<rparr>
      else nf)"

text \<open>The fields are read from the tag that was just cleared, not from the new top.\<close>

definition netflow_pop_mpls :: "netflow \<Rightarrow> u16 \<Rightarrow> netflow" where
  "netflow_pop_mpls nf ety =
     (if top (tags nf) \<ge> 0 then
        let i = top (tags nf);
            nf = set_tag nf i zero_tag;
            nf = set_top nf (i - 1);
            nf = nf\<lparr>nf_match := (nf_match nf)\<lparr>eth_type := ety\<rparr>\<rparr>;
            t = tag_at nf i
        in if netflow_is_outer_mpls nf then
             nf\<lparr>nf_match := (nf_match nf)
               \<lparr>mpls_label := drop_bit 12 (mpls_fields t AND MPLS_LABEL_MASK),
                mpls_tc := ucast (drop_bit 9 (mpls_fields t AND MPLS_TC_MASK)),
                mpls_bos := ucast (drop_bit 8 (mpls_fields t AND MPLS_S_MASK))\<rparr>\<rparr>
           else nf\<lparr>nf_match := (nf_match nf)\<lparr>mpls_label := 0, mpls_tc := 0, mpls_bos := 0\<rparr>\<rparr>
      else nf)"

subsection \<open>From a flow to a packet\<close>

definition vlan_to_pkt :: "tag \<Rightarrow> bytes" where
  "vlan_to_pkt t = mem32 (t_union t)"

definition mpls_to_pkt :: "tag \<Rightarrow> bytes" where
  "mpls_to_pkt t = mem32 (t_union t)"

definition eth_to_pkt :: "ofl_flow_key \<Rightarrow> bytes" where
  "eth_to_pkt m = eth_dst m @ eth_src m @ put16 (eth_type m)"

definition tags_to_pkt :: "netflow \<Rightarrow> bytes" where
  "tags_to_pkt nf =
     (if \<not> tags_empty nf then
        concat (map (\<lambda>t.
          if is_mpls_type (t_type t) then mpls_to_pkt t
          else if is_vlan_type (t_type t) then vlan_to_pkt t else [])
          (take (nat (top (tags nf) + 1)) (level (tags nf))))
      else [])"

definition arp_to_pkt :: "ofl_flow_key \<Rightarrow> bytes" where
  "arp_to_pkt m = put16 1 @ put16 ETH_TYPE_IP @ [6, 4] @ put16 (arp_op m) @ arp_sha m @
     put32 (arp_spa m) @ arp_tha m @ put32 (arp_tpa m)"

definition ip_to_pkt :: "ofl_flow_key \<Rightarrow> bytes" where
  "ip_to_pkt m = [0x45, push_bit 1 (ip_dscp m) OR ip_ecn m] @ put16 20 @ [0, 0, 0, 0] @
     [0, ip_proto m] @ [0, 0] @ put32 (ipv4_src m) @ put32 (ipv4_dst m)"

definition ipv6_to_pkt :: "ofl_flow_key \<Rightarrow> bytes" where
  "ipv6_to_pkt m = [0, 0, 0, 0, 0, 0] @ [ip_proto m, 0] @ ipv6_src m @ ipv6_dst m"

definition l4_to_pkt :: "netflow \<Rightarrow> bytes" where
  "l4_to_pkt nf =
     (let m = nf_match nf in
      (if ip_proto m = IP_PROTO_TCP
       then put16 (tcp_src m) @ put16 (tcp_dst m) @ replicate 16 0 else []) @
      (if ip_proto m = IP_PROTO_UDP
       then put16 (udp_src m) @ put16 (udp_dst m) @ put16 8 @ [0, 0] else []) @
      (if ip_proto m = IP_PROTO_ICMPV4
       then [icmpv4_type m, icmpv4_code m, 0, 0] @
            (if icmpv4_type m = ECHO \<or> icmpv4_type m = ECHO_REPLY
             then put16 (echo_id (icmp_info nf)) @ put16 (echo_seq (icmp_info nf)) @
                  take 48 (echo_data (icmp_info nf))
             else [])
       else []) @
      (if ip_proto m = IP_PROTO_ICMPV6 then [icmpv6_type m, icmpv6_code m, 0, 0] else []))"

text \<open>The length field is written last, over what the header holds.  A payload holds \<open>payload_len\<close>
  bytes.\<close>

definition put_at :: "nat \<Rightarrow> bytes \<Rightarrow> bytes \<Rightarrow> bytes" where
  "put_at off bs buf = take off buf @ bs @ drop (off + length bs) buf"

definition netflow_to_pkt :: "netflow \<Rightarrow> bytes" where
  "netflow_to_pkt nf =
     (let m = nf_match nf; buf = eth_to_pkt m @ tags_to_pkt nf in
      if eth_type m = ETH_TYPE_LLDP then
        buf @ take (unat (payload_len nf)) (case payload nf of None \<Rightarrow> [] | Some p \<Rightarrow> p)
      else if eth_type m = ETH_TYPE_ARP then buf @ arp_to_pkt m
      else if eth_type m = ETH_TYPE_IP then
        let length_offset = length buf + 2; l4 = l4_to_pkt nf; pl = word_of_nat (20 + length l4)
        in put_at length_offset (put16 pl) (buf @ ip_to_pkt m @ l4)
      else if eth_type m = ETH_TYPE_IPV6 then
        let length_offset = length buf + 4; l4 = l4_to_pkt nf; pl = word_of_nat (length l4)
        in put_at length_offset (put16 pl) (buf @ ipv6_to_pkt m @ l4)
      else buf)"

subsection \<open>From a packet to a flow\<close>

definition upd_match :: "(ofl_flow_key \<Rightarrow> ofl_flow_key) \<Rightarrow> netflow \<Rightarrow> netflow" where
  "upd_match u nf = nf\<lparr>nf_match := u (nf_match nf)\<rparr>"

text \<open>A tag of the packet is put on the stack: the type is the Ethernet type that follows.\<close>

definition push_tag :: "netflow \<Rightarrow> u16 \<Rightarrow> u32 \<Rightarrow> netflow res" where
  "push_tag nf ety raw =
     (let i = top (tags nf) + 1 in
      if i < 0 then Inl Out_Of_Bounds
      else rbind (arr_set (level (tags nf)) (nat i) \<lparr>t_type = ety, t_union = raw\<rparr>) (\<lambda>lv.
        Inr (nf\<lparr>tags := \<lparr>level = lv, top = i\<rparr>\<rparr>)))"

text \<open>A \<open>struct vlan\<close> at an offset: its Ethernet type, its tag, and its four bytes as they lie
  in memory.\<close>

definition rd_vlan :: "bytes \<Rightarrow> nat \<Rightarrow> (u16 \<times> u16 \<times> u32) res" where
  "rd_vlan buf off =
     rbind (rd16 buf off) (\<lambda>ety. rbind (rd16 buf (off + 2)) (\<lambda>tg. rbind (rd32 buf off) (\<lambda>raw.
       Inr (ety, tg, swap32 raw))))"

definition parse_first_vlan :: "bytes \<Rightarrow> netflow \<Rightarrow> nat \<Rightarrow> nat \<Rightarrow> (netflow \<times> nat \<times> bool) res" where
  "parse_first_vlan buf nf off pkt_len =
     (if is_vlan_type (eth_type (nf_match nf)) then
        if pkt_len < off + 4 then Inr (nf, off, False)
        else rbind (rd_vlan buf off) (\<lambda>(ety, tg, raw).
          let nf = upd_match (\<lambda>m. m\<lparr>vlan_id := tg AND VLAN_VID_MASK,
                vlan_pcp := ucast (drop_bit 13 (tg AND VLAN_PCP_MASK)), eth_type := ety\<rparr>) nf
          in rbind (push_tag nf ety raw) (\<lambda>nf. Inr (nf, off + 4, True)))
      else Inr (nf, off, True))"

text \<open>The loop over the other VLAN tags; the flag tells whether the parse goes on.\<close>

function parse_vlans :: "bytes \<Rightarrow> netflow \<Rightarrow> nat \<Rightarrow> nat \<Rightarrow> (netflow \<times> nat \<times> bool) res" where
  "parse_vlans buf nf off pkt_len =
     (if is_vlan_type (eth_type (nf_match nf)) then
        if pkt_len < off + 4 then Inr (nf, off, False)
        else
          case rd_vlan buf off of
            Inl e \<Rightarrow> Inl e
          | Inr (ety, tg, raw) \<Rightarrow>
              let nf = upd_match (\<lambda>m. m\<lparr>eth_type := ety\<rparr>) nf in
              if top (tags nf) < int MAX_STACK_SIZE then
                case push_tag nf ety raw of
                  Inl e \<Rightarrow> Inl e
                | Inr nf \<Rightarrow> parse_vlans buf nf (off + 4) pkt_len
              else Inr (nf, off, False)
      else Inr (nf, off, True))"
  by pat_completeness auto
termination
  by (relation "measure (\<lambda>(buf, nf, off, pkt_len). pkt_len - off)") auto

declare parse_vlans.simps [simp del]

definition parse_mpls :: "bytes \<Rightarrow> netflow \<Rightarrow> nat \<Rightarrow> nat \<Rightarrow> netflow res" where
  "parse_mpls buf nf off pkt_len =
     (if pkt_len < off + 4 then Inr nf
      else rbind (rd32 buf off) (\<lambda>fields.
        Inr (upd_match (\<lambda>m. m\<lparr>mpls_label := drop_bit 12 (fields AND MPLS_LABEL_MASK),
               mpls_tc := ucast (drop_bit 9 (fields AND MPLS_TC_MASK)),
               mpls_bos := ucast (drop_bit 8 (fields AND MPLS_S_MASK))\<rparr>) nf)))"

definition parse_lldp :: "bytes \<Rightarrow> netflow \<Rightarrow> nat \<Rightarrow> nat \<Rightarrow> netflow res" where
  "parse_lldp buf nf off pkt_len =
     (let len = word_of_int (int pkt_len - int off) :: u16 in
      rbind (rdn (unat len) buf off) (\<lambda>p. Inr (nf\<lparr>payload_len := len, payload := Some p\<rparr>)))"

definition parse_arp :: "bytes \<Rightarrow> netflow \<Rightarrow> nat \<Rightarrow> nat \<Rightarrow> netflow res" where
  "parse_arp buf nf off pkt_len =
     (if pkt_len < off + 28 then Inr nf
      else
        rbind (rd16 buf off) (\<lambda>hrd. rbind (rd16 buf (off + 2)) (\<lambda>pro.
        rbind (rd8 buf (off + 4)) (\<lambda>hln. rbind (rd8 buf (off + 5)) (\<lambda>pln.
        if hrd = 1 \<and> pro = ETH_TYPE_IP \<and> hln = 6 \<and> pln = 4 then
          rbind (rd16 buf (off + 6)) (\<lambda>op.
            let nf = (if op \<le> 0xff then upd_match (\<lambda>m. m\<lparr>arp_op := op\<rparr>) nf else nf) in
            if op = ARP_OP_REQUEST \<or> op = ARP_OP_REPLY then
              rbind (rdn 6 buf (off + 8)) (\<lambda>sha. rbind (rd32 buf (off + 14)) (\<lambda>spa.
              rbind (rdn 6 buf (off + 18)) (\<lambda>tha. rbind (rd32 buf (off + 24)) (\<lambda>tpa.
                Inr (upd_match (\<lambda>m. m\<lparr>arp_spa := spa, arp_tpa := tpa, arp_sha := sha,
                       arp_tha := tha\<rparr>) nf)))))
            else Inr nf)
        else Inr nf)))))"

definition parse_udp :: "bytes \<Rightarrow> netflow \<Rightarrow> nat \<Rightarrow> nat \<Rightarrow> netflow res" where
  "parse_udp buf nf off pkt_len =
     (if pkt_len < off + 8 then Inr nf
      else rbind (rd16 buf off) (\<lambda>src. rbind (rd16 buf (off + 2)) (\<lambda>dst.
        Inr (upd_match (\<lambda>m. m\<lparr>udp_src := src, udp_dst := dst\<rparr>) nf))))"

definition parse_tcp :: "bytes \<Rightarrow> netflow \<Rightarrow> nat \<Rightarrow> nat \<Rightarrow> netflow res" where
  "parse_tcp buf nf off pkt_len =
     (if pkt_len < off + 20 then Inr nf
      else rbind (rd16 buf off) (\<lambda>src. rbind (rd16 buf (off + 2)) (\<lambda>dst.
        rbind (rd16 buf (off + 12)) (\<lambda>ctl.
          Inr ((upd_match (\<lambda>m. m\<lparr>tcp_src := src, tcp_dst := dst\<rparr>) nf)
                 \<lparr>icmp_info := (icmp_info nf)\<lparr>echo_id := ctl\<rparr>\<rparr>)))))"

definition parse_icmp :: "bytes \<Rightarrow> netflow \<Rightarrow> nat \<Rightarrow> nat \<Rightarrow> netflow res" where
  "parse_icmp buf nf off pkt_len =
     (if pkt_len < off + 4 then Inr nf
      else rbind (rd8 buf off) (\<lambda>ty. rbind (rd8 buf (off + 1)) (\<lambda>code.
        let nf = upd_match (\<lambda>m. m\<lparr>icmpv4_code := code, icmpv4_type := ty\<rparr>) nf; off = off + 4 in
        if ty = ECHO \<or> ty = ECHO_REPLY then
          if pkt_len < off + 52 then Inr nf
          else rbind (rd16 buf off) (\<lambda>ident. rbind (rd16 buf (off + 2)) (\<lambda>sq.
            rbind (rdn 48 buf (off + 4)) (\<lambda>dt.
              Inr (nf\<lparr>icmp_info := \<lparr>echo_id = ident, echo_seq = sq, echo_data = dt\<rparr>\<rparr>))))
        else Inr nf)))"

definition parse_l4 :: "bytes \<Rightarrow> netflow \<Rightarrow> nat \<Rightarrow> nat \<Rightarrow> netflow res" where
  "parse_l4 buf nf off pkt_len =
     (let proto = ip_proto (nf_match nf) in
      if proto = IP_PROTO_UDP then parse_udp buf nf off pkt_len
      else if proto = IP_PROTO_TCP then parse_tcp buf nf off pkt_len
      else if proto = IP_PROTO_ICMPV4 then parse_icmp buf nf off pkt_len
      else Inr nf)"

text \<open>The fragment test keeps the more-fragments bit and the offset, in network order.\<close>

definition parse_ip :: "bytes \<Rightarrow> netflow \<Rightarrow> nat \<Rightarrow> nat \<Rightarrow> netflow res" where
  "parse_ip buf nf off pkt_len =
     (if pkt_len < off + 20 then Inr nf
      else
        rbind (rd8 buf (off + 1)) (\<lambda>tos. rbind (rd16 buf (off + 6)) (\<lambda>frag.
        rbind (rd8 buf (off + 9)) (\<lambda>proto. rbind (rd32 buf (off + 12)) (\<lambda>src.
        rbind (rd32 buf (off + 16)) (\<lambda>dst.
          let nf = upd_match (\<lambda>m. m\<lparr>ipv4_src := src, ipv4_dst := dst, ip_proto := proto,
                ip_ecn := tos AND 0x03, ip_dscp := drop_bit 2 tos\<rparr>) nf
          in if frag AND 0x3fff \<noteq> 0 then Inr nf else parse_l4 buf nf (off + 20) pkt_len))))))"

definition parse_l3 :: "bytes \<Rightarrow> netflow \<Rightarrow> nat \<Rightarrow> nat \<Rightarrow> netflow res" where
  "parse_l3 buf nf off pkt_len =
     (let ety = eth_type (nf_match nf) in
      if is_mpls_type ety then parse_mpls buf nf off pkt_len
      else if ety = ETH_TYPE_LLDP then parse_lldp buf nf off pkt_len
      else if ety = ETH_TYPE_ARP then parse_arp buf nf off pkt_len
      else if ety = ETH_TYPE_IP then parse_ip buf nf off pkt_len
      else parse_l4 buf nf off pkt_len)"

definition pkt_to_netflow :: "bytes \<Rightarrow> netflow \<Rightarrow> nat \<Rightarrow> netflow res" where
  "pkt_to_netflow buf nf pkt_len =
     rbind (rdn 6 buf 0) (\<lambda>dst. rbind (rdn 6 buf 6) (\<lambda>src. rbind (rd16 buf 12) (\<lambda>ety.
       let nf = upd_match (\<lambda>m. m\<lparr>eth_type := ety, eth_src := src, eth_dst := dst\<rparr>) nf in
       rbind (parse_first_vlan buf nf 14 pkt_len) (\<lambda>(nf, off, go).
         if \<not> go then Inr nf
         else rbind (parse_vlans buf nf off pkt_len) (\<lambda>(nf, off, go).
           if \<not> go then Inr nf else parse_l3 buf nf off pkt_len)))))"

subsection \<open>Hash, output ports, transmission time\<close>

definition netflow_calculate_hash :: "netflow \<Rightarrow> u32" where
  "netflow_calculate_hash nf =
     (let m = nf_match nf;
          data =
            (if eth_type m = ETH_TYPE_IP then
               let (src, dst) =
                     (if ip_proto m = IP_PROTO_TCP then (tcp_src m, tcp_dst m)
                      else if ip_proto m = IP_PROTO_UDP then (udp_src m, udp_dst m) else (0, 0))
               in mem32 (ipv4_src m) @ mem32 (ipv4_dst m) @ mem16 (ucast (ip_proto m)) @
                  mem16 src @ mem16 dst
             else replicate 14 0)
      in crc32 data 0)"

fun clean_out_ports_loop :: "u32 list \<Rightarrow> u32 list" where
  "clean_out_ports_loop [] = []"
| "clean_out_ports_loop (_ # ps) = clean_out_ports_loop ps"

definition netflow_clean_out_ports :: "netflow \<Rightarrow> netflow" where
  "netflow_clean_out_ports nf = nf\<lparr>out_ports := clean_out_ports_loop (out_ports nf)\<rparr>"

definition netflow_add_out_port :: "netflow \<Rightarrow> u32 \<Rightarrow> netflow" where
  "netflow_add_out_port nf port = nf\<lparr>out_ports := LL_APPEND (out_ports nf) port\<rparr>"

text \<open>The speed, in kilobits per second, is multiplied in 32 bits and divided before the flow's
  bits are.\<close>

definition netflow_update_send_time :: "netflow \<Rightarrow> u32 \<Rightarrow> netflow res" where
  "netflow_update_send_time nf port_speed =
     (let per_us = (port_speed * 1000) div 1000000 in
      if per_us = 0 then Inl Div_By_Zero
      else Inr (nf\<lparr>start_time := start_time nf + (byte_cnt nf * 8) div ucast per_us\<rparr>))"

subsection \<open>The tag stack stays in bounds\<close>

definition tags_ok :: "netflow \<Rightarrow> bool" where
  "tags_ok nf \<longleftrightarrow> length (level (tags nf)) = MAX_STACK_SIZE \<and> - 1 \<le> top (tags nf) \<and>
     top (tags nf) < int MAX_STACK_SIZE"

lemma tags_ok_init [simp]: "tags_ok netflow_init"
  by (simp add: tags_ok_def netflow_init_def MAX_STACK_SIZE_def)

lemma tags_of_updates [simp]:
  "tags (nf\<lparr>nf_match := m\<rparr>) = tags nf" "tags (upd_match u nf) = tags nf"
  "top (tags (set_tag nf i t)) = top (tags nf)" "top (tags (set_top nf j)) = j"
  "level (tags (set_top nf j)) = level (tags nf)"
  "level (tags (set_tag nf i t)) = (level (tags nf))[nat i := t]"
  "nf_match (set_tag nf i t) = nf_match nf" "nf_match (set_top nf j) = nf_match nf"
  by (simp_all add: set_tag_def set_top_def upd_match_def)

lemma tags_ok_match [simp]:
  "tags_ok (nf\<lparr>nf_match := m\<rparr>) = tags_ok nf" "tags_ok (upd_match u nf) = tags_ok nf"
  by (simp_all add: tags_ok_def)

lemma tags_ok_push_vlan [horse_inv]: "tags_ok nf \<Longrightarrow> tags_ok (netflow_push_vlan nf ety)"
  by (simp add: netflow_push_vlan_def tags_ok_def Let_def)

lemma tags_ok_push_mpls [horse_inv]: "tags_ok nf \<Longrightarrow> tags_ok (netflow_push_mpls nf ety)"
  by (simp add: netflow_push_mpls_def tags_ok_def Let_def)

lemma tags_ok_pop_vlan [horse_inv]: "tags_ok nf \<Longrightarrow> tags_ok (netflow_pop_vlan nf)"
  by (auto simp: netflow_pop_vlan_def tags_ok_def Let_def netflow_is_vlan_tagged_def STACK_EMPTY_def)

lemma tags_ok_pop_mpls [horse_inv]: "tags_ok nf \<Longrightarrow> tags_ok (netflow_pop_mpls nf ety)"
  by (auto simp: netflow_pop_mpls_def tags_ok_def Let_def)

lemma tag_at_updates [simp]:
  "tag_at (nf\<lparr>nf_match := m\<rparr>) i = tag_at nf i" "tag_at (set_top nf j) i = tag_at nf i"
  by (simp_all add: tag_at_def)

lemma tag_at_set_tag:
  "nat j < length (level (tags nf)) \<Longrightarrow> tag_at (set_tag nf j t) i = (if nat i = nat j then t else tag_at nf i)"
  by (auto simp: tag_at_def nth_list_update)

lemma bit_halves:
  "bit (0xffff0000 :: int) n \<longleftrightarrow> 16 \<le> n \<and> n < 32" "bit (0xffff :: int) n \<longleftrightarrow> n < 16"
proof -
  have hi: "(0xffff0000 :: int) = push_bit 16 (mask 16)" and lo: "(0xffff :: int) = mask 16"
    by (simp_all add: mask_eq_exp_minus_1)
  show "bit (0xffff0000 :: int) n \<longleftrightarrow> 16 \<le> n \<and> n < 32" "bit (0xffff :: int) n \<longleftrightarrow> n < 16"
    unfolding hi lo bit_push_bit_iff bit_mask_iff by auto
qed

lemma vlan_members [simp]:
  "vlan_tag (set_vlan_tag v t) = v" "vlan_tag (set_vlan_ethertype e t) = vlan_tag t"
  "vlan_ethertype (set_vlan_ethertype e t) = e"
  by (rule bit_word_eqI, force simp: vlan_tag_def vlan_ethertype_def set_vlan_tag_def
      set_vlan_ethertype_def bit_simps bit_halves dest: bit_imp_le_length)+

lemma t_type_members [simp]:
  "t_type (set_vlan_ethertype e t) = t_type t" "t_type (set_vlan_tag v t) = t_type t"
  "t_type (set_mpls_fields f t) = t_type t"
  by (simp_all add: set_vlan_ethertype_def set_vlan_tag_def set_mpls_fields_def)

lemma push_vlan_pushed:
  assumes "tags_ok nf" "top (tags nf) < 7" "is_vlan_type ety"
  defines "nf' \<equiv> netflow_push_vlan nf ety"
  shows "top (tags nf') = top (tags nf) + 1" "netflow_is_vlan_tagged nf'" "nf_match nf' = nf_match nf"
    and "netflow_is_vlan_tagged nf \<Longrightarrow>
      vlan_tag (tag_at nf' (top (tags nf'))) = vlan_tag (tag_at nf (top (tags nf)))"
    and "\<And>i. 0 \<le> i \<Longrightarrow> i \<le> top (tags nf) \<Longrightarrow> tag_at nf' i = tag_at nf i"
proof -
  have len: "length (level (tags nf)) = 8" and lo: "- 1 \<le> top (tags nf)"
    using assms(1) by (simp_all add: tags_ok_def MAX_STACK_SIZE_def)
  then have i: "nat (top (tags nf) + 1) < 8"
    using assms(2) by simp
  show "top (tags nf') = top (tags nf) + 1" "nf_match nf' = nf_match nf"
    using assms(2,3) by (simp_all add: nf'_def netflow_push_vlan_def MAX_STACK_SIZE_def Let_def)
  show "netflow_is_vlan_tagged nf'"
    using assms(2,3) lo i len
    by (simp add: nf'_def netflow_push_vlan_def MAX_STACK_SIZE_def Let_def netflow_is_vlan_tagged_def
        tag_at_set_tag STACK_EMPTY_def)
  show "vlan_tag (tag_at nf' (top (tags nf'))) = vlan_tag (tag_at nf (top (tags nf)))"
    if "netflow_is_vlan_tagged nf"
    using that assms(2,3) i len
    by (simp add: nf'_def netflow_push_vlan_def MAX_STACK_SIZE_def Let_def netflow_is_vlan_tagged_def
        tag_at_set_tag)
  show "tag_at nf' i = tag_at nf i" if "0 \<le> i" "i \<le> top (tags nf)" for i
    using that assms(2,3) i len
    by (simp add: nf'_def netflow_push_vlan_def MAX_STACK_SIZE_def Let_def tag_at_set_tag)
qed

lemma pop_vlan_popped:
  assumes "tags_ok nf" "netflow_is_vlan_tagged nf"
  defines "nf' \<equiv> netflow_pop_vlan nf"
  shows "top (tags nf') = top (tags nf) - 1"
    and "\<And>i. 0 \<le> i \<Longrightarrow> i < top (tags nf) \<Longrightarrow> tag_at nf' i = tag_at nf i"
    and "nf_match nf' = (nf_match nf)
      \<lparr>vlan_id := (if netflow_is_vlan_tagged nf' then vlan_tag (tag_at nf' (top (tags nf'))) AND VLAN_VID_MASK else 0),
       vlan_pcp := (if netflow_is_vlan_tagged nf'
         then ucast (drop_bit 13 (vlan_tag (tag_at nf' (top (tags nf'))) AND VLAN_PCP_MASK)) else 0)\<rparr>"
proof -
  have len: "length (level (tags nf)) = 8" and lo: "0 \<le> top (tags nf)" and hi: "nat (top (tags nf)) < 8"
    using assms by (auto simp: tags_ok_def MAX_STACK_SIZE_def netflow_is_vlan_tagged_def STACK_EMPTY_def)
  show "top (tags nf') = top (tags nf) - 1"
    using assms(2) by (simp add: nf'_def netflow_pop_vlan_def Let_def)
  show "tag_at nf' i = tag_at nf i" if "0 \<le> i" "i < top (tags nf)" for i
    using that assms(2) len hi by (simp add: nf'_def netflow_pop_vlan_def Let_def tag_at_set_tag)
  show "nf_match nf' = (nf_match nf)
      \<lparr>vlan_id := (if netflow_is_vlan_tagged nf' then vlan_tag (tag_at nf' (top (tags nf'))) AND VLAN_VID_MASK else 0),
       vlan_pcp := (if netflow_is_vlan_tagged nf'
         then ucast (drop_bit 13 (vlan_tag (tag_at nf' (top (tags nf'))) AND VLAN_PCP_MASK)) else 0)\<rparr>"
    using assms(2)
    by (simp add: nf'_def netflow_pop_vlan_def Let_def netflow_is_vlan_tagged_def)
qed

subsection \<open>Parsing stays in bounds exactly when the tags fit\<close>

lemma rd_ok:
  "i < length buf \<Longrightarrow> rd8 buf i = Inr (buf ! i)"
  "i + 2 \<le> length buf \<Longrightarrow> rd16 buf i = Inr (get16 (buf ! i) (buf ! (i + 1)))"
  "i + 4 \<le> length buf \<Longrightarrow>
     rd32 buf i = Inr (get32 (buf ! i) (buf ! (i + 1)) (buf ! (i + 2)) (buf ! (i + 3)))"
  "i + n \<le> length buf \<Longrightarrow> rdn n buf i = Inr (take n (drop i buf))"
  by (simp_all add: rd8_def arr_get_def rd16_def rd32_def rdn_def)

text \<open>The number of VLAN headers the parser takes from an offset on.\<close>

function vlan_count :: "bytes \<Rightarrow> nat \<Rightarrow> nat \<Rightarrow> u16 \<Rightarrow> nat" where
  "vlan_count buf off pkt_len ety =
     (if is_vlan_type ety \<and> off + 4 \<le> pkt_len
      then Suc (vlan_count buf (off + 4) pkt_len (get16 (buf ! off) (buf ! (off + 1)))) else 0)"
  by pat_completeness auto
termination
  by (relation "measure (\<lambda>(buf, off, pkt_len, ety). pkt_len - off)") auto

declare vlan_count.simps [simp del]

lemma push_tag_ok:
  assumes "tags_ok nf"
  shows "push_tag nf ety raw =
    (if top (tags nf) < 7
     then Inr (nf\<lparr>tags := \<lparr>level = (level (tags nf))[nat (top (tags nf) + 1) := \<lparr>t_type = ety, t_union = raw\<rparr>],
            top = top (tags nf) + 1\<rparr>\<rparr>)
     else Inl Out_Of_Bounds)"
  using assms by (auto simp: push_tag_def tags_ok_def MAX_STACK_SIZE_def Let_def arr_set_def)

lemma push_tag_result:
  assumes "tags_ok nf" "push_tag nf ety raw = Inr nf'"
  shows "tags_ok nf'" "top (tags nf') = top (tags nf) + 1" "nf_match nf' = nf_match nf"
  using assms by (auto simp: push_tag_ok tags_ok_def MAX_STACK_SIZE_def split: if_splits)

lemma rd_vlan_ok:
  "off + 4 \<le> length buf \<Longrightarrow>
     \<exists>tg raw. rd_vlan buf off = Inr (get16 (buf ! off) (buf ! (off + 1)), tg, raw)"
  by (simp add: rd_vlan_def rd_ok)

lemma parse_vlans_total:
  assumes "tags_ok nf" "pkt_len \<le> length buf" "off \<le> pkt_len"
  shows "if top (tags nf) + int (vlan_count buf off pkt_len (eth_type (nf_match nf))) < 8
    then \<exists>nf' off' go. parse_vlans buf nf off pkt_len = Inr (nf', off', go) \<and> tags_ok nf' \<and> off' \<le> pkt_len
    else parse_vlans buf nf off pkt_len = Inl Out_Of_Bounds"
  using assms
proof (induction buf nf off pkt_len rule: parse_vlans.induct)
  case (1 buf nf off pkt_len)
  let ?ety = "eth_type (nf_match nf)"
  have bounds: "top (tags nf) < 8"
    using 1(2) by (simp add: tags_ok_def MAX_STACK_SIZE_def)
  show ?case
  proof (cases "is_vlan_type ?ety \<and> off + 4 \<le> pkt_len")
    case True
    let ?ety' = "get16 (buf ! off) (buf ! (off + 1))"
    let ?nf = "upd_match (\<lambda>m. m\<lparr>eth_type := ?ety'\<rparr>) nf"
    obtain tg raw where rd: "rd_vlan buf off = Inr (?ety', tg, raw)"
      using rd_vlan_ok [of off buf] 1(3) True by auto
    have count: "vlan_count buf off pkt_len ?ety = Suc (vlan_count buf (off + 4) pkt_len ?ety')"
      using True by (simp add: vlan_count.simps [of buf off])
    have step: "parse_vlans buf nf off pkt_len =
        (case push_tag ?nf ?ety' raw of Inl e \<Rightarrow> Inl e | Inr nf \<Rightarrow> parse_vlans buf nf (off + 4) pkt_len)"
      using True rd bounds by (simp add: parse_vlans.simps [of buf nf] MAX_STACK_SIZE_def Let_def)
    show ?thesis
    proof (cases "push_tag ?nf ?ety' raw")
      case (Inl e)
      then have "e = Out_Of_Bounds" "7 \<le> top (tags nf)"
        using push_tag_ok [of ?nf ?ety' raw] 1(2) by (auto split: if_splits)
      then show ?thesis
        using Inl by (simp add: step count)
    next
      case (Inr nf')
      note r = push_tag_result [OF _ Inr]
      have "eth_type (nf_match nf') = ?ety'" "top (tags nf') = top (tags nf) + 1" "tags_ok nf'"
        using r 1(2) by (simp_all add: upd_match_def)
      then show ?thesis
        using 1(1) [OF _ _ rd refl refl refl _ Inr] 1(3) True bounds Inr
        by (simp add: step count MAX_STACK_SIZE_def algebra_simps split: if_splits)
    qed
  next
    case False
    then show ?thesis
      using bounds 1(2,4) by (auto simp: parse_vlans.simps [of buf nf] vlan_count.simps [of buf off])
  qed
qed

lemma parse_l4_total:
  assumes "off \<le> pkt_len" "pkt_len \<le> length buf"
  shows "\<exists>nf'. parse_l4 buf nf off pkt_len = Inr nf' \<and> tags nf' = tags nf"
  using assms
  by (auto simp: parse_l4_def parse_udp_def parse_tcp_def parse_icmp_def rd_ok Let_def upd_match_def)

lemma parse_l3_total:
  assumes "off \<le> pkt_len" "pkt_len \<le> length buf"
  shows "\<exists>nf'. parse_l3 buf nf off pkt_len = Inr nf' \<and> tags nf' = tags nf"
proof -
  have "unat (word_of_int (int pkt_len - int off) :: u16) \<le> pkt_len - off"
    using assms(1) by (simp add: unat_word_ariths of_nat_diff [symmetric] unat_of_nat take_bit_nat_less_eq_self
        flip: of_nat_diff)
  then have lldp: "\<exists>nf'. parse_lldp buf nf off pkt_len = Inr nf' \<and> tags nf' = tags nf"
    using assms by (simp add: parse_lldp_def Let_def rd_ok)
  have ip: "\<exists>nf'. parse_ip buf nf off pkt_len = Inr nf' \<and> tags nf' = tags nf"
    using assms parse_l4_total [of "off + 20" pkt_len buf]
    by (fastforce simp: parse_ip_def rd_ok Let_def upd_match_def)
  have arp: "\<exists>nf'. parse_arp buf nf off pkt_len = Inr nf' \<and> tags nf' = tags nf"
    using assms by (auto simp: parse_arp_def rd_ok Let_def upd_match_def)
  have mpls: "\<exists>nf'. parse_mpls buf nf off pkt_len = Inr nf' \<and> tags nf' = tags nf"
    using assms by (auto simp: parse_mpls_def rd_ok upd_match_def)
  show ?thesis
    using lldp ip arp mpls parse_l4_total [OF assms] by (simp add: parse_l3_def Let_def)
qed

lemma parse_first_vlan_total:
  assumes "tags_ok nf" "off \<le> pkt_len" "pkt_len \<le> length buf"
  defines "ety \<equiv> eth_type (nf_match nf)"
  shows "case parse_first_vlan buf nf off pkt_len of
      Inl e \<Rightarrow> e = Out_Of_Bounds \<and> is_vlan_type ety \<and> off + 4 \<le> pkt_len \<and> top (tags nf) = 7
    | Inr (nf', off', go) \<Rightarrow> tags_ok nf' \<and> off' \<le> pkt_len \<and>
        top (tags nf') + int (vlan_count buf off' pkt_len (eth_type (nf_match nf'))) =
        top (tags nf) + int (vlan_count buf off pkt_len ety) \<and>
        (\<not> go \<longrightarrow> vlan_count buf off' pkt_len (eth_type (nf_match nf')) = 0)"
proof (cases "is_vlan_type ety \<and> off + 4 \<le> pkt_len")
  case True
  obtain tg raw where rd: "rd_vlan buf off = Inr (get16 (buf ! off) (buf ! (off + 1)), tg, raw)"
    using rd_vlan_ok [of off buf] True assms(3) by auto
  show ?thesis
    using True assms(1) rd
    by (auto simp: parse_first_vlan_def ety_def Let_def push_tag_ok upd_match_def vlan_count.simps [of buf off]
        tags_ok_def MAX_STACK_SIZE_def)
next
  case False
  then show ?thesis
    using assms by (auto simp: parse_first_vlan_def vlan_count.simps [of buf off])
qed



subsection \<open>Round trip through a packet\<close>

lemma length6E:
  assumes "length xs = 6"
  obtains a b c d e f where "xs = [a, b, c, d, e, f]"
  using assms by (auto simp: numeral_eq_Suc length_Suc_conv)

lemma pkt_to_netflow_l3:
  assumes "length dst = 6" "length src = 6" "\<not> is_vlan_type ety" "pkt_len = 14 + length rest"
  shows "pkt_to_netflow (dst @ src @ put16 ety @ rest) nf pkt_len =
    parse_l3 (dst @ src @ put16 ety @ rest)
      (upd_match (\<lambda>m. m\<lparr>eth_type := ety, eth_src := src, eth_dst := dst\<rparr>) nf) 14 pkt_len"
proof -
  let ?buf = "dst @ src @ put16 ety @ rest"
  have "rdn 6 ?buf 0 = Inr dst" "rdn 6 ?buf 6 = Inr src"
    using assms rdn_append [of "[]" 0 dst 6] rdn_append [of dst 6 src 6] by simp_all
  moreover have "rd16 ?buf 12 = Inr ety"
    using assms rd16_put16 [of "dst @ src" 12] by simp
  ultimately show ?thesis
    using assms by (simp add: pkt_to_netflow_def parse_first_vlan_def parse_vlans.simps upd_match_def)
qed

lemma arp_round_trip:
  assumes "length pre = 14" "length (arp_sha m) = 6" "length (arp_tha m) = 6" "arp_op m \<in> {1, 2}"
  shows "parse_arp (pre @ arp_to_pkt m) nf 14 42 =
    Inr (upd_match (\<lambda>k. k\<lparr>arp_op := arp_op m, arp_spa := arp_spa m, arp_tpa := arp_tpa m,
      arp_sha := arp_sha m, arp_tha := arp_tha m\<rparr>) nf)"
proof -
  let ?buf = "pre @ arp_to_pkt m"
  note defs = arp_to_pkt_def assms(1-3)
  have rd: "rd16 ?buf 14 = Inr 1" "rd16 ?buf 16 = Inr ETH_TYPE_IP" "rd16 ?buf 20 = Inr (arp_op m)"
      "rd32 ?buf 28 = Inr (arp_spa m)" "rd32 ?buf 38 = Inr (arp_tpa m)"
    using rd16_put16 [of pre 14] rd16_put16 [of "pre @ put16 1" 16]
      rd16_put16 [of "pre @ put16 1 @ put16 ETH_TYPE_IP @ [6, 4]" 20]
      rd32_put32 [of "pre @ put16 1 @ put16 ETH_TYPE_IP @ [6, 4] @ put16 (arp_op m) @ arp_sha m" 28]
      rd32_put32 [of "pre @ put16 1 @ put16 ETH_TYPE_IP @ [6, 4] @ put16 (arp_op m) @ arp_sha m @
        put32 (arp_spa m) @ arp_tha m" 38 _ "[]"]
    by (simp_all add: defs)
  moreover have "rd8 ?buf 18 = Inr 6" "rd8 ?buf 19 = Inr 4"
    by (simp_all add: rd_ok defs nth_append)
  moreover have "rdn 6 ?buf 22 = Inr (arp_sha m)" "rdn 6 ?buf 32 = Inr (arp_tha m)"
    using rdn_append [of "pre @ put16 1 @ put16 ETH_TYPE_IP @ [6, 4] @ put16 (arp_op m)" 22 "arp_sha m" 6]
      rdn_append [of "pre @ put16 1 @ put16 ETH_TYPE_IP @ [6, 4] @ put16 (arp_op m) @ arp_sha m @
        put32 (arp_spa m)" 32 "arp_tha m" 6]
    by (simp_all add: defs)
  ultimately show ?thesis
    using assms(4) by (auto simp: parse_arp_def Let_def ARP_OP_REQUEST_def ARP_OP_REPLY_def upd_match_def)
qed

text \<open>The IPv4 header as \<open>netflow_to_pkt\<close> leaves it, with the total length filled in.\<close>

definition ip_header_of :: "ofl_flow_key \<Rightarrow> u16 \<Rightarrow> bytes" where
  "ip_header_of m tlen = [0x45, push_bit 1 (ip_dscp m) OR ip_ecn m] @ put16 tlen @ [0, 0, 0, 0] @
     [0, ip_proto m] @ [0, 0] @ put32 (ipv4_src m) @ put32 (ipv4_dst m)"

lemma length_ip_header_of [simp]: "length (ip_header_of m tlen) = 20"
  by (simp add: ip_header_of_def)

lemma ip_header_written:
  assumes "length eth = 14"
  shows "put_at 16 (put16 tlen) (eth @ ip_to_pkt m @ l4) = eth @ ip_header_of m tlen @ l4"
  using assms by (simp add: put_at_def ip_to_pkt_def ip_header_of_def put16_def)

lemma ip_round_trip:
  fixes m :: ofl_flow_key
  assumes "length pre = 14" "pkt_len = 34 + length l4"
  defines "tos \<equiv> push_bit 1 (ip_dscp m) OR ip_ecn m"
  shows "parse_ip (pre @ ip_header_of m tlen @ l4) nf 14 pkt_len =
    parse_l4 (pre @ ip_header_of m tlen @ l4)
      (upd_match (\<lambda>k. k\<lparr>ipv4_src := ipv4_src m, ipv4_dst := ipv4_dst m, ip_proto := ip_proto m,
         ip_ecn := tos AND 3, ip_dscp := drop_bit 2 tos\<rparr>) nf) 34 pkt_len"
proof -
  let ?buf = "pre @ ip_header_of m tlen @ l4"
  let ?fixed = "pre @ [0x45, tos] @ put16 tlen"
  note defs = ip_header_of_def assms(1) tos_def
  have "rd8 ?buf 15 = Inr tos" "rd8 ?buf 23 = Inr (ip_proto m)" "rd16 ?buf 20 = Inr 0"
    by (simp_all add: rd_ok defs nth_append put16_def get16_def)
  moreover have "rd32 ?buf 26 = Inr (ipv4_src m)" "rd32 ?buf 30 = Inr (ipv4_dst m)"
    using rd32_put32 [of "?fixed @ [0, 0, 0, 0, 0, ip_proto m, 0, 0]" 26]
      rd32_put32 [of "?fixed @ [0, 0, 0, 0, 0, ip_proto m, 0, 0] @ put32 (ipv4_src m)" 30]
    by (simp_all add: defs)
  ultimately show ?thesis
    using assms(2) by (simp add: parse_ip_def)
qed

lemma tcp_round_trip:
  "length pre = 34 \<Longrightarrow> parse_tcp (pre @ put16 src @ put16 dst @ replicate 16 0) nf 34 54 =
     Inr ((upd_match (\<lambda>m. m\<lparr>tcp_src := src, tcp_dst := dst\<rparr>) nf)\<lparr>icmp_info := (icmp_info nf)\<lparr>echo_id := 0\<rparr>\<rparr>)"
  using rd16_put16 [of pre 34 src] rd16_put16 [of "pre @ put16 src" 36 dst]
  by (simp add: parse_tcp_def rd_ok(2) [of 46] nth_append get16_def)

lemma udp_round_trip:
  "length pre = 34 \<Longrightarrow> parse_udp (pre @ put16 src @ put16 dst @ rest) nf 34 (38 + length rest) =
     Inr (if 4 \<le> length rest then upd_match (\<lambda>m. m\<lparr>udp_src := src, udp_dst := dst\<rparr>) nf else nf)"
  using rd16_put16 [of pre 34 src] rd16_put16 [of "pre @ put16 src" 36 dst]
  by (simp add: parse_udp_def)

lemma icmp_round_trip:
  assumes "length pre = 34" "ty \<noteq> ECHO" "ty \<noteq> ECHO_REPLY"
  shows "parse_icmp (pre @ [ty, code, 0, 0]) nf 34 38 =
    Inr (upd_match (\<lambda>m. m\<lparr>icmpv4_code := code, icmpv4_type := ty\<rparr>) nf)"
  using assms by (simp add: parse_icmp_def rd_ok nth_append)

lemma icmp_echo_round_trip:
  assumes "length pre = 34" "ty = ECHO \<or> ty = ECHO_REPLY" "length dt = 48"
  shows "parse_icmp (pre @ [ty, code, 0, 0] @ put16 ident @ put16 sq @ dt) nf 34 90 =
    Inr ((upd_match (\<lambda>m. m\<lparr>icmpv4_code := code, icmpv4_type := ty\<rparr>) nf)
      \<lparr>icmp_info := \<lparr>echo_id = ident, echo_seq = sq, echo_data = dt\<rparr>\<rparr>)"
proof -
  let ?buf = "pre @ [ty, code, 0, 0] @ put16 ident @ put16 sq @ dt"
  have "rd16 ?buf 38 = Inr ident" "rd16 ?buf 40 = Inr sq" "rdn 48 ?buf 42 = Inr dt"
    using rd16_put16 [of "pre @ [ty, code, 0, 0]" 38 ident]
      rd16_put16 [of "pre @ [ty, code, 0, 0] @ put16 ident" 40 sq]
      rdn_append [of "pre @ [ty, code, 0, 0] @ put16 ident @ put16 sq" 42 dt 48 "[]"] assms(1,3)
    by simp_all
  moreover have "rd8 ?buf 34 = Inr ty" "rd8 ?buf 35 = Inr code"
    using assms(1) by (simp_all add: rd_ok nth_append)
  ultimately show ?thesis
    using assms(2) by (simp add: parse_icmp_def Let_def)
qed

text \<open>What the packet carries of the transport header.\<close>

definition l4_carried :: "netflow \<Rightarrow> netflow \<Rightarrow> bool" where
  "l4_carried nf r \<longleftrightarrow>
     (let m = nf_match nf; k = nf_match r in
      (ip_proto m = IP_PROTO_TCP \<longrightarrow> tcp_src k = tcp_src m \<and> tcp_dst k = tcp_dst m) \<and>
      (ip_proto m = IP_PROTO_UDP \<longrightarrow> udp_src k = udp_src m \<and> udp_dst k = udp_dst m) \<and>
      (ip_proto m = IP_PROTO_ICMPV4 \<longrightarrow>
         icmpv4_type k = icmpv4_type m \<and> icmpv4_code k = icmpv4_code m \<and>
         (icmpv4_type m = ECHO \<or> icmpv4_type m = ECHO_REPLY \<longrightarrow> icmp_info r = icmp_info nf)))"

definition l3_fields :: "ofl_flow_key \<Rightarrow> bytes \<times> bytes \<times> u16 \<times> u8 \<times> u32 \<times> u32 \<times> u8 \<times> u8" where
  "l3_fields m = (eth_dst m, eth_src m, eth_type m, ip_proto m, ipv4_src m, ipv4_dst m, ip_dscp m, ip_ecn m)"

lemma l4_round_trip:
  assumes "length pre = 34" "ip_proto (nf_match nf') = ip_proto (nf_match nf)"
    and "length (echo_data (icmp_info nf)) = 48"
  shows "\<exists>r. parse_l4 (pre @ l4_to_pkt nf) nf' 34 (34 + length (l4_to_pkt nf)) = Inr r \<and>
    l3_fields (nf_match r) = l3_fields (nf_match nf') \<and> l4_carried nf r"
proof -
  let ?m = "nf_match nf"
  consider "ip_proto ?m = IP_PROTO_TCP" | "ip_proto ?m = IP_PROTO_UDP"
    | "ip_proto ?m = IP_PROTO_ICMPV4" "icmpv4_type ?m = ECHO \<or> icmpv4_type ?m = ECHO_REPLY"
    | "ip_proto ?m = IP_PROTO_ICMPV4" "icmpv4_type ?m \<noteq> ECHO" "icmpv4_type ?m \<noteq> ECHO_REPLY"
    | "ip_proto ?m \<notin> {IP_PROTO_TCP, IP_PROTO_UDP, IP_PROTO_ICMPV4}"
    by blast
  then show ?thesis
    using assms tcp_round_trip [OF assms(1)] udp_round_trip [OF assms(1), of _ _ "put16 8 @ [0, 0]"]
      icmp_echo_round_trip [OF assms(1) _ assms(3)] icmp_round_trip [OF assms(1)]
    by cases (simp_all add: parse_l4_def l4_to_pkt_def Let_def ip_protos l3_fields_def l4_carried_def upd_match_def)
qed

definition arp_fields :: "ofl_flow_key \<Rightarrow> bytes \<times> bytes \<times> u16 \<times> u16 \<times> u32 \<times> u32 \<times> bytes \<times> bytes" where
  "arp_fields m = (eth_dst m, eth_src m, eth_type m, arp_op m, arp_spa m, arp_tpa m, arp_sha m, arp_tha m)"

lemma tos_round_trip:
  "ecn \<le> 3 \<Longrightarrow> (ecn :: u8) AND 3 = ecn" "ecn \<le> 3 \<Longrightarrow> drop_bit 2 (ecn :: u8) = 0"
proof -
  assume "ecn \<le> 3"
  then have "unat ecn = 0 \<or> unat ecn = 1 \<or> unat ecn = 2 \<or> unat ecn = 3"
    by (auto simp: word_le_nat_alt)
  then have "ecn \<in> {0, 1, 2, 3}"
    by (auto simp: word_unat_eq_iff)
  then show "ecn AND 3 = ecn" "drop_bit 2 ecn = 0"
    by auto
qed

lemma ip_packet_round_trip:
  assumes "wf_key (nf_match nf)" "tags_to_pkt nf = []" "length (echo_data (icmp_info nf)) = 48"
    and "eth_type (nf_match nf) = ETH_TYPE_IP" "ip_dscp (nf_match nf) = 0" "ip_ecn (nf_match nf) \<le> 3"
  shows "\<exists>r. pkt_to_netflow (netflow_to_pkt nf) nf0 (length (netflow_to_pkt nf)) = Inr r \<and>
    l3_fields (nf_match r) = l3_fields (nf_match nf) \<and> l4_carried nf r"
proof -
  let ?m = "nf_match nf" and ?l4 = "l4_to_pkt nf"
  let ?hdr = "ip_header_of ?m (word_of_nat (20 + length ?l4))"
  have len: "length (eth_dst ?m) = 6" "length (eth_src ?m) = 6" "length (eth_to_pkt ?m) = 14"
    using assms(1) by (simp_all add: wf_key_def ETH_LEN_def eth_to_pkt_def)
  have pkt: "netflow_to_pkt nf = eth_to_pkt ?m @ ?hdr @ ?l4"
    using assms(2,4) ip_header_written [OF len(3)] len
    by (simp add: netflow_to_pkt_def Let_def eth_types)
  have l3: "pkt_to_netflow (netflow_to_pkt nf) nf0 (length (netflow_to_pkt nf)) =
      parse_ip (netflow_to_pkt nf) (upd_match (\<lambda>k. k\<lparr>eth_type := ETH_TYPE_IP, eth_src := eth_src ?m,
        eth_dst := eth_dst ?m\<rparr>) nf0) 14 (34 + length ?l4)"
    using pkt_to_netflow_l3 [OF len(1,2), of ETH_TYPE_IP "34 + length ?l4" "?hdr @ ?l4" nf0] len(1,2) assms(4)
    by (simp add: pkt eth_to_pkt_def is_vlan_type_def is_mpls_type_def eth_types parse_l3_def upd_match_def)
  define nf1 where "nf1 = upd_match (\<lambda>k. k\<lparr>ipv4_src := ipv4_src ?m, ipv4_dst := ipv4_dst ?m,
      ip_proto := ip_proto ?m, ip_ecn := ip_ecn ?m, ip_dscp := 0\<rparr>)
    (upd_match (\<lambda>k. k\<lparr>eth_type := ETH_TYPE_IP, eth_src := eth_src ?m, eth_dst := eth_dst ?m\<rparr>) nf0)"
  have "parse_ip (netflow_to_pkt nf) (upd_match (\<lambda>k. k\<lparr>eth_type := ETH_TYPE_IP, eth_src := eth_src ?m,
        eth_dst := eth_dst ?m\<rparr>) nf0) 14 (34 + length ?l4) =
      parse_l4 ((eth_to_pkt ?m @ ?hdr) @ ?l4) nf1 34 (34 + length ?l4)"
    using ip_round_trip [OF len(3) refl, of ?m] assms(5,6) by (simp add: pkt nf1_def tos_round_trip)
  moreover have "l3_fields (nf_match nf1) = l3_fields ?m" "ip_proto (nf_match nf1) = ip_proto ?m"
    using assms(4,5) by (simp_all add: nf1_def upd_match_def l3_fields_def)
  ultimately show ?thesis
    using l4_round_trip [of "eth_to_pkt ?m @ ?hdr" nf1 nf] assms(3) len(3) by (simp add: l3)
qed

lemma arp_packet_round_trip:
  assumes "wf_key (nf_match nf)" "tags_to_pkt nf = []"
    and "eth_type (nf_match nf) = ETH_TYPE_ARP" "arp_op (nf_match nf) \<in> {1, 2}"
  shows "\<exists>r. pkt_to_netflow (netflow_to_pkt nf) nf0 (length (netflow_to_pkt nf)) = Inr r \<and>
    arp_fields (nf_match r) = arp_fields (nf_match nf)"
proof -
  let ?m = "nf_match nf"
  have len: "length (eth_dst ?m) = 6" "length (eth_src ?m) = 6" "length (arp_sha ?m) = 6"
      "length (arp_tha ?m) = 6" "length (eth_to_pkt ?m) = 14" "length (arp_to_pkt ?m) = 28"
    using assms(1) by (simp_all add: wf_key_def ETH_LEN_def eth_to_pkt_def arp_to_pkt_def)
  have pkt: "netflow_to_pkt nf = eth_to_pkt ?m @ arp_to_pkt ?m"
    using assms(2,3) by (simp add: netflow_to_pkt_def Let_def eth_types)
  have "pkt_to_netflow (netflow_to_pkt nf) nf0 (length (netflow_to_pkt nf)) =
      parse_arp (netflow_to_pkt nf) (upd_match (\<lambda>k. k\<lparr>eth_type := ETH_TYPE_ARP, eth_src := eth_src ?m,
        eth_dst := eth_dst ?m\<rparr>) nf0) 14 42"
    using pkt_to_netflow_l3 [OF len(1,2), of ETH_TYPE_ARP 42 "arp_to_pkt ?m" nf0] len(1,2,6) assms(3)
    by (simp add: pkt eth_to_pkt_def is_vlan_type_def is_mpls_type_def eth_types parse_l3_def upd_match_def)
  then show ?thesis
    using arp_round_trip [OF len(5,3,4) assms(4)] assms(3)
    by (simp add: pkt arp_fields_def upd_match_def)
qed


text \<open>The witness takes an ICMP echo request from 10.0.0.1 to 10.0.0.2.\<close>

definition echo_request :: netflow where
  "echo_request = netflow_init
     \<lparr>nf_match := zero_key\<lparr>eth_type := ETH_TYPE_IP, ip_proto := IP_PROTO_ICMPV4, icmpv4_type := ECHO,
        ipv4_src := 0x0a000001, ipv4_dst := 0x0a000002\<rparr>,
      icmp_info := \<lparr>echo_id = 7, echo_seq = 1, echo_data = replicate 48 0xab\<rparr>\<rparr>"


text \<open>The DSCP is shifted by one place when written and by two when read.\<close>

lemma dscp_not_carried:
  "\<exists>r. pkt_to_netflow (netflow_to_pkt (upd_match (ip_dscp_update (\<lambda>_. 8)) echo_request)) netflow_init 90 = Inr r \<and>
     ip_dscp (nf_match r) = 4"
proof -
  have "(case pkt_to_netflow (netflow_to_pkt (upd_match (ip_dscp_update (\<lambda>_. 8)) echo_request)) netflow_init 90 of
      Inl e \<Rightarrow> False | Inr r \<Rightarrow> ip_dscp (nf_match r) = 4)"
    by code_simp
  then show ?thesis
    by (auto split: sum.splits)
qed

subsection \<open>Pushing and popping\<close>

text \<open>Pushing a VLAN tag on a stack with room and popping it gives the tag stack back, every
  level below the top included, and leaves every field of the flow's key but the VLAN identifier
  and priority alone; these are set from the tag that is then on top.\<close>

theorem push_pop_vlan:
  assumes "tags_ok nf" "top (tags nf) < int MAX_STACK_SIZE - 1" "is_vlan_type ety"
  shows "tags_ok (netflow_push_vlan nf ety) \<and> netflow_is_vlan_tagged (netflow_push_vlan nf ety) \<and>
    tags_ok (netflow_pop_vlan (netflow_push_vlan nf ety)) \<and>
    take (nat (top (tags nf) + 1)) (level (tags (netflow_pop_vlan (netflow_push_vlan nf ety)))) =
      take (nat (top (tags nf) + 1)) (level (tags nf)) \<and>
    top (tags (netflow_pop_vlan (netflow_push_vlan nf ety))) = top (tags nf) \<and>
    nf_match (netflow_pop_vlan (netflow_push_vlan nf ety)) = (nf_match nf)
      \<lparr>vlan_id := (if netflow_is_vlan_tagged nf then vlan_tag (tag_at nf (top (tags nf))) AND VLAN_VID_MASK else 0),
       vlan_pcp := (if netflow_is_vlan_tagged nf
         then ucast (drop_bit 13 (vlan_tag (tag_at nf (top (tags nf))) AND VLAN_PCP_MASK)) else 0)\<rparr>"
proof -
  let ?p = "netflow_push_vlan nf ety" and ?t = "top (tags nf)"
  let ?q = "netflow_pop_vlan ?p"
  have room: "?t < 7"
    using assms(2) by (simp add: MAX_STACK_SIZE_def)
  note push = push_vlan_pushed [OF assms(1) room assms(3)]
  have ok: "tags_ok ?p"
    by (rule tags_ok_push_vlan [OF assms(1)])
  note pop = pop_vlan_popped [OF ok push(2)]
  have okq: "tags_ok ?q"
    by (rule tags_ok_pop_vlan [OF ok])
  have at: "tag_at ?q i = tag_at nf i" if "0 \<le> i" "i \<le> ?t" for i
    using pop(2) [of i] push(1) push(5) [of i] that by simp
  have len: "length (level (tags ?q)) = 8" "length (level (tags nf)) = 8" and lo: "- 1 \<le> ?t"
    using okq assms(1) by (simp_all add: tags_ok_def MAX_STACK_SIZE_def)
  have levels: "take (nat (?t + 1)) (level (tags ?q)) = take (nat (?t + 1)) (level (tags nf))"
  proof (rule nth_equalityI)
    fix j assume "j < length (take (nat (?t + 1)) (level (tags ?q)))"
    then have "int j \<le> ?t" "j < nat (?t + 1)"
      by auto
    then show "take (nat (?t + 1)) (level (tags ?q)) ! j = take (nat (?t + 1)) (level (tags nf)) ! j"
      using at [of "int j"] by (simp add: tag_at_def)
  qed (simp add: len)
  have tagged: "netflow_is_vlan_tagged ?q = netflow_is_vlan_tagged nf"
    using pop(1) push(1) at [of ?t] lo by (auto simp: netflow_is_vlan_tagged_def STACK_EMPTY_def)
  have "vlan_tag (tag_at ?q ?t) = vlan_tag (tag_at nf ?t)" if "netflow_is_vlan_tagged nf"
    using that at [of ?t] lo by (auto simp: netflow_is_vlan_tagged_def STACK_EMPTY_def)
  then show ?thesis
    using ok okq push(1-3) pop(1,3) levels tagged by simp
qed

text \<open>The witness pushes an 802.1ad tag on a new flow.\<close>

theorem push_pop_vlan_witness:
  "netflow_is_vlan_tagged (netflow_push_vlan netflow_init ETH_TYPE_VLAN_QinQ) \<and>
   top (tags (netflow_pop_vlan (netflow_push_vlan netflow_init ETH_TYPE_VLAN_QinQ))) = 0"
  using push_pop_vlan [of netflow_init ETH_TYPE_VLAN_QinQ]
  by (simp add: netflow_init_def [THEN arg_cong [where f = "\<lambda>x. top (tags x)"]] is_vlan_type_def
      MAX_STACK_SIZE_def)

subsection \<open>Transmission time and hash\<close>

lemma update_send_time_defined:
  "netflow_update_send_time nf port_speed = Inl Div_By_Zero \<longleftrightarrow> unat (port_speed * 1000) < 1000000"
  by (auto simp: netflow_update_send_time_def Let_def word_unat_eq_iff unat_div)

lemma update_send_time_slow_port: "netflow_update_send_time nf 999 = Inl Div_By_Zero"
  by (simp add: netflow_update_send_time_def)

lemma clean_out_ports [simp]: "out_ports (netflow_clean_out_ports nf) = []"
proof -
  have "clean_out_ports_loop ps = []" for ps
    by (induction ps) simp_all
  then show ?thesis
    by (simp add: netflow_clean_out_ports_def)
qed

text \<open>The hash of an IPv4 flow depends on the addresses, the protocol and the ports alone, so the
  packets of a flow take the same path.\<close>

lemma calculate_hash_five_tuple:
  assumes "(\<lambda>m. (eth_type m, ipv4_src m, ipv4_dst m, ip_proto m, tcp_src m, tcp_dst m, udp_src m, udp_dst m)) (nf_match a) =
    (\<lambda>m. (eth_type m, ipv4_src m, ipv4_dst m, ip_proto m, tcp_src m, tcp_dst m, udp_src m, udp_dst m)) (nf_match b)"
  shows "netflow_calculate_hash a = netflow_calculate_hash b"
  using assms by (simp add: netflow_calculate_hash_def Let_def)

end
