(* ===== verification/Node.thy ===== *)
theory Node
  imports Netflow
begin

section \<open>Ports, buffers and nodes (net/port, net/buffer\_state, net/node, net/live\_flow)\<close>

text \<open>
  What every node of the simulated network has: a hash table of ports with counters and the load
  of their buffers, a name, and a small buffer of flows that wait for an ARP reply.  A C
  \<open>int\<close> is an integer in the range of 32 bits; a sum outside it is a signed overflow.  A name is
  the string before the NUL byte of its array.  The counter behind the node identifiers is a global
  variable, passed and returned.
\<close>

subsection \<open>Load of a buffer\<close>

record buffer_state =
  capacity :: int
  load :: int
  last_updated :: u64

definition INT_MAX :: int where "INT_MAX = 2 ^ 31 - 1"
definition INT_MIN :: int where "INT_MIN = - (2 ^ 31)"

text \<open>The conversion of a wider value to \<open>int\<close>.\<close>

definition to_int32 :: "int \<Rightarrow> int" where
  "to_int32 x = sint (word_of_int x :: u32)"

definition buffer_state_init :: buffer_state where
  "buffer_state_init = \<lparr>capacity = 0, load = 0, last_updated = 0\<rparr>"

definition buffer_state_update_capacity :: "buffer_state \<Rightarrow> int \<Rightarrow> buffer_state res" where
  "buffer_state_update_capacity ts bits =
     (let l = load ts + bits in
      if l < INT_MIN \<or> INT_MAX < l then Inl Signed_Overflow
      else if l < 0 then Inr (ts\<lparr>load := 0\<rparr>) else Inr (ts\<lparr>load := l\<rparr>))"

definition buffer_state_calculate_loss :: "buffer_state \<Rightarrow> u32 \<Rightarrow> int" where
  "buffer_state_calculate_loss ts bw =
     (let tot = capacity ts + uint bw in
      if load ts > tot then to_int32 (load ts - tot) else 0)"

subsection \<open>Ports\<close>

definition MAX_PORT_NAME :: nat where "MAX_PORT_NAME = 64"

definition PORT_DOWN :: u8 where "PORT_DOWN = 1"
definition PORT_UP :: u8 where "PORT_UP = 2"
definition PORT_NO_RECV :: u8 where "PORT_NO_RECV = 4"
definition PORT_NO_FWD :: u8 where "PORT_NO_FWD = 8"
definition PORT_LINK_DOWN :: u8 where "PORT_LINK_DOWN = 1"
definition PORT_BLOCKED :: u8 where "PORT_BLOCKED = 2"
definition PORT_LIVE :: u8 where "PORT_LIVE = 4"

record port_stats =
  rx_packets :: u64
  tx_packets :: u64
  tx_bytes :: u64
  rx_bytes :: u64

record ipv4_info =
  v4_addr :: u32
  v4_netmask :: u32
  v4_bcast :: "u32 option"

record ipv6_info =
  v6_addr :: bytes
  v6_netmask :: bytes

record port =
  port_id :: u32
  p_peer :: u32
  p_max_speed :: u32
  p_curr :: u32
  p_curr_speed :: u32
  p_advertised :: u32
  p_supported :: u32
  p_config :: u8
  p_state :: u8
  p_name :: string
  p_stats :: port_stats
  p_prev_stats :: port_stats
  p_eth_address :: bytes
  p_ipv4_addr :: "ipv4_info option"
  p_ipv6_addr :: "ipv6_info option"
  p_buffer_state :: buffer_state

definition zero_stats :: port_stats where
  "zero_stats = \<lparr>rx_packets = 0, tx_packets = 0, tx_bytes = 0, rx_bytes = 0\<rparr>"

definition port_new :: "u32 \<Rightarrow> bytes \<Rightarrow> u32 \<Rightarrow> u32 \<Rightarrow> port" where
  "port_new pid eth_addr speed curr_speed =
     \<lparr>port_id = pid, p_peer = 0, p_max_speed = speed, p_curr = 0, p_curr_speed = curr_speed,
      p_advertised = 0, p_supported = 0, p_config = 0 OR PORT_UP, p_state = 0 OR PORT_LIVE,
      p_name = [], p_stats = zero_stats, p_prev_stats = zero_stats,
      p_eth_address = take ETH_LEN eth_addr, p_ipv4_addr = None, p_ipv6_addr = None,
      p_buffer_state = buffer_state_init\<rparr>"

definition port_add_v4addr :: "port \<Rightarrow> u32 \<Rightarrow> u32 \<Rightarrow> port" where
  "port_add_v4addr p addr netmask =
     p\<lparr>p_ipv4_addr := Some \<lparr>v4_addr = addr, v4_netmask = netmask, v4_bcast = None\<rparr>\<rparr>"

definition port_add_v6addr :: "port \<Rightarrow> bytes \<Rightarrow> bytes \<Rightarrow> port" where
  "port_add_v6addr p addr netmask =
     p\<lparr>p_ipv6_addr := Some \<lparr>v6_addr = take IPV6_LEN addr, v6_netmask = take IPV6_LEN netmask\<rparr>\<rparr>"

definition port_set_name :: "port \<Rightarrow> string \<Rightarrow> port" where
  "port_set_name p name =
     (if length name + 1 \<le> MAX_PORT_NAME then p\<lparr>p_name := name\<rparr> else p)"

subsection \<open>Nodes\<close>

definition BUFFER_MAX :: int where "BUFFER_MAX = 3"
definition MAX_NODE_NAME :: nat where "MAX_NODE_NAME = 32"

definition DATAPATH :: u16 where "DATAPATH = 0"
definition ROUTER :: u16 where "ROUTER = 1"
definition L2_SWITCH :: u16 where "L2_SWITCH = 2"
definition HOST :: u16 where "HOST = 3"

text \<open>The slots of the buffer are uninitialised pointers at first.\<close>

record buffer =
  flows :: "netflow option list"
  tail :: int

record node =
  uuid :: u64
  node_name :: string
  ports :: "port list"
  ports_num :: u16
  node_type :: u16
  flow_buff :: buffer
  node_buffer_state :: buffer_state

definition node_set_name :: "node \<Rightarrow> string option \<Rightarrow> node \<times> bool" where
  "node_set_name n name =
     (case name of
        None \<Rightarrow> (n, False)
      | Some s \<Rightarrow>
          if min (length s) MAX_NODE_NAME = MAX_NODE_NAME then (n, False)
          else (n\<lparr>node_name := s\<rparr>, True))"

definition node_init :: "u64 \<Rightarrow> u16 \<Rightarrow> node \<times> u64" where
  "node_init current_uuid ty =
     (let current_uuid = current_uuid + 1 in
      (\<lparr>uuid = current_uuid, node_name = [], ports = [], ports_num = 0, node_type = ty,
        flow_buff = \<lparr>flows = replicate (nat BUFFER_MAX) None, tail = 0\<rparr>,
        node_buffer_state = buffer_state_init\<rparr>, current_uuid))"

definition node_destroy_ports :: "node \<Rightarrow> node" where
  "node_destroy_ports n = n\<lparr>ports := foldl (HASH_DEL port_id) (ports n) (map port_id (ports n))\<rparr>"

text \<open>Decimal digits, as \<open>printf\<close> writes an unsigned number.\<close>

fun dec_digits :: "nat \<Rightarrow> string" where
  "dec_digits n =
     (if n < 10 then [char_of (48 + n)] else dec_digits (n div 10) @ [char_of (48 + n mod 10)])"

declare dec_digits.simps [simp del]

definition port_name :: "string \<Rightarrow> u32 \<Rightarrow> string" where
  "port_name name pid = name @ ''-eth'' @ dec_digits (unat pid)"

text \<open>The name is first written into an array of \<open>MAX_NODE_NAME + 16\<close> bytes.\<close>

definition node_add_port :: "node \<Rightarrow> u32 \<Rightarrow> bytes \<Rightarrow> u32 \<Rightarrow> u32 \<Rightarrow> node res" where
  "node_add_port n pid eth_addr speed curr_speed =
     (let p = port_new pid eth_addr speed curr_speed; s = port_name (node_name n) pid in
      if MAX_NODE_NAME + 16 < length s + 1 then Inl Out_Of_Bounds
      else
        let p = p\<lparr>p_name := take (MAX_PORT_NAME - 1) s\<rparr>
        in Inr (n\<lparr>ports := HASH_ADD (ports n) p, ports_num := ports_num n + 1\<rparr>))"

definition node_port :: "node \<Rightarrow> u32 \<Rightarrow> port option" where
  "node_port n pid = HASH_FIND port_id (ports n) pid"

text \<open>A write through the pointer that \<open>node_port\<close> returns.\<close>

definition upd_port :: "node \<Rightarrow> u32 \<Rightarrow> (port \<Rightarrow> port) \<Rightarrow> node" where
  "upd_port n pid f = n\<lparr>ports := hash_update port_id (ports n) pid f\<rparr>"

definition node_add_tx_time :: "node \<Rightarrow> u32 \<Rightarrow> netflow \<Rightarrow> netflow res" where
  "node_add_tx_time n out_port nf =
     (case node_port n out_port of
        None \<Rightarrow> Inr nf
      | Some p \<Rightarrow> netflow_update_send_time nf (p_curr_speed p))"

definition up_and_live :: "port \<Rightarrow> bool" where
  "up_and_live p \<longleftrightarrow> p_config p AND PORT_UP \<noteq> 0 \<and> p_state p AND PORT_LIVE \<noteq> 0"

definition node_update_port_stats :: "node \<Rightarrow> netflow \<Rightarrow> u32 \<Rightarrow> node" where
  "node_update_port_stats n nf out_port =
     (case node_port n out_port of
        None \<Rightarrow> n
      | Some p \<Rightarrow>
          if up_and_live p then
            upd_port n out_port (\<lambda>p. p\<lparr>p_stats := (p_stats p)
              \<lparr>tx_packets := tx_packets (p_stats p) + pkt_cnt nf,
               tx_bytes := tx_bytes (p_stats p) + byte_cnt nf\<rparr>\<rparr>)
          else n)"

definition node_is_buffer_empty :: "node \<Rightarrow> bool" where
  "node_is_buffer_empty n \<longleftrightarrow> tail (flow_buff n) = 0"

definition node_flow_push :: "node \<Rightarrow> netflow \<Rightarrow> (node \<times> bool) res" where
  "node_flow_push n nf =
     (let b = flow_buff n in
      if tail b - (BUFFER_MAX - 1) = 0 then Inr (n, False)
      else
        let t = tail b + 1 in
        if t < 0 then Inl Out_Of_Bounds
        else rbind (arr_set (flows b) (nat t) (Some nf)) (\<lambda>fs.
          Inr (n\<lparr>flow_buff := \<lparr>flows = fs, tail = t\<rparr>\<rparr>, True)))"

definition node_flow_pop :: "node \<Rightarrow> (node \<times> netflow) res" where
  "node_flow_pop n =
     (let b = flow_buff n in
      if tail b < 0 then Inl Out_Of_Bounds
      else rbind (arr_get (flows b) (nat (tail b))) (\<lambda>slot.
        case slot of
          None \<Rightarrow> Inl Uninitialised
        | Some nf \<Rightarrow> Inr (n\<lparr>flow_buff := b\<lparr>tail := tail b - 1\<rparr>\<rparr>, nf)))"

text \<open>The loss is computed and discarded.\<close>

definition node_calculate_loss :: "node \<Rightarrow> netflow \<Rightarrow> u32 \<Rightarrow> node" where
  "node_calculate_loss n nf out_port =
     (case node_port n out_port of
        None \<Rightarrow> n
      | Some p \<Rightarrow> let _ = buffer_state_calculate_loss (node_buffer_state n) (p_curr_speed p) in n)"

definition node_update_port_capacity :: "node \<Rightarrow> int \<Rightarrow> u32 \<Rightarrow> node res" where
  "node_update_port_capacity n bits out_port =
     (case node_port n out_port of
        None \<Rightarrow> Inr n
      | Some p \<Rightarrow> rbind (buffer_state_update_capacity (p_buffer_state p) bits) (\<lambda>bs.
          Inr (upd_port n out_port (\<lambda>p. p\<lparr>p_buffer_state := bs\<rparr>))))"

definition node_calculate_port_loss :: "node \<Rightarrow> netflow \<Rightarrow> u32 \<Rightarrow> int" where
  "node_calculate_port_loss n nf out_port =
     (case node_port n out_port of
        None \<Rightarrow> 0
      | Some p \<Rightarrow> buffer_state_calculate_loss (p_buffer_state p) (p_curr_speed p))"

text \<open>A line of the statistics file: seconds, name, bytes sent and received since the last one.\<close>

type_synonym stats_line = "u64 \<times> string \<times> u64 \<times> u64"

fun write_stats_loop :: "u64 \<Rightarrow> port list \<Rightarrow> stats_line list \<times> port list" where
  "write_stats_loop t [] = ([], [])"
| "write_stats_loop t (p # ps) =
     (let tx_rate = tx_bytes (p_stats p) - tx_bytes (p_prev_stats p);
          rx_rate = rx_bytes (p_stats p) - rx_bytes (p_prev_stats p);
          p' = p\<lparr>p_prev_stats := (p_prev_stats p)
            \<lparr>tx_bytes := tx_bytes (p_stats p), rx_bytes := rx_bytes (p_stats p)\<rparr>\<rparr>;
          (ls, ps') = write_stats_loop t ps
      in ((t, p_name p, tx_rate, rx_rate) # ls, p' # ps'))"

definition node_write_stats :: "node \<Rightarrow> u64 \<Rightarrow> stats_line list \<times> node" where
  "node_write_stats n time =
     (let (ls, ps) = write_stats_loop (time div 1000000) (ports n) in (ls, n\<lparr>ports := ps\<rparr>))"

subsection \<open>Live flows\<close>

record live_flow =
  flow_id :: u64
  lf_node_id :: u64
  lf_flow :: netflow

definition live_flow_new :: "u64 \<Rightarrow> u64 \<Rightarrow> netflow \<Rightarrow> live_flow \<times> u64" where
  "live_flow_new next_flow_id node_id nf =
     (\<lparr>flow_id = next_flow_id, lf_node_id = node_id, lf_flow = nf\<rparr>, next_flow_id + 1)"

subsection \<open>Ports are found where they were\<close>

lemma node_port_upd_port:
  "(\<And>p. port_id (f p) = port_id p) \<Longrightarrow> node_port (upd_port n pid f) q =
    (if q = pid then map_option f (node_port n pid) else node_port n q)"
  by (simp add: node_port_def upd_port_def HASH_FIND_hash_update)

lemma upd_port_fields [simp]:
  "uuid (upd_port n pid f) = uuid n" "node_name (upd_port n pid f) = node_name n"
  "flow_buff (upd_port n pid f) = flow_buff n" "node_type (upd_port n pid f) = node_type n"
  by (simp_all add: upd_port_def)

lemma node_flow_push_port: "node_flow_push n nf = Inr (n', ok) \<Longrightarrow> node_port n' q = node_port n q"
  by (auto simp: node_flow_push_def node_port_def Let_def split: if_splits)

lemma node_flow_pop_port: "node_flow_pop n = Inr (n', nf) \<Longrightarrow> node_port n' q = node_port n q"
  by (auto simp: node_flow_pop_def node_port_def Let_def split: if_splits option.splits)

subsection \<open>A bounded stack\<close>

text \<open>The contract of the buffer of waiting flows: a stack of at most \<open>cap\<close> elements whose push
  reports whether there was room.\<close>

locale bounded_stack =
  fixes push :: "'s \<Rightarrow> 'a \<Rightarrow> ('s \<times> bool) res"
    and pop :: "'s \<Rightarrow> ('s \<times> 'a) res"
    and is_empty :: "'s \<Rightarrow> bool"
    and abs :: "'s \<Rightarrow> 'a list"
    and invar :: "'s \<Rightarrow> bool"
    and cap :: nat
  assumes push_room: "invar s \<Longrightarrow> length (abs s) < cap \<Longrightarrow>
      \<exists>s'. push s x = Inr (s', True) \<and> invar s' \<and> abs s' = x # abs s"
    and push_full: "invar s \<Longrightarrow> length (abs s) = cap \<Longrightarrow> push s x = Inr (s, False)"
    and pop_top: "invar s \<Longrightarrow> abs s = x # xs \<Longrightarrow> \<exists>s'. pop s = Inr (s', x) \<and> invar s' \<and> abs s' = xs"
    and is_empty: "invar s \<Longrightarrow> is_empty s \<longleftrightarrow> abs s = []"
    and bounded: "invar s \<Longrightarrow> length (abs s) \<le> cap"
begin

lemma push_total:
  "invar s \<Longrightarrow> \<exists>s' ok. push s x = Inr (s', ok) \<and> invar s' \<and> (ok \<longleftrightarrow> length (abs s) < cap) \<and>
     abs s' = (if ok then x # abs s else abs s)"
  using push_room [of s x] push_full [of s x] bounded [of s] by (cases "length (abs s) < cap") auto

lemma push_then_pop:
  assumes "invar s" "push s x = Inr (s', True)"
  shows "\<exists>s''. pop s' = Inr (s'', x) \<and> invar s'' \<and> abs s'' = abs s"
  using push_total [OF assms(1), of x] assms(2) pop_top by auto

fun push_all :: "'s \<Rightarrow> 'a list \<Rightarrow> 's res" where
  "push_all s [] = Inr s"
| "push_all s (x # xs) = rbind (push s x) (\<lambda>(s', _). push_all s' xs)"

fun pop_all :: "nat \<Rightarrow> 's \<Rightarrow> ('s \<times> 'a list) res" where
  "pop_all 0 s = Inr (s, [])"
| "pop_all (Suc k) s = rbind (pop s) (\<lambda>(s', x). rbind (pop_all k s') (\<lambda>(s'', xs). Inr (s'', x # xs)))"

lemma push_all_abs:
  assumes "invar s" "length (abs s) + length xs \<le> cap"
  shows "\<exists>s'. push_all s xs = Inr s' \<and> invar s' \<and> abs s' = rev xs @ abs s"
  using assms
proof (induction xs arbitrary: s)
  case (Cons x xs)
  obtain s1 where "push s x = Inr (s1, True)" "invar s1" "abs s1 = x # abs s"
    using push_room [of s x] Cons.prems by auto
  then show ?case
    using Cons.IH [of s1] Cons.prems by simp
qed simp

lemma pop_all_abs:
  assumes "invar s" "k \<le> length (abs s)"
  shows "\<exists>s'. pop_all k s = Inr (s', take k (abs s)) \<and> invar s' \<and> abs s' = drop k (abs s)"
  using assms
proof (induction k arbitrary: s)
  case (Suc k)
  obtain x xs where ab: "abs s = x # xs"
    using Suc.prems(2) by (cases "abs s") auto
  obtain s1 where s1: "pop s = Inr (s1, x)" "invar s1" "abs s1 = xs"
    using pop_top [OF Suc.prems(1) ab] by auto
  obtain s2 where "pop_all k s1 = Inr (s2, take k xs)" "invar s2" "abs s2 = drop k xs"
    using Suc.IH [OF s1(2)] s1(3) Suc.prems(2) ab by auto
  then show ?case
    using s1(1) ab by auto
qed simp

lemma last_in_first_out:
  assumes "invar s" "length (abs s) + length xs \<le> cap"
  shows "\<exists>s' s''. push_all s xs = Inr s' \<and> pop_all (length xs) s' = Inr (s'', rev xs) \<and> abs s'' = abs s"
proof -
  obtain s' where s': "push_all s xs = Inr s'" "invar s'" "abs s' = rev xs @ abs s"
    using push_all_abs [OF assms] by blast
  then show ?thesis
    using pop_all_abs [of s' "length xs"] by auto
qed

end

definition buff_inv :: "node \<Rightarrow> bool" where
  "buff_inv n \<longleftrightarrow>
     (let b = flow_buff n in
      length (flows b) = 3 \<and> 0 \<le> tail b \<and> tail b \<le> 2 \<and>
      None \<notin> set (take (nat (tail b)) (drop 1 (flows b))))"

definition waiting :: "node \<Rightarrow> netflow list" where
  "waiting n = rev (map the (take (nat (tail (flow_buff n))) (drop 1 (flows (flow_buff n)))))"

lemma three_slots:
  assumes "buff_inv n"
  obtains a b c where "flows (flow_buff n) = [a, b, c]"
  using assms by (auto simp: buff_inv_def Let_def numeral_eq_Suc length_Suc_conv)

lemma tail_cases:
  assumes "buff_inv n"
  obtains "tail (flow_buff n) = 0" | "tail (flow_buff n) = 1" | "tail (flow_buff n) = 2"
  using assms unfolding buff_inv_def Let_def by linarith

lemma buff_inv_init [simp]: "buff_inv (fst (node_init u ty))"
  by (simp add: node_init_def buff_inv_def BUFFER_MAX_def Let_def)

interpretation waiting_flows:
  bounded_stack node_flow_push node_flow_pop node_is_buffer_empty waiting buff_inv 2
proof
  fix n x
  assume inv: "buff_inv n"
  obtain a b c where s: "flows (flow_buff n) = [a, b, c]"
    using inv by (rule three_slots)
  note defs = node_flow_push_def node_flow_pop_def waiting_def buff_inv_def arr_set_def arr_get_def
    BUFFER_MAX_def Let_def node_is_buffer_empty_def
  show "\<exists>n'. node_flow_push n x = Inr (n', True) \<and> buff_inv n' \<and> waiting n' = x # waiting n"
    if "length (waiting n) < 2"
    using inv that s by (cases rule: tail_cases [OF inv]) (auto simp: defs numeral_eq_Suc)
  show "node_flow_push n x = Inr (n, False)" if "length (waiting n) = 2"
    using inv that s by (cases rule: tail_cases [OF inv]) (auto simp: defs)
  show "node_is_buffer_empty n \<longleftrightarrow> waiting n = []"
    using inv s by (cases rule: tail_cases [OF inv]) (auto simp: defs)
  show "length (waiting n) \<le> 2"
    using inv s by (cases rule: tail_cases [OF inv]) (auto simp: defs)
  show "\<exists>n'. node_flow_pop n = Inr (n', x) \<and> buff_inv n' \<and> waiting n' = xs" if "waiting n = x # xs" for xs
    using inv that s by (cases rule: tail_cases [OF inv]; cases b; cases c) (auto simp: defs numeral_eq_Suc)
qed

text \<open>The buffer of flows that wait for an ARP reply is a stack of two flows: a push
  always returns, reports success exactly when fewer than two flows wait, and then the next pop gives
  that flow back and leaves the others as they were; a push on a full buffer changes nothing, and
  the buffer is empty exactly when no flow waits.\<close>

theorem waiting_flows_lifo:
  assumes "buff_inv n"
  shows "(node_is_buffer_empty n \<longleftrightarrow> waiting n = []) \<and>
    (\<exists>n' ok. node_flow_push n nf = Inr (n', ok) \<and> buff_inv n' \<and> (ok \<longleftrightarrow> length (waiting n) < 2) \<and>
      (if ok then \<exists>n''. node_flow_pop n' = Inr (n'', nf) \<and> buff_inv n'' \<and> waiting n'' = waiting n
       else n' = n))"
proof -
  obtain n' ok where p: "node_flow_push n nf = Inr (n', ok)" "buff_inv n'" "ok \<longleftrightarrow> length (waiting n) < 2"
    using waiting_flows.push_total [OF assms] by blast
  have "\<exists>n''. node_flow_pop n' = Inr (n'', nf) \<and> buff_inv n'' \<and> waiting n'' = waiting n" if ok
    using waiting_flows.push_then_pop [OF assms] p(1) that by auto
  moreover have "n' = n" if "\<not> ok"
    using waiting_flows.push_full [OF assms, of nf] waiting_flows.bounded [OF assms] p(1,3) that by auto
  ultimately show ?thesis
    using waiting_flows.is_empty [OF assms] p by (cases ok) auto
qed

text \<open>The witness pushes a flow into the buffer of a new node.\<close>

theorem waiting_flows_lifo_witness:
  "\<exists>n' n''. node_flow_push (fst (node_init 0 HOST)) echo_request = Inr (n', True) \<and>
     node_flow_pop n' = Inr (n'', echo_request) \<and> waiting n'' = []"
proof -
  have "waiting (fst (node_init 0 HOST)) = []"
    by (simp add: waiting_def node_init_def Let_def)
  then show ?thesis
    using waiting_flows_lifo [OF buff_inv_init, of 0 HOST echo_request] by auto
qed

subsection \<open>Names of ports\<close>

lemma length_dec_digits: "0 < k \<Longrightarrow> n < 10 ^ k \<Longrightarrow> length (dec_digits n) \<le> k"
proof (induction n arbitrary: k rule: dec_digits.induct)
  case (1 n)
  show ?case
  proof (cases "n < 10")
    case True
    then show ?thesis
      using "1.prems" by (simp add: dec_digits.simps [of n])
  next
    case False
    then have "k \<noteq> 1"
      using "1.prems"(2) by auto
    then obtain j where j: "k = Suc j" "0 < j"
      using "1.prems"(1) by (cases k) auto
    have "length (dec_digits (n div 10)) \<le> j"
      using "1.IH" [OF False j(2)] "1.prems"(2) j(1) by (simp add: less_mult_imp_div_less mult.commute)
    then show ?thesis
      using False j(1) by (simp add: dec_digits.simps [of n])
  qed
qed

definition digits_value :: "string \<Rightarrow> nat" where
  "digits_value s = foldl (\<lambda>v c. 10 * v + (of_char c - 48)) 0 s"

lemma digits_value_snoc [simp]: "digits_value (s @ [c]) = 10 * digits_value s + (of_char c - 48)"
  by (simp add: digits_value_def)


lemma digits_value_dec_digits [simp]: "digits_value (dec_digits n) = n"
proof (induction n rule: dec_digits.induct)
  case (1 n)
  show ?case
  proof (cases "n < 10")
    case True
    then show ?thesis
      by (simp add: dec_digits.simps [of n] digits_value_def)
  next
    case False
    then show ?thesis
      using "1.IH" [OF False] by (subst dec_digits.simps) simp
  qed
qed

lemma port_name_inject: "port_name name p = port_name name q \<longleftrightarrow> p = q"
  by (auto simp: port_name_def word_unat_eq_iff dest: arg_cong [where f = digits_value])

lemma port_name_fits:
  assumes "length name < MAX_NODE_NAME"
  shows "length (port_name name p) + 1 \<le> MAX_NODE_NAME + 16" "length (port_name name p) < MAX_PORT_NAME"
proof -
  have "length (dec_digits (unat p)) \<le> 10"
    by (rule length_dec_digits) (use unsigned_less [of p, where 'a = nat] in simp_all)
  then show "length (port_name name p) + 1 \<le> MAX_NODE_NAME + 16" "length (port_name name p) < MAX_PORT_NAME"
    using assms by (simp_all add: port_name_def MAX_NODE_NAME_def MAX_PORT_NAME_def)
qed

lemma node_set_name_bounded:
  "node_set_name n name = (n', True) \<Longrightarrow> length (node_name n') < MAX_NODE_NAME"
  by (auto simp: node_set_name_def split: option.splits if_splits)

text \<open>On a node whose name fits its array, adding a port with a new number never overflows the
  buffer the port's name is formatted in.  The port is found under its number, with the node's
  name and the number in decimal as its name, not truncated, up, live and with zero counters; the
  other ports are untouched, and ports with other numbers have other names.\<close>

theorem node_add_port_exact:
  assumes "length (node_name n) < MAX_NODE_NAME" "node_port n pid = None"
  shows "\<exists>n' p. node_add_port n pid eth speed cspeed = Inr n' \<and> node_port n' pid = Some p \<and>
    p_name p = port_name (node_name n) pid \<and> up_and_live p \<and> p_stats p = zero_stats \<and>
    (\<forall>q. (q = pid \<or> node_port n' q = node_port n q) \<and>
         (p_name p = port_name (node_name n) q \<longleftrightarrow> q = pid)) \<and>
    ports_num n' = ports_num n + 1"
proof -
  let ?s = "port_name (node_name n) pid"
  have "\<not> MAX_NODE_NAME + 16 < length ?s + 1" "take (MAX_PORT_NAME - 1) ?s = ?s"
    using port_name_fits [OF assms(1), of pid] by simp_all
  moreover have "up_and_live ((port_new pid eth speed cspeed)\<lparr>p_name := ?s\<rparr>)"
    by (simp add: up_and_live_def port_new_def PORT_UP_def PORT_LIVE_def)
  ultimately show ?thesis
    by (auto simp: node_add_port_def Let_def node_port_def port_new_def port_name_inject)
qed

text \<open>The witness adds port 7 to a new node named \<open>s1\<close>.\<close>

theorem node_add_port_exact_witness:
  "\<exists>n' p. node_add_port ((fst (node_init 0 DATAPATH))\<lparr>node_name := ''s1''\<rparr>) 7 (replicate 6 0) 10 10 = Inr n' \<and>
     node_port n' 7 = Some p \<and> p_name p = ''s1-eth7''"
proof -
  have "port_name ''s1'' 7 = ''s1-eth7''"
    by code_simp
  then show ?thesis
    using node_add_port_exact [of "(fst (node_init 0 DATAPATH))\<lparr>node_name := ''s1''\<rparr>" 7 "replicate 6 0" 10 10]
    by (auto simp: MAX_NODE_NAME_def node_init_def node_port_def Let_def)
qed

subsection \<open>Statistics\<close>

lemma write_stats_loop_lines:
  "fst (write_stats_loop t ps) =
     map (\<lambda>p. (t, p_name p, tx_bytes (p_stats p) - tx_bytes (p_prev_stats p),
       rx_bytes (p_stats p) - rx_bytes (p_prev_stats p))) ps"
  by (induction ps) (simp_all add: Let_def split_beta)

lemma write_stats_loop_ports:
  "map (\<lambda>p. (port_id p, p_stats p)) (snd (write_stats_loop t ps)) = map (\<lambda>p. (port_id p, p_stats p)) ps"
  by (induction ps) (simp_all add: Let_def split_beta)

text \<open>A report repeated with no traffic in between shows no bytes.\<close>

lemma write_stats_again:
  "\<forall>(_, _, tx, rx) \<in> set (fst (node_write_stats (snd (node_write_stats n t)) t')). tx = 0 \<and> rx = 0"
proof -
  have "\<forall>(_, _, tx, rx) \<in> set (fst (write_stats_loop u (snd (write_stats_loop t ps)))). tx = 0 \<and> rx = 0" for u t ps
    by (induction ps) (auto simp: Let_def split: prod.splits)
  then show ?thesis
    by (simp add: node_write_stats_def Let_def split_beta)
qed

subsection \<open>Load and loss\<close>

lemma update_capacity_range:
  "buffer_state_update_capacity ts bits = Inr ts' \<Longrightarrow> 0 \<le> load ts' \<and> load ts' \<le> INT_MAX"
  by (auto simp: buffer_state_update_capacity_def Let_def INT_MAX_def split: if_splits)

lemma to_int32_id: "- (2 ^ 31) \<le> x \<Longrightarrow> x < 2 ^ 31 \<Longrightarrow> to_int32 x = x"
  unfolding to_int32_def by (subst sint_sbintrunc') (simp add: signed_take_bit_int_eq_self)

lemma loss_exact:
  assumes "0 \<le> capacity ts" "load ts \<le> INT_MAX"
  shows "buffer_state_calculate_loss ts bw = max 0 (load ts - (capacity ts + uint bw))"
proof (cases "load ts > capacity ts + uint bw")
  case True
  let ?x = "load ts - (capacity ts + uint bw)"
  have "0 \<le> uint bw"
    by simp
  then have "0 \<le> ?x" "?x < 2 ^ 31"
    using assms True unfolding INT_MAX_def by linarith+
  then have "to_int32 ?x = ?x"
    by (intro to_int32_id) linarith+
  then show ?thesis
    using True by (simp add: buffer_state_calculate_loss_def)
qed (simp add: buffer_state_calculate_loss_def)

end
