(* ===== verification/Flow_Table.thy ===== *)
theory Flow_Table
  imports Flow
begin

section \<open>Flow tables (net/flow\_table)\<close>

text \<open>
  A flow table is a list of mini flow tables, one per mask, and a mini flow table is a hash table
  of flows under their masked keys.  An entry is identified by its value; \<open>HASH_ITER\<close> with
  deletion of the visited entry is a pass over the list.  A pass over the mini tables that may
  unlink the current one replaces each by the list of what is left of it, none or one.
\<close>

subsection \<open>Definitions\<close>

record mini_flow_table =
  mft_flows :: "flow list"
  mft_mask :: ofl_flow_key

record flow_table =
  ft_flows :: "mini_flow_table list"
  ft_table_id :: u8

record ofl_flow_stats_req =
  req_table_id :: u8
  req_out_port :: u32
  req_out_group :: u32
  req_cookie :: u64
  req_cookie_mask :: u64
  req_match :: ofl_flow_key
  req_mask :: ofl_flow_key

definition mini_flow_table_new :: "flow_table \<Rightarrow> flow \<Rightarrow> flow_table" where
  "mini_flow_table_new ft f =
     ft\<lparr>ft_flows := ft_flows ft @ [\<lparr>mft_flows = HASH_ADD [] f, mft_mask = f_mask f\<rparr>]\<rparr>"

definition mini_flow_table_add_flow :: "mini_flow_table \<Rightarrow> flow \<Rightarrow> mini_flow_table" where
  "mini_flow_table_add_flow mft f = mft\<lparr>mft_flows := HASH_ADD (mft_flows mft) f\<rparr>"

definition flow_table_del_flow :: "mini_flow_table \<Rightarrow> flow \<Rightarrow> mini_flow_table list" where
  "flow_table_del_flow mft f =
     (let mft = mft\<lparr>mft_flows := remove1 f (mft_flows mft)\<rparr> in
      if length (mft_flows mft) = 0 then [] else [mft])"

definition flow_expired :: "flow \<Rightarrow> u64 \<Rightarrow> bool" where
  "flow_expired f time \<longleftrightarrow>
     f_hard_timeout f \<noteq> 0 \<and> f_remove_at f < time \<or>
     f_idle_timeout f \<noteq> 0 \<and> f_last_used f + f_idle_timeout f * 1000000 < time"

definition flow_table_del_expired ::
  "mini_flow_table \<Rightarrow> flow \<Rightarrow> u64 \<Rightarrow> mini_flow_table list \<times> bool" where
  "flow_table_del_expired mft f time =
     (if flow_expired f time then (flow_table_del_flow mft f, True) else ([mft], False))"

definition flow_table_new :: "u8 \<Rightarrow> flow_table" where
  "flow_table_new table_id = \<lparr>ft_flows = [], ft_table_id = table_id\<rparr>"

text \<open>The pass of a lookup: what is left of the mini tables, and the best flow so far with its
  priority, -1 before there is one.\<close>

fun lookup_loop ::
  "ofl_flow_key \<Rightarrow> u64 \<Rightarrow> mini_flow_table list \<Rightarrow> int \<Rightarrow> flow option \<Rightarrow>
     mini_flow_table list \<times> flow option" where
  "lookup_loop key time [] cur_priority ret_flow = ([], ret_flow)"
| "lookup_loop key time (mft # mfts) cur_priority ret_flow =
     (let tmp_key = apply_all_mask key (mft_mask mft) in
      case HASH_FIND f_key (mft_flows mft) tmp_key of
        None \<Rightarrow>
          let (rest, ret) = lookup_loop key time mfts cur_priority ret_flow in (mft # rest, ret)
      | Some flow_found \<Rightarrow>
          let (left, expired) = flow_table_del_expired mft flow_found time;
              (rest, ret) =
                (if \<not> expired \<and> uint (f_priority flow_found) > cur_priority
                 then lookup_loop key time mfts (uint (f_priority flow_found)) (Some flow_found)
                 else lookup_loop key time mfts cur_priority ret_flow)
          in (left @ rest, ret))"

text \<open>An assignment through a pointer to an entry: the entry is the one with the same mask and
  key.\<close>

definition ft_update_flow :: "flow_table \<Rightarrow> flow \<Rightarrow> (flow \<Rightarrow> flow) \<Rightarrow> flow_table" where
  "ft_update_flow ft f u =
     ft\<lparr>ft_flows := map (\<lambda>mft.
        if mft_mask mft = f_mask f
        then mft\<lparr>mft_flows := hash_update f_key (mft_flows mft) (f_key f) u\<rparr> else mft) (ft_flows ft)\<rparr>"

definition flow_table_lookup ::
  "flow_table \<Rightarrow> ofl_flow_key \<Rightarrow> u64 \<Rightarrow> flow option \<times> flow_table" where
  "flow_table_lookup ft key time =
     (let (mfts, ret_flow) = lookup_loop key time (ft_flows ft) (-1) None;
          ft = ft\<lparr>ft_flows := mfts\<rparr>
      in case ret_flow of
           None \<Rightarrow> (None, ft)
         | Some f \<Rightarrow>
             (Some (f\<lparr>f_last_used := time\<rparr>), ft_update_flow ft f (\<lambda>g. g\<lparr>f_last_used := time\<rparr>)))"

definition add_flow :: "flow_table \<Rightarrow> flow \<Rightarrow> u64 \<Rightarrow> flow_table" where
  "add_flow ft f time =
     (let f = f\<lparr>f_remove_at := f_hard_timeout f * 1000000 + time, f_last_used := time\<rparr>;
          added = list_ex (\<lambda>mft. flow_key_cmp (f_mask f) (mft_mask mft)) (ft_flows ft);
          ft = ft\<lparr>ft_flows := map (\<lambda>mft.
            if flow_key_cmp (f_mask f) (mft_mask mft) then mini_flow_table_add_flow mft f else mft)
            (ft_flows ft)\<rparr>
      in if added then ft else mini_flow_table_new ft f)"

definition match_strict :: "flow \<Rightarrow> mini_flow_table \<Rightarrow> flow option \<times> bool" where
  "match_strict f mft =
     (if flow_key_cmp (f_mask f) (mft_mask mft)
      then (HASH_FIND f_key (mft_flows mft) (f_key f), True) else (None, False))"

fun mod_flow_strict :: "mini_flow_table list \<Rightarrow> flow \<Rightarrow> u64 \<Rightarrow> mini_flow_table list" where
  "mod_flow_strict [] f time = []"
| "mod_flow_strict (mft # mfts) f time =
     (let (flow_found, stop) = match_strict f mft;
          left =
            (case flow_found of
               None \<Rightarrow> [mft]
             | Some g \<Rightarrow>
                 if f_priority g = f_priority f then
                   let (left, expired) = flow_table_del_expired mft g time in
                   if expired then left
                   else [mft\<lparr>mft_flows := hash_update f_key (mft_flows mft) (f_key g)
                           (\<lambda>h. flow_add_instructions h (f_insts f))\<rparr>]
                 else [mft])
      in if stop then left @ mfts else left @ mod_flow_strict mfts f time)"

definition is_flow_non_strict_in_mft :: "ofl_flow_key \<Rightarrow> mini_flow_table \<Rightarrow> bool" where
  "is_flow_non_strict_in_mft fmask mft =
     (let tmp_mask = apply_all_mask (mft_mask mft) fmask in flow_key_cmp tmp_mask fmask)"

definition match_non_strict :: "ofl_flow_key \<Rightarrow> ofl_flow_key \<Rightarrow> ofl_flow_key \<Rightarrow> bool" where
  "match_non_strict key1 key1_mask key2 =
     (let tmp_key = apply_all_mask key2 key1_mask in flow_key_cmp tmp_key key1)"

text \<open>The pass over the flows of one mini table: an expired match is deleted, another match gets
  the instructions.  The mini table goes with its last flow.\<close>

definition mod_flow_non_strict :: "mini_flow_table list \<Rightarrow> flow \<Rightarrow> u64 \<Rightarrow> mini_flow_table list" where
  "mod_flow_non_strict mfts f time =
     concat (map (\<lambda>mft.
       if is_flow_non_strict_in_mft (f_mask f) mft then
         let flows = concat (map (\<lambda>g.
               if match_non_strict (f_key f) (f_mask f) (f_key g)
               then if flow_expired g time then [] else [flow_add_instructions g (f_insts f)]
               else [g]) (mft_flows mft))
         in if flows = [] \<and> mft_flows mft \<noteq> [] then [] else [mft\<lparr>mft_flows := flows\<rparr>]
       else [mft]) mfts)"

definition modify_flow :: "flow_table \<Rightarrow> flow \<Rightarrow> bool \<Rightarrow> u64 \<Rightarrow> flow_table" where
  "modify_flow ft f strict time =
     ft\<lparr>ft_flows := (if strict then mod_flow_strict (ft_flows ft) f time
                     else mod_flow_non_strict (ft_flows ft) f time)\<rparr>"

text \<open>The result array of a statistics request: the flows found so far, the cells the caller's
  array really has, and the local count of allocated cells, which starts again from 1 in every
  call.\<close>

fun stats_flows_loop ::
  "ofl_flow_stats_req \<Rightarrow> u64 \<Rightarrow> flow list \<Rightarrow> flow list \<times> nat \<times> nat \<Rightarrow>
     (flow list \<times> flow list \<times> nat \<times> nat) res" where
  "stats_flows_loop req time [] st = Inr ([], st)"
| "stats_flows_loop req time (g # gs) (flows, cap, allocated) =
     (if match_non_strict (req_match req) (req_mask req) (f_key g) then
        if flow_expired g time then stats_flows_loop req time gs (flows, cap, allocated)
        else
          let (cap, allocated) =
                (if allocated = length flows then (allocated * 2, allocated * 2)
                 else (cap, allocated))
          in if length flows < cap
             then rbind (stats_flows_loop req time gs (flows @ [g], cap, allocated))
                    (\<lambda>(kept, st). Inr (g # kept, st))
             else Inl Out_Of_Bounds
      else rbind (stats_flows_loop req time gs (flows, cap, allocated))
             (\<lambda>(kept, st). Inr (g # kept, st)))"

fun stats_loop ::
  "ofl_flow_stats_req \<Rightarrow> u64 \<Rightarrow> mini_flow_table list \<Rightarrow> flow list \<times> nat \<times> nat \<Rightarrow>
     (mini_flow_table list \<times> flow list \<times> nat \<times> nat) res" where
  "stats_loop req time [] st = Inr ([], st)"
| "stats_loop req time (mft # mfts) st =
     (if is_flow_non_strict_in_mft (req_mask req) mft then
        rbind (stats_flows_loop req time (mft_flows mft) st) (\<lambda>(kept, st).
          rbind (stats_loop req time mfts st) (\<lambda>(rest, st).
            Inr ((if kept = [] \<and> mft_flows mft \<noteq> [] then []
                  else [mft\<lparr>mft_flows := kept\<rparr>]) @ rest, st)))
      else rbind (stats_loop req time mfts st) (\<lambda>(rest, st). Inr (mft # rest, st)))"

definition flow_table_stats ::
  "flow_table \<Rightarrow> ofl_flow_stats_req \<Rightarrow> flow list \<times> nat \<Rightarrow> u64 \<Rightarrow>
     (flow_table \<times> flow list \<times> nat) res" where
  "flow_table_stats ft req arr time =
     (case arr of (flows, cap) \<Rightarrow>
        rbind (stats_loop req time (ft_flows ft) (flows, cap, 1)) (\<lambda>(mfts, flows, cap, _).
          Inr (ft\<lparr>ft_flows := mfts\<rparr>, flows, cap)))"

fun del_flow_strict :: "mini_flow_table list \<Rightarrow> flow \<Rightarrow> u64 \<Rightarrow> mini_flow_table list" where
  "del_flow_strict [] f time = []"
| "del_flow_strict (mft # mfts) f time =
     (let (flow_found, stop) = match_strict f mft;
          left =
            (case flow_found of
               None \<Rightarrow> [mft]
             | Some g \<Rightarrow>
                 if f_priority g = f_priority f then
                   let (left, expired) = flow_table_del_expired mft g time in
                   if expired then left else flow_table_del_flow mft g
                 else [mft])
      in if stop then left @ mfts else left @ del_flow_strict mfts f time)"

definition del_flow_non_strict :: "mini_flow_table list \<Rightarrow> flow \<Rightarrow> mini_flow_table list" where
  "del_flow_non_strict mfts f =
     concat (map (\<lambda>mft.
       if \<not> is_flow_non_strict_in_mft (f_mask f) mft then [mft]
       else
         let mft = mft\<lparr>mft_flows :=
               filter (\<lambda>g. \<not> match_non_strict (f_key f) (f_mask f) (f_key g)) (mft_flows mft)\<rparr>
         in if mft_flows mft = [] then [] else [mft]) mfts)"

definition delete_flow :: "flow_table \<Rightarrow> flow \<Rightarrow> u64 \<Rightarrow> bool \<Rightarrow> flow_table" where
  "delete_flow ft f time strict =
     ft\<lparr>ft_flows := (if strict then del_flow_strict (ft_flows ft) f time
                     else del_flow_non_strict (ft_flows ft) f)\<rparr>"

text \<open>Destroying a table destroys its flows, mini table by mini table.\<close>

definition flow_table_destroy :: "flow_table \<Rightarrow> flow list" where
  "flow_table_destroy ft = concat (map mft_flows (ft_flows ft))"

subsection \<open>The invariant\<close>

definition mft_ok :: "mini_flow_table \<Rightarrow> bool" where
  "mft_ok mft \<longleftrightarrow> mft_flows mft \<noteq> [] \<and> distinct (map f_key (mft_flows mft)) \<and>
     (\<forall>f \<in> set (mft_flows mft). flow_ok f \<and> f_mask f = mft_mask mft)"

definition mfts_ok :: "mini_flow_table list \<Rightarrow> bool" where
  "mfts_ok mfts \<longleftrightarrow> distinct (map mft_mask mfts) \<and> (\<forall>mft \<in> set mfts. mft_ok mft)"

definition ft_inv :: "flow_table \<Rightarrow> bool" where
  "ft_inv ft \<longleftrightarrow> mfts_ok (ft_flows ft)"

definition mfts_flows :: "mini_flow_table list \<Rightarrow> flow set" where
  "mfts_flows mfts = (\<Union>mft \<in> set mfts. set (mft_flows mft))"

definition table_flows :: "flow_table \<Rightarrow> flow set" where
  "table_flows ft = mfts_flows (ft_flows ft)"

lemma mfts_flows_simps [simp]:
  "mfts_flows [] = {}" "mfts_flows (m # ms) = set (mft_flows m) \<union> mfts_flows ms"
  "mfts_flows (xs @ ys) = mfts_flows xs \<union> mfts_flows ys"
  by (auto simp: mfts_flows_def)

lemma mfts_flows_map: "mfts_flows (map g mfts) = (\<Union>m \<in> set mfts. set (mft_flows (g m)))"
  by (simp only: mfts_flows_def set_map image_image)

lemma mfts_ok_Nil [simp]: "mfts_ok []"
  by (simp add: mfts_ok_def)

lemma mfts_ok_Cons:
  "mfts_ok (m # ms) \<longleftrightarrow> mft_ok m \<and> mft_mask m \<notin> mft_mask ` set ms \<and> mfts_ok ms"
  by (auto simp: mfts_ok_def)

lemma mfts_flows_okD: "mfts_ok mfts \<Longrightarrow> f \<in> mfts_flows mfts \<Longrightarrow> flow_ok f"
  by (auto simp: mfts_ok_def mfts_flows_def mft_ok_def)

text \<open>A pass leaves of a mini table nothing, or a well-formed one with the same mask.\<close>

definition same_slot :: "mini_flow_table \<Rightarrow> mini_flow_table list \<Rightarrow> bool" where
  "same_slot mft left \<longleftrightarrow> left = [] \<or> (\<exists>m. left = [m] \<and> mft_mask m = mft_mask mft \<and> mft_ok m)"

lemma mfts_ok_slot:
  assumes "same_slot m left" "mft_mask m \<notin> mft_mask ` set ms" "mfts_ok ms"
  shows "mfts_ok (left @ ms)"
  using assms by (auto simp: same_slot_def mfts_ok_Cons)

lemma masks_of_pass:
  assumes "\<forall>m \<in> set mfts. same_slot m (step m)"
  shows "mft_mask ` set (concat (map step mfts)) \<subseteq> mft_mask ` set mfts"
proof
  fix k assume "k \<in> mft_mask ` set (concat (map step mfts))"
  then obtain m m' where "m \<in> set mfts" "m' \<in> set (step m)" "k = mft_mask m'"
    by auto
  then show "k \<in> mft_mask ` set mfts"
    using assms by (force simp: same_slot_def)
qed

lemma mfts_ok_pass:
  assumes "mfts_ok mfts" "\<forall>m \<in> set mfts. same_slot m (step m)"
  shows "mfts_ok (concat (map step mfts))"
  using assms
proof (induction mfts)
  case (Cons m ms)
  then have "mft_mask m \<notin> mft_mask ` set (concat (map step ms))"
    using masks_of_pass [of ms step] by (auto simp: mfts_ok_Cons)
  then have "mfts_ok (step m @ concat (map step ms))"
    using Cons by (intro mfts_ok_slot) (simp_all add: mfts_ok_Cons)
  then show ?case
    by simp
qed simp

lemma mfts_flows_pass: "mfts_flows (concat (map step mfts)) = (\<Union>m \<in> set mfts. mfts_flows (step m))"
  by (induction mfts) simp_all

subsection \<open>Deleting and updating in a mini table\<close>

lemma flow_ok_cong: "f_key g = f_key f \<Longrightarrow> f_mask g = f_mask f \<Longrightarrow> flow_ok g = flow_ok f"
  by (simp add: flow_ok_def)

lemma mft_find:
  "mft_ok m \<Longrightarrow> HASH_FIND f_key (mft_flows m) k = Some g \<longleftrightarrow> g \<in> set (mft_flows m) \<and> f_key g = k"
  by (rule HASH_FIND_unique) (simp add: mft_ok_def)

lemma mft_find_None:
  "HASH_FIND f_key (mft_flows m) k = None \<longleftrightarrow> (\<forall>g \<in> set (mft_flows m). f_key g \<noteq> k)"
  by (auto simp: HASH_FIND_None)

lemma mft_matches:
  "mft_ok m \<Longrightarrow> g \<in> set (mft_flows m) \<Longrightarrow>
     flow_matches g p \<longleftrightarrow> f_key g = apply_all_mask p (mft_mask m)"
  by (auto simp: mft_ok_def flow_matches_def)

lemma mft_ok_distinct: "mft_ok m \<Longrightarrow> distinct (mft_flows m)"
  by (simp add: mft_ok_def distinct_map)

lemma mft_ok_subset:
  assumes "mft_ok m" "set gs \<subseteq> set (mft_flows m)" "distinct (map f_key gs)" "gs \<noteq> []"
  shows "mft_ok (m\<lparr>mft_flows := gs\<rparr>)"
  using assms by (auto simp: mft_ok_def)

lemma del_flow_slot:
  assumes "mft_ok m" "g \<in> set (mft_flows m)"
  shows "same_slot m (flow_table_del_flow m g)"
    and "mfts_flows (flow_table_del_flow m g) = set (mft_flows m) - {g}"
proof -
  have "distinct (map f_key (remove1 g (mft_flows m)))"
    using assms(1) by (auto simp: mft_ok_def distinct_map intro: inj_on_subset)
  then show "same_slot m (flow_table_del_flow m g)"
    using mft_ok_subset [OF assms(1), of "remove1 g (mft_flows m)"]
    by (auto simp: flow_table_del_flow_def same_slot_def set_remove1_subset)
  show "mfts_flows (flow_table_del_flow m g) = set (mft_flows m) - {g}"
    unfolding set_remove1_eq [OF mft_ok_distinct [OF assms(1)], symmetric]
    by (simp add: flow_table_del_flow_def Let_def)
qed

lemma update_slot:
  assumes "mft_ok m" "\<And>g. f_key (u g) = f_key g \<and> f_mask (u g) = f_mask g"
  shows "mft_ok (m\<lparr>mft_flows := hash_update f_key (mft_flows m) k u\<rparr>)"
    and "set (hash_update f_key (mft_flows m) k u) =
      (\<lambda>g. if f_key g = k then u g else g) ` set (mft_flows m)"
proof -
  have d: "distinct (map f_key (mft_flows m))"
    using assms(1) by (simp add: mft_ok_def)
  show s: "set (hash_update f_key (mft_flows m) k u) =
      (\<lambda>g. if f_key g = k then u g else g) ` set (mft_flows m)"
    by (simp add: hash_update_map [OF d])
  have "map f_key (hash_update f_key (mft_flows m) k u) = map f_key (mft_flows m)"
    using assms(2) by (intro map_hash_update) blast
  moreover have "hash_update f_key (mft_flows m) k u \<noteq> []"
    using assms(1) by (simp add: hash_update_map [OF d] mft_ok_def)
  ultimately show "mft_ok (m\<lparr>mft_flows := hash_update f_key (mft_flows m) k u\<rparr>)"
    using assms d by (auto simp: mft_ok_def s intro: flow_ok_cong [THEN iffD1])
qed

lemma same_slot_single: "same_slot m [m'] \<longleftrightarrow> mft_mask m' = mft_mask m \<and> mft_ok m'"
  by (auto simp: same_slot_def)

lemma same_slot_refl [simp]: "mft_ok m \<Longrightarrow> same_slot m [m]"
  by (simp add: same_slot_single)

subsection \<open>Lookup\<close>

text \<open>What a lookup leaves of one mini table, and the candidate it finds there.\<close>

definition lookup_left :: "ofl_flow_key \<Rightarrow> u64 \<Rightarrow> mini_flow_table \<Rightarrow> mini_flow_table list" where
  "lookup_left key time m =
     (case HASH_FIND f_key (mft_flows m) (apply_all_mask key (mft_mask m)) of
        None \<Rightarrow> [m]
      | Some g \<Rightarrow> if flow_expired g time then flow_table_del_flow m g else [m])"

definition candidates :: "ofl_flow_key \<Rightarrow> u64 \<Rightarrow> mini_flow_table list \<Rightarrow> flow set" where
  "candidates key time mfts = {g \<in> mfts_flows mfts. flow_matches g key \<and> \<not> flow_expired g time}"

lemma fst_lookup_loop:
  "fst (lookup_loop key time mfts p r) = concat (map (lookup_left key time) mfts)"
  by (induction mfts arbitrary: p r)
    (auto simp: lookup_left_def flow_table_del_expired_def Let_def case_prod_beta split: option.splits)

lemma mft_found:
  assumes "mft_ok m"
  shows "{g \<in> set (mft_flows m). flow_matches g key} =
    set_option (HASH_FIND f_key (mft_flows m) (apply_all_mask key (mft_mask m)))"
  using mft_find [OF assms] mft_matches [OF assms] by (auto simp: elem_set)

lemma candidates_Cons:
  assumes "mft_ok m"
  shows "candidates key time (m # ms) =
    (case HASH_FIND f_key (mft_flows m) (apply_all_mask key (mft_mask m)) of
       None \<Rightarrow> {}
     | Some g \<Rightarrow> if flow_expired g time then {} else {g}) \<union> candidates key time ms"
proof -
  have "candidates key time (m # ms) =
      {g \<in> {g \<in> set (mft_flows m). flow_matches g key}. \<not> flow_expired g time} \<union> candidates key time ms"
    by (auto simp: candidates_def)
  then show ?thesis
    unfolding mft_found [OF assms] by (auto split: option.splits)
qed

text \<open>The priority that goes with the best flow so far.\<close>

definition best_prio :: "flow option \<Rightarrow> int" where
  "best_prio r = (case r of None \<Rightarrow> -1 | Some f \<Rightarrow> uint (f_priority f))"

lemma snd_lookup_loop:
  assumes "\<forall>m \<in> set mfts. mft_ok m" "p = best_prio r"
  shows "case snd (lookup_loop key time mfts p r) of
      None \<Rightarrow> r = None \<and> candidates key time mfts = {}
    | Some f \<Rightarrow> (r = Some f \<or> f \<in> candidates key time mfts) \<and> p \<le> uint (f_priority f) \<and>
        (\<forall>g \<in> candidates key time mfts. f_priority g \<le> f_priority f)"
  using assms
proof (induction mfts arbitrary: p r)
  case Nil
  then show ?case
    by (auto simp: candidates_def best_prio_def split: option.splits)
next
  case (Cons m ms)
  note c = candidates_Cons [of m key time ms]
  show ?case
  proof (cases "HASH_FIND f_key (mft_flows m) (apply_all_mask key (mft_mask m))")
    case None
    then show ?thesis
      using Cons.IH [of p r] Cons.prems c by (auto simp: Let_def split: prod.splits option.splits)
  next
    case (Some g)
    show ?thesis
    proof (cases "\<not> flow_expired g time \<and> uint (f_priority g) > p")
      case True
      then have "snd (lookup_loop key time (m # ms) p r) =
          snd (lookup_loop key time ms (uint (f_priority g)) (Some g))"
        using Some by (simp add: Let_def case_prod_beta flow_table_del_expired_def)
      moreover have "candidates key time (m # ms) = insert g (candidates key time ms)"
        using c Cons.prems Some True by simp
      ultimately show ?thesis
        using Cons.IH [of "uint (f_priority g)" "Some g"] Cons.prems(1) True
        by (auto simp: best_prio_def word_le_def split: option.splits)
    next
      case False
      then have "snd (lookup_loop key time (m # ms) p r) = snd (lookup_loop key time ms p r)"
        using Some by (auto simp: Let_def case_prod_beta flow_table_del_expired_def)
      moreover have "candidates key time (m # ms) =
          (if flow_expired g time then {} else {g}) \<union> candidates key time ms"
        using c Cons.prems Some by simp
      moreover have "r \<noteq> None" if "\<not> flow_expired g time"
        using that False Cons.prems(2) uint_nonnegative [of "f_priority g"]
        by (cases r) (auto simp: best_prio_def)
      ultimately show ?thesis
        using Cons.IH [of p r] Cons.prems False
        by (auto simp: best_prio_def word_le_def split: option.splits)
    qed
  qed
qed

lemma lookup_left_slot:
  assumes "mft_ok m"
  shows "same_slot m (lookup_left key time m)"
    and "mfts_flows (lookup_left key time m) =
      {g \<in> set (mft_flows m). \<not> (flow_matches g key \<and> flow_expired g time)}"
proof -
  let ?found = "HASH_FIND f_key (mft_flows m) (apply_all_mask key (mft_mask m))"
  have in_m: "g \<in> set (mft_flows m)" if "?found = Some g" for g
    using HASH_FIND_SomeD [OF that] by simp
  show "same_slot m (lookup_left key time m)"
    using assms del_flow_slot(1) [OF assms in_m] by (auto simp: lookup_left_def split: option.splits)
  have "{g \<in> set (mft_flows m). \<not> (flow_matches g key \<and> flow_expired g time)} =
      set (mft_flows m) - {g \<in> set_option ?found. flow_expired g time}"
    unfolding mft_found [OF assms, symmetric] by auto
  also have "\<dots> = mfts_flows (lookup_left key time m)"
  proof (cases ?found)
    case (Some g)
    then show ?thesis
      using del_flow_slot(2) [OF assms in_m] by (auto simp: lookup_left_def)
  qed (simp add: lookup_left_def)
  finally show "mfts_flows (lookup_left key time m) =
      {g \<in> set (mft_flows m). \<not> (flow_matches g key \<and> flow_expired g time)}"
    by simp
qed

text \<open>Assigning through the pointer a lookup returned.\<close>

lemma ft_update_flow_correct:
  assumes "ft_inv ft" "\<And>g. f_key (u g) = f_key g \<and> f_mask (u g) = f_mask g"
  shows "ft_inv (ft_update_flow ft f u)"
    and "table_flows (ft_update_flow ft f u) =
      (\<lambda>g. if f_mask g = f_mask f \<and> f_key g = f_key f then u g else g) ` table_flows ft"
proof -
  let ?upd = "\<lambda>m. if mft_mask m = f_mask f
    then m\<lparr>mft_flows := hash_update f_key (mft_flows m) (f_key f) u\<rparr> else m"
  have ok: "mft_ok m" if "m \<in> set (ft_flows ft)" for m
    using assms(1) that by (simp add: ft_inv_def mfts_ok_def)
  have upd: "ft_flows (ft_update_flow ft f u) = map ?upd (ft_flows ft)"
    by (simp add: ft_update_flow_def)
  have pass: "map ?upd (ft_flows ft) = concat (map (\<lambda>m. [?upd m]) (ft_flows ft))"
    by (simp add: concat_map_singleton)
  have slot: "same_slot m [?upd m]" if "m \<in> set (ft_flows ft)" for m
    using ok [OF that] update_slot [OF ok [OF that] assms(2)] by (simp add: same_slot_single)
  have "mfts_ok (map ?upd (ft_flows ft))"
    unfolding pass using assms(1) slot by (intro mfts_ok_pass) (simp_all only: ft_inv_def, blast)
  then show "ft_inv (ft_update_flow ft f u)"
    by (simp add: ft_inv_def ft_update_flow_def)
  have "set (mft_flows (?upd m)) =
      (\<lambda>g. if f_mask g = f_mask f \<and> f_key g = f_key f then u g else g) ` set (mft_flows m)"
    if "m \<in> set (ft_flows ft)" for m
  proof -
    have masks: "\<forall>g \<in> set (mft_flows m). f_mask g = mft_mask m"
      using ok [OF that] by (simp add: mft_ok_def)
    show ?thesis
    proof (cases "mft_mask m = f_mask f")
      case True
      then have "set (mft_flows (?upd m)) =
          (\<lambda>g. if f_key g = f_key f then u g else g) ` set (mft_flows m)"
        using update_slot(2) [OF ok [OF that] assms(2)] by simp
      also have "\<dots> = (\<lambda>g. if f_mask g = f_mask f \<and> f_key g = f_key f then u g else g) ` set (mft_flows m)"
        using masks True by (intro image_cong) auto
      finally show ?thesis .
    next
      case False
      then have "(\<lambda>g. if f_mask g = f_mask f \<and> f_key g = f_key f then u g else g) ` set (mft_flows m) =
          (\<lambda>g. g) ` set (mft_flows m)"
        using masks by (intro image_cong) auto
      then show ?thesis
        using False by simp
    qed
  qed
  then have "(\<Union>m \<in> set (ft_flows ft). set (mft_flows (?upd m))) =
      (\<Union>m \<in> set (ft_flows ft). (\<lambda>g. if f_mask g = f_mask f \<and> f_key g = f_key f then u g else g) `
         set (mft_flows m))"
    by (rule SUP_cong [OF refl])
  then show "table_flows (ft_update_flow ft f u) =
      (\<lambda>g. if f_mask g = f_mask f \<and> f_key g = f_key f then u g else g) ` table_flows ft"
    unfolding table_flows_def upd mfts_flows_def image_UN set_map image_image .
qed

lemma lookup_table:
  assumes "ft_inv ft"
  shows "ft_inv (ft\<lparr>ft_flows := fst (lookup_loop key time (ft_flows ft) p r)\<rparr>)"
    and "table_flows (ft\<lparr>ft_flows := fst (lookup_loop key time (ft_flows ft) p r)\<rparr>) =
      {g \<in> table_flows ft. \<not> (flow_matches g key \<and> flow_expired g time)}"
proof -
  have ok: "mft_ok m" if "m \<in> set (ft_flows ft)" for m
    using assms(1) that by (simp add: ft_inv_def mfts_ok_def)
  then show "ft_inv (ft\<lparr>ft_flows := fst (lookup_loop key time (ft_flows ft) p r)\<rparr>)"
    using assms(1) lookup_left_slot(1) mfts_ok_pass
    by (simp add: ft_inv_def fst_lookup_loop)
  show "table_flows (ft\<lparr>ft_flows := fst (lookup_loop key time (ft_flows ft) p r)\<rparr>) =
      {g \<in> table_flows ft. \<not> (flow_matches g key \<and> flow_expired g time)}"
    using lookup_left_slot(2) [OF ok]
    by (auto simp: table_flows_def fst_lookup_loop mfts_flows_pass) (auto simp: mfts_flows_def)
qed

lemma ft_inv_lookup [horse_inv]: "ft_inv ft \<Longrightarrow> ft_inv (snd (flow_table_lookup ft key time))"
  using lookup_table(1) [of ft key time "-1" None]
    ft_update_flow_correct(1) [of "ft\<lparr>ft_flows := fst (lookup_loop key time (ft_flows ft) (- 1) None)\<rparr>"]
  by (auto simp: flow_table_lookup_def Let_def case_prod_beta split: option.splits)

lemma lookup_result:
  assumes "ft_inv ft" "flow_table_lookup ft key time = (ret, ft')"
  shows "case ret of
      None \<Rightarrow> (\<forall>g \<in> table_flows ft. flow_matches g key \<longrightarrow> flow_expired g time)
    | Some f \<Rightarrow> \<exists>g \<in> table_flows ft. f = g\<lparr>f_last_used := time\<rparr> \<and> flow_matches g key \<and>
        \<not> flow_expired g time \<and>
        (\<forall>h \<in> table_flows ft. flow_matches h key \<and> \<not> flow_expired h time \<longrightarrow>
           f_priority h \<le> f_priority g)"
proof -
  have ret: "ret = map_option (\<lambda>g. g\<lparr>f_last_used := time\<rparr>)
      (snd (lookup_loop key time (ft_flows ft) (- 1) None))"
    using assms(2) by (auto simp: flow_table_lookup_def Let_def case_prod_beta split: option.splits)
  have "\<forall>m \<in> set (ft_flows ft). mft_ok m"
    using assms(1) by (simp add: ft_inv_def mfts_ok_def)
  from snd_lookup_loop [OF this, of "- 1" None key time] show ?thesis
    unfolding ret by (auto simp: best_prio_def candidates_def table_flows_def split: option.splits)
qed

lemma lookup_effect:
  assumes "ft_inv ft" "flow_table_lookup ft key time = (ret, ft')"
  shows "table_flows ft' =
    (\<lambda>g. if (\<exists>f. ret = Some f \<and> f_mask g = f_mask f \<and> f_key g = f_key f)
         then g\<lparr>f_last_used := time\<rparr> else g) `
      {g \<in> table_flows ft. \<not> (flow_matches g key \<and> flow_expired g time)}"
proof -
  let ?ft = "ft\<lparr>ft_flows := fst (lookup_loop key time (ft_flows ft) (- 1) None)\<rparr>"
  note kept = lookup_table [OF assms(1), of key time "- 1" None]
  show ?thesis
  proof (cases "snd (lookup_loop key time (ft_flows ft) (- 1) None)")
    case None
    then show ?thesis
      using assms(2) kept(2) by (auto simp: flow_table_lookup_def Let_def case_prod_beta)
  next
    case (Some f)
    then have "ret = Some (f\<lparr>f_last_used := time\<rparr>)"
        "ft' = ft_update_flow ?ft f (\<lambda>g. g\<lparr>f_last_used := time\<rparr>)"
      using assms(2) by (auto simp: flow_table_lookup_def Let_def case_prod_beta)
    then show ?thesis
      using ft_update_flow_correct(2) [OF kept(1), of "\<lambda>g. g\<lparr>f_last_used := time\<rparr>" f] kept(2) by simp
  qed
qed

subsection \<open>Adding\<close>

lemma add_flow_correct:
  fixes ft :: flow_table and f :: flow and time :: u64
  assumes "ft_inv ft" "flow_ok f"
    and fresh: "\<forall>g \<in> table_flows ft. \<not> (f_mask g = f_mask f \<and> f_key g = f_key f)"
  defines "f' \<equiv> f\<lparr>f_remove_at := f_hard_timeout f * 1000000 + time, f_last_used := time\<rparr>"
  shows "ft_inv (add_flow ft f time)" and "table_flows (add_flow ft f time) = insert f' (table_flows ft)"
proof -
  let ?add = "\<lambda>m. if mft_mask m = f_mask f then mini_flow_table_add_flow m f' else m"
  have f': "flow_ok f'" "f_mask f' = f_mask f" "f_key f' = f_key f"
    using assms(2) by (simp_all add: f'_def flow_ok_def)
  have ok: "mft_ok m" if "m \<in> set (ft_flows ft)" for m
    using assms(1) that by (simp add: ft_inv_def mfts_ok_def)
  have add: "mft_ok (?add m)" "mft_mask (?add m) = mft_mask m" if "m \<in> set (ft_flows ft)" for m
  proof -
    have "f_key f \<notin> f_key ` set (mft_flows m)" if "mft_mask m = f_mask f"
      using that ok [OF \<open>m \<in> set (ft_flows ft)\<close>] fresh \<open>m \<in> set (ft_flows ft)\<close>
      by (force simp: mft_ok_def table_flows_def mfts_flows_def)
    then show "mft_ok (?add m)" "mft_mask (?add m) = mft_mask m"
      using ok [OF that] f' by (auto simp: mft_ok_def mini_flow_table_add_flow_def HASH_ADD_def)
  qed
  have masks: "map mft_mask (map ?add (ft_flows ft)) = map mft_mask (ft_flows ft)"
    using add(2) by simp
  have eq: "add_flow ft f time =
      (if f_mask f \<in> mft_mask ` set (ft_flows ft) then ft\<lparr>ft_flows := map ?add (ft_flows ft)\<rparr>
       else mini_flow_table_new (ft\<lparr>ft_flows := map ?add (ft_flows ft)\<rparr>) f')"
    unfolding f'_def
    by (auto simp: add_flow_def Let_def flow_key_cmp_iff list_ex_iff image_iff eq_commute
        [of "f_mask f"])
  have absent: "map ?add (ft_flows ft) = ft_flows ft" if "f_mask f \<notin> mft_mask ` set (ft_flows ft)"
  proof (rule map_idI)
    fix m assume "m \<in> set (ft_flows ft)"
    then have "mft_mask m \<noteq> f_mask f"
      using that by (metis imageI)
    then show "?add m = m"
      by simp
  qed
  have new: "mft_ok \<lparr>mft_flows = [f'], mft_mask = f_mask f'\<rparr>"
    using f' by (simp add: mft_ok_def)
  have all: "mfts_ok (map ?add (ft_flows ft))"
    unfolding mfts_ok_def masks
  proof (intro conjI ballI)
    show "distinct (map mft_mask (ft_flows ft))"
      using assms(1) by (simp add: ft_inv_def mfts_ok_def)
    fix m assume "m \<in> set (map ?add (ft_flows ft))"
    then obtain m0 where "m = ?add m0" "m0 \<in> set (ft_flows ft)"
      unfolding set_map by (rule imageE)
    then show "mft_ok m"
      using add(1) by (simp only:)
  qed
  show "ft_inv (add_flow ft f time)"
  proof (cases "f_mask f \<in> mft_mask ` set (ft_flows ft)")
    case True
    then show ?thesis
      using all by (simp only: eq if_True ft_inv_def) simp
  next
    case False
    then have "mfts_ok (ft_flows ft @ [\<lparr>mft_flows = [f'], mft_mask = f_mask f'\<rparr>])"
      using assms(1) new f' by (auto simp: ft_inv_def mfts_ok_def)
    then show ?thesis
      using False absent by (simp add: eq ft_inv_def mini_flow_table_new_def HASH_ADD_def)
  qed
  show "table_flows (add_flow ft f time) = insert f' (table_flows ft)"
  proof (cases "f_mask f \<in> mft_mask ` set (ft_flows ft)")
    case True
    have flows: "set (mft_flows (?add m)) =
        (if mft_mask m = f_mask f then insert f' (set (mft_flows m)) else set (mft_flows m))" for m
      by (simp add: mini_flow_table_add_flow_def)
    have "ft_flows (add_flow ft f time) = map ?add (ft_flows ft)"
      using True by (simp only: eq if_True) simp
    then have "table_flows (add_flow ft f time) = (\<Union>m \<in> set (ft_flows ft).
        if mft_mask m = f_mask f then insert f' (set (mft_flows m)) else set (mft_flows m))"
      by (simp only: table_flows_def mfts_flows_map flows)
    moreover obtain m where "m \<in> set (ft_flows ft)" "mft_mask m = f_mask f"
      using True by auto
    ultimately show ?thesis
      unfolding table_flows_def mfts_flows_def by (auto split: if_splits)
  next
    case False
    then show ?thesis
      using absent by (simp add: eq mini_flow_table_new_def table_flows_def HASH_ADD_def)
  qed
qed

subsection \<open>Strict modification and deletion\<close>

text \<open>The entry a strict message names.\<close>

definition same_entry :: "flow \<Rightarrow> flow \<Rightarrow> bool" where
  "same_entry f g \<longleftrightarrow> f_mask g = f_mask f \<and> f_key g = f_key f \<and> f_priority g = f_priority f"

definition strict_step ::
  "(mini_flow_table \<Rightarrow> flow \<Rightarrow> mini_flow_table list) \<Rightarrow> flow \<Rightarrow> mini_flow_table \<Rightarrow>
     mini_flow_table list" where
  "strict_step act f m =
     (if mft_mask m = f_mask f then
        case HASH_FIND f_key (mft_flows m) (f_key f) of
          None \<Rightarrow> [m]
        | Some g \<Rightarrow> if f_priority g = f_priority f then act m g else [m]
      else [m])"

definition mod_act :: "flow \<Rightarrow> u64 \<Rightarrow> mini_flow_table \<Rightarrow> flow \<Rightarrow> mini_flow_table list" where
  "mod_act f time m g =
     (if flow_expired g time then flow_table_del_flow m g
      else [m\<lparr>mft_flows := hash_update f_key (mft_flows m) (f_key g)
              (\<lambda>h. flow_add_instructions h (f_insts f))\<rparr>])"

lemma strict_step_other:
  "f_mask f \<notin> mft_mask ` set ms \<Longrightarrow> concat (map (strict_step act f) ms) = ms"
  by (induction ms) (auto simp: strict_step_def)

lemma mod_flow_strict_pass:
  "mfts_ok mfts \<Longrightarrow> mod_flow_strict mfts f time = concat (map (strict_step (mod_act f time) f) mfts)"
proof (induction mfts)
  case (Cons m ms)
  show ?case
  proof (cases "mft_mask m = f_mask f")
    case True
    then have "mod_flow_strict (m # ms) f time = strict_step (mod_act f time) f m @ ms"
      by (auto simp: match_strict_def flow_key_cmp_iff strict_step_def mod_act_def
          flow_table_del_expired_def Let_def split: option.splits)
    moreover have "concat (map (strict_step (mod_act f time) f) ms) = ms"
      using True Cons.prems by (intro strict_step_other) (simp add: mfts_ok_Cons)
    ultimately show ?thesis
      by simp
  next
    case False
    then have "mod_flow_strict (m # ms) f time = m # mod_flow_strict ms f time"
        "strict_step (mod_act f time) f m = [m]"
      by (auto simp: match_strict_def flow_key_cmp_iff strict_step_def)
    then show ?thesis
      using Cons by (simp add: mfts_ok_Cons)
  qed
qed simp

lemma del_flow_strict_pass:
  "mfts_ok mfts \<Longrightarrow> del_flow_strict mfts f time = concat (map (strict_step flow_table_del_flow f) mfts)"
proof (induction mfts)
  case (Cons m ms)
  show ?case
  proof (cases "mft_mask m = f_mask f")
    case True
    then have "del_flow_strict (m # ms) f time = strict_step flow_table_del_flow f m @ ms"
      by (auto simp: match_strict_def flow_key_cmp_iff strict_step_def
          flow_table_del_expired_def Let_def split: option.splits)
    moreover have "concat (map (strict_step flow_table_del_flow f) ms) = ms"
      using True Cons.prems by (intro strict_step_other) (simp add: mfts_ok_Cons)
    ultimately show ?thesis
      by simp
  next
    case False
    then have "del_flow_strict (m # ms) f time = m # del_flow_strict ms f time"
        "strict_step flow_table_del_flow f m = [m]"
      by (auto simp: match_strict_def flow_key_cmp_iff strict_step_def)
    then show ?thesis
      using Cons by (simp add: mfts_ok_Cons)
  qed
qed simp

text \<open>A strict message finds no entry of a mini table, or exactly one.\<close>

lemma strict_step_cases:
  assumes "mft_ok m"
  obtains (none) "\<forall>g \<in> set (mft_flows m). \<not> same_entry f g" "strict_step act f m = [m]"
  | (one) g where "g \<in> set (mft_flows m)" "strict_step act f m = act m g"
      "\<forall>h \<in> set (mft_flows m). same_entry f h \<longleftrightarrow> h = g"
      "\<forall>h \<in> set (mft_flows m). f_key h = f_key g \<longleftrightarrow> h = g"
proof (cases "\<exists>g \<in> set (mft_flows m). same_entry f g")
  case True
  then obtain g where g: "g \<in> set (mft_flows m)" "same_entry f g"
    by blast
  have keys: "\<forall>h \<in> set (mft_flows m). f_key h = f_key g \<longleftrightarrow> h = g"
    using g(1) assms by (auto simp: mft_ok_def distinct_map dest: inj_onD)
  have "HASH_FIND f_key (mft_flows m) (f_key f) = Some g"
    using g mft_find [OF assms] by (simp add: same_entry_def)
  moreover have "mft_mask m = f_mask f"
    using g assms by (simp add: mft_ok_def same_entry_def)
  ultimately have "strict_step act f m = act m g"
    using g(2) by (simp add: strict_step_def same_entry_def)
  moreover have "\<forall>h \<in> set (mft_flows m). same_entry f h \<longleftrightarrow> h = g"
    using g(2) keys by (auto simp: same_entry_def)
  ultimately show ?thesis
    using one g(1) keys by blast
next
  case False
  have "strict_step act f m = [m]"
  proof (cases "HASH_FIND f_key (mft_flows m) (f_key f)")
    case (Some g)
    then have "g \<in> set (mft_flows m)" "f_key g = f_key f"
      using HASH_FIND_SomeD [OF Some] by simp_all
    then show ?thesis
      using Some False assms by (auto simp: strict_step_def same_entry_def mft_ok_def)
  qed (simp add: strict_step_def)
  then show ?thesis
    using none False by blast
qed

lemma strict_step_slot:
  assumes "mft_ok m" "\<And>g. g \<in> set (mft_flows m) \<Longrightarrow> same_slot m (act m g)"
  shows "same_slot m (strict_step act f m)"
  using assms(1)
proof (cases rule: strict_step_cases [where f = f and act = act])
  case (one g)
  then show ?thesis
    using assms(2) by simp
qed (simp add: assms(1))

lemma mod_act_slot:
  assumes "mft_ok m" "g \<in> set (mft_flows m)"
  shows "same_slot m (mod_act f time m g)"
  using del_flow_slot(1) [OF assms] update_slot(1) [OF assms(1)]
  by (auto simp: mod_act_def same_slot_single flow_add_instructions_def)

lemma del_strict_flows:
  assumes "mft_ok m"
  shows "mfts_flows (strict_step flow_table_del_flow f m) = {g \<in> set (mft_flows m). \<not> same_entry f g}"
  using assms
proof (cases rule: strict_step_cases [where f = f and act = flow_table_del_flow])
  case (one g)
  then show ?thesis
    using del_flow_slot(2) [OF assms one(1)] by auto
qed auto

lemma mod_strict_flows:
  assumes "mft_ok m"
  shows "mfts_flows (strict_step (mod_act f time) f m) =
    (\<lambda>g. if same_entry f g then flow_add_instructions g (f_insts f) else g) `
      {g \<in> set (mft_flows m). \<not> (same_entry f g \<and> flow_expired g time)}"
  using assms
proof (cases rule: strict_step_cases [where f = f and act = "mod_act f time"])
  case none
  then have "{g \<in> set (mft_flows m). \<not> (same_entry f g \<and> flow_expired g time)} = set (mft_flows m)"
    by auto
  moreover have "(\<lambda>g. if same_entry f g then flow_add_instructions g (f_insts f) else g) `
      set (mft_flows m) = (\<lambda>g. g) ` set (mft_flows m)"
    using none by (intro image_cong) auto
  ultimately show ?thesis
    using none by simp
next
  case (one g)
  let ?h = "\<lambda>g. if same_entry f g then flow_add_instructions g (f_insts f) else g"
  show ?thesis
  proof (cases "flow_expired g time")
    case True
    then have "{g \<in> set (mft_flows m). \<not> (same_entry f g \<and> flow_expired g time)} = set (mft_flows m) - {g}"
      using one by auto
    moreover have "?h ` (set (mft_flows m) - {g}) = (\<lambda>g. g) ` (set (mft_flows m) - {g})"
      using one by (intro image_cong) auto
    ultimately show ?thesis
      using True one(2) del_flow_slot(2) [OF assms one(1)] by (simp add: mod_act_def)
  next
    case False
    then have "mfts_flows (strict_step (mod_act f time) f m) =
        (\<lambda>h. if f_key h = f_key g then flow_add_instructions h (f_insts f) else h) ` set (mft_flows m)"
      using update_slot(2) [OF assms, of "\<lambda>h. flow_add_instructions h (f_insts f)" "f_key g"]
      by (simp add: one(2) mod_act_def flow_add_instructions_def)
    also have "\<dots> = ?h ` set (mft_flows m)"
      using one by (intro image_cong) auto
    also have "set (mft_flows m) = {g \<in> set (mft_flows m). \<not> (same_entry f g \<and> flow_expired g time)}"
      using False one by auto
    finally show ?thesis .
  qed
qed

lemma strict_correct:
  assumes "ft_inv ft"
  shows "ft_inv (modify_flow ft f True time)" "ft_inv (delete_flow ft f time True)"
    and "table_flows (delete_flow ft f time True) = {g \<in> table_flows ft. \<not> same_entry f g}"
    and "table_flows (modify_flow ft f True time) =
      (\<lambda>g. if same_entry f g then flow_add_instructions g (f_insts f) else g) `
        {g \<in> table_flows ft. \<not> (same_entry f g \<and> flow_expired g time)}"
proof -
  have ft: "mfts_ok (ft_flows ft)" and ok: "\<And>m. m \<in> set (ft_flows ft) \<Longrightarrow> mft_ok m"
    using assms by (simp_all add: ft_inv_def mfts_ok_def)
  note pass = mod_flow_strict_pass [OF ft] del_flow_strict_pass [OF ft]
  show "ft_inv (modify_flow ft f True time)" "ft_inv (delete_flow ft f time True)"
    using mfts_ok_pass [OF ft] strict_step_slot [OF ok] mod_act_slot [OF ok] del_flow_slot(1) [OF ok]
    by (simp_all add: ft_inv_def modify_flow_def delete_flow_def pass)
  show "table_flows (delete_flow ft f time True) = {g \<in> table_flows ft. \<not> same_entry f g}"
    using del_strict_flows [OF ok]
    by (auto simp: table_flows_def delete_flow_def pass mfts_flows_pass) (auto simp: mfts_flows_def)
  have "table_flows (modify_flow ft f True time) =
      (\<Union>m \<in> set (ft_flows ft). (\<lambda>g. if same_entry f g then flow_add_instructions g (f_insts f) else g) `
        {g \<in> set (mft_flows m). \<not> (same_entry f g \<and> flow_expired g time)})"
    using mod_strict_flows [OF ok] by (simp add: table_flows_def modify_flow_def pass mfts_flows_pass)
  then show "table_flows (modify_flow ft f True time) =
      (\<lambda>g. if same_entry f g then flow_add_instructions g (f_insts f) else g) `
        {g \<in> table_flows ft. \<not> (same_entry f g \<and> flow_expired g time)}"
    unfolding table_flows_def mfts_flows_def by blast
qed

subsection \<open>Non-strict modification and deletion\<close>

text \<open>A flow covers another when it matches every packet the other matches.\<close>

definition covers :: "flow \<Rightarrow> flow \<Rightarrow> bool" where
  "covers f g \<longleftrightarrow> (\<forall>p. wf_key p \<longrightarrow> flow_matches g p \<longrightarrow> flow_matches f p)"

lemma non_strict_covers:
  assumes "mft_ok m" "g \<in> set (mft_flows m)" "wf_key (f_mask f)"
  shows "is_flow_non_strict_in_mft (f_mask f) m \<and> match_non_strict (f_key f) (f_mask f) (f_key g) \<longleftrightarrow>
    covers f g"
proof -
  have g: "flow_ok g" "f_mask g = mft_mask m"
    using assms(1,2) by (simp_all add: mft_ok_def)
  show ?thesis
    using masked_subset_iff [OF g(1) assms(3), of "f_key f"] g(2)
    by (simp add: is_flow_non_strict_in_mft_def match_non_strict_def flow_key_cmp_iff covers_def
        flow_matches_def [of f])
qed

definition mod_non_strict_step :: "flow \<Rightarrow> u64 \<Rightarrow> mini_flow_table \<Rightarrow> mini_flow_table list" where
  "mod_non_strict_step f time mft =
     (if is_flow_non_strict_in_mft (f_mask f) mft then
         let flows = concat (map (\<lambda>g.
               if match_non_strict (f_key f) (f_mask f) (f_key g)
               then if flow_expired g time then [] else [flow_add_instructions g (f_insts f)]
               else [g]) (mft_flows mft))
         in if flows = [] \<and> mft_flows mft \<noteq> [] then [] else [mft\<lparr>mft_flows := flows\<rparr>]
      else [mft])"

lemma distinct_keys_concat:
  assumes "distinct (map f_key gs)" "\<And>g h. h \<in> set (step g) \<Longrightarrow> step g = [h] \<and> f_key h = f_key g"
  shows "distinct (map f_key (concat (map step gs))) \<and> f_key ` set (concat (map step gs)) \<subseteq> f_key ` set gs"
  using assms(1)
proof (induction gs)
  case (Cons g gs)
  show ?case
  proof (cases "step g")
    case Nil
    then show ?thesis
      using Cons by auto
  next
    case (Cons h hs)
    then have "step g = [h]" "f_key h = f_key g"
      using assms(2) [of h g] by auto
    then show ?thesis
      using Cons.IH Cons.prems by auto
  qed
qed simp

lemma mod_non_strict_slot:
  assumes "mft_ok m"
  shows "same_slot m (mod_non_strict_step f time m)"
proof -
  let ?step = "\<lambda>g. if match_non_strict (f_key f) (f_mask f) (f_key g)
    then if flow_expired g time then [] else [flow_add_instructions g (f_insts f)] else [g]"
  have "distinct (map f_key (concat (map ?step (mft_flows m))))"
    using assms by (intro distinct_keys_concat [THEN conjunct1])
      (auto simp: mft_ok_def flow_add_instructions_def split: if_splits)
  then show ?thesis
    using assms
    by (auto simp: mod_non_strict_step_def same_slot_def Let_def mft_ok_def flow_add_instructions_def
        split: if_splits intro: flow_ok_cong [THEN iffD1])
qed

lemma mod_non_strict_flows:
  assumes "mft_ok m" "wf_key (f_mask f)"
  shows "mfts_flows (mod_non_strict_step f time m) =
    (\<lambda>g. if covers f g then flow_add_instructions g (f_insts f) else g) `
      {g \<in> set (mft_flows m). \<not> (covers f g \<and> flow_expired g time)}"
proof -
  note c = non_strict_covers [OF assms(1) _ assms(2), symmetric]
  show ?thesis
  proof (cases "is_flow_non_strict_in_mft (f_mask f) m")
    case True
    then show ?thesis
      using c by (auto simp: mod_non_strict_step_def Let_def split: if_splits)
  next
    case False
    then have "\<not> covers f g" if "g \<in> set (mft_flows m)" for g
      using c [OF that] by simp
    then show ?thesis
      using False by (force simp: mod_non_strict_step_def)
  qed
qed

lemma del_non_strict_flows:
  assumes "mft_ok m" "wf_key (f_mask f)"
  defines "left \<equiv> (if \<not> is_flow_non_strict_in_mft (f_mask f) m then [m]
    else let m = m\<lparr>mft_flows :=
           filter (\<lambda>g. \<not> match_non_strict (f_key f) (f_mask f) (f_key g)) (mft_flows m)\<rparr>
         in if mft_flows m = [] then [] else [m])"
  shows "same_slot m left" and "mfts_flows left = {g \<in> set (mft_flows m). \<not> covers f g}"
proof -
  note c = non_strict_covers [OF assms(1) _ assms(2), symmetric]
  show "same_slot m left"
    using assms(1) by (auto simp: left_def same_slot_def Let_def mft_ok_def distinct_map_filter)
  show "mfts_flows left = {g \<in> set (mft_flows m). \<not> covers f g}"
  proof (cases "is_flow_non_strict_in_mft (f_mask f) m")
    case True
    then have "{g \<in> set (mft_flows m). \<not> covers f g} =
        {g \<in> set (mft_flows m). \<not> match_non_strict (f_key f) (f_mask f) (f_key g)}"
      using c by auto
    then show ?thesis
      using True by (auto simp: left_def Let_def filter_empty_conv)
  next
    case False
    then show ?thesis
      using c by (auto simp: left_def)
  qed
qed

lemma non_strict_correct:
  assumes "ft_inv ft" "wf_key (f_mask f)"
  shows "ft_inv (modify_flow ft f False time)" "ft_inv (delete_flow ft f time False)"
    and "table_flows (delete_flow ft f time False) = {g \<in> table_flows ft. \<not> covers f g}"
    and "table_flows (modify_flow ft f False time) =
      (\<lambda>g. if covers f g then flow_add_instructions g (f_insts f) else g) `
        {g \<in> table_flows ft. \<not> (covers f g \<and> flow_expired g time)}"
proof -
  have ft: "mfts_ok (ft_flows ft)" and ok: "\<And>m. m \<in> set (ft_flows ft) \<Longrightarrow> mft_ok m"
    using assms by (simp_all add: ft_inv_def mfts_ok_def)
  have mod: "mod_flow_non_strict (ft_flows ft) f time = concat (map (mod_non_strict_step f time) (ft_flows ft))"
    unfolding mod_flow_non_strict_def mod_non_strict_step_def ..
  show "ft_inv (modify_flow ft f False time)"
    using mfts_ok_pass [OF ft] mod_non_strict_slot [OF ok] by (simp add: ft_inv_def modify_flow_def mod)
  show "ft_inv (delete_flow ft f time False)"
    using mfts_ok_pass [OF ft] del_non_strict_flows(1) [OF ok assms(2)]
    by (simp add: ft_inv_def delete_flow_def del_flow_non_strict_def)
  have "table_flows (delete_flow ft f time False) =
      (\<Union>m \<in> set (ft_flows ft). {g \<in> set (mft_flows m). \<not> covers f g})"
    using del_non_strict_flows(2) [OF ok assms(2)]
    by (simp add: table_flows_def delete_flow_def del_flow_non_strict_def mfts_flows_pass)
  then show "table_flows (delete_flow ft f time False) = {g \<in> table_flows ft. \<not> covers f g}"
    unfolding table_flows_def mfts_flows_def by blast
  have "table_flows (modify_flow ft f False time) =
      (\<Union>m \<in> set (ft_flows ft). (\<lambda>g. if covers f g then flow_add_instructions g (f_insts f) else g) `
        {g \<in> set (mft_flows m). \<not> (covers f g \<and> flow_expired g time)})"
    using mod_non_strict_flows [OF ok assms(2)]
    by (simp add: table_flows_def modify_flow_def mod mfts_flows_pass)
  then show "table_flows (modify_flow ft f False time) =
      (\<lambda>g. if covers f g then flow_add_instructions g (f_insts f) else g) `
        {g \<in> table_flows ft. \<not> (covers f g \<and> flow_expired g time)}"
    unfolding table_flows_def mfts_flows_def by blast
qed

subsection \<open>Statistics\<close>

abbreviation stats_sel :: "ofl_flow_stats_req \<Rightarrow> u64 \<Rightarrow> flow \<Rightarrow> bool" where
  "stats_sel req time g \<equiv>
     match_non_strict (req_match req) (req_mask req) (f_key g) \<and> \<not> flow_expired g time"

abbreviation stats_kept :: "ofl_flow_stats_req \<Rightarrow> u64 \<Rightarrow> flow \<Rightarrow> bool" where
  "stats_kept req time g \<equiv>
     \<not> (match_non_strict (req_match req) (req_mask req) (f_key g) \<and> flow_expired g time)"

lemma stats_flows_loop_total:
  assumes "length flows \<le> allocated" "allocated \<le> cap" "1 \<le> allocated"
  shows "\<exists>cap' allocated'. stats_flows_loop req time gs (flows, cap, allocated) =
      Inr (filter (stats_kept req time) gs, flows @ filter (stats_sel req time) gs, cap', allocated') \<and>
    length (flows @ filter (stats_sel req time) gs) \<le> allocated' \<and> allocated' \<le> cap' \<and> 1 \<le> allocated'"
  using assms
proof (induction gs arbitrary: flows cap allocated)
  case (Cons g gs)
  show ?case
  proof (cases "stats_sel req time g")
    case True
    show ?thesis
    proof (cases "allocated = length flows")
      case grow: True
      then show ?thesis
        using Cons.IH [of "flows @ [g]" "allocated * 2" "allocated * 2"] Cons.prems True
        by (auto simp: Let_def)
    next
      case False
      then show ?thesis
        using Cons.IH [of "flows @ [g]" allocated cap] Cons.prems True by (auto simp: Let_def)
    qed
  next
    case False
    then show ?thesis
      using Cons.IH [OF Cons.prems] by auto
  qed
qed simp

text \<open>The statistics pass over the mini tables.\<close>

definition stats_found :: "ofl_flow_stats_req \<Rightarrow> u64 \<Rightarrow> mini_flow_table list \<Rightarrow> flow list" where
  "stats_found req time mfts =
     concat (map (\<lambda>m. if is_flow_non_strict_in_mft (req_mask req) m
        then filter (stats_sel req time) (mft_flows m) else []) mfts)"

lemma stats_loop_total:
  assumes "length flows \<le> allocated" "allocated \<le> cap" "1 \<le> allocated"
  shows "\<exists>mfts' cap' allocated'. stats_loop req time mfts (flows, cap, allocated) =
    Inr (mfts', flows @ stats_found req time mfts, cap', allocated')"
  using assms
proof (induction mfts arbitrary: flows cap allocated)
  case (Cons m ms)
  show ?case
  proof (cases "is_flow_non_strict_in_mft (req_mask req) m")
    case True
    obtain cap' allocated' where
      "stats_flows_loop req time (mft_flows m) (flows, cap, allocated) =
        Inr (filter (stats_kept req time) (mft_flows m),
          flows @ filter (stats_sel req time) (mft_flows m), cap', allocated')"
      "length (flows @ filter (stats_sel req time) (mft_flows m)) \<le> allocated'" "allocated' \<le> cap'"
      "1 \<le> allocated'"
      using stats_flows_loop_total [OF Cons.prems, of req time "mft_flows m"] by blast
    then show ?thesis
      using Cons.IH [of "flows @ filter (stats_sel req time) (mft_flows m)" allocated' cap'] True
      by (auto simp: stats_found_def)
  next
    case False
    then show ?thesis
      using Cons.IH [OF Cons.prems] by (auto simp: stats_found_def)
  qed
qed (simp add: stats_found_def)

text \<open>What a request that returns leaves in the table, whatever its array was.\<close>

definition stats_step :: "ofl_flow_stats_req \<Rightarrow> u64 \<Rightarrow> mini_flow_table \<Rightarrow> mini_flow_table list" where
  "stats_step req time m =
     (if is_flow_non_strict_in_mft (req_mask req) m then
        let kept = filter (stats_kept req time) (mft_flows m)
        in if kept = [] \<and> mft_flows m \<noteq> [] then [] else [m\<lparr>mft_flows := kept\<rparr>]
      else [m])"

lemma stats_flows_loop_kept:
  "stats_flows_loop req time gs st = Inr (kept, st') \<Longrightarrow> kept = filter (stats_kept req time) gs"
  by (induction req time gs st arbitrary: kept rule: stats_flows_loop.induct)
    (auto simp: Let_def split: if_splits)

lemma stats_loop_kept:
  "stats_loop req time mfts st = Inr (mfts', st') \<Longrightarrow> mfts' = concat (map (stats_step req time) mfts)"
  by (induction mfts arbitrary: st mfts' st')
    (fastforce simp: stats_step_def Let_def dest: stats_flows_loop_kept split: if_splits)+

lemma ft_inv_stats:
  assumes "ft_inv ft" "flow_table_stats ft req arr time = Inr (ft', arr')"
  shows "ft_inv ft'" "table_flows ft' \<subseteq> table_flows ft"
proof -
  have ft': "ft_flows ft' = concat (map (stats_step req time) (ft_flows ft))"
    using assms(2) stats_loop_kept by (fastforce simp: flow_table_stats_def split: prod.splits)
  have "same_slot m (stats_step req time m)" if "m \<in> set (ft_flows ft)" for m
  proof -
    have "mft_ok m"
      using assms(1) that by (simp add: ft_inv_def mfts_ok_def)
    then show ?thesis
      by (auto simp: stats_step_def same_slot_def mft_ok_def Let_def distinct_map_filter)
  qed
  then show "ft_inv ft'"
    using mfts_ok_pass assms(1) by (simp add: ft_inv_def ft')
  show "table_flows ft' \<subseteq> table_flows ft"
    by (auto simp: table_flows_def ft' mfts_flows_pass stats_step_def Let_def split: if_splits)
      (auto simp: mfts_flows_def)
qed

lemma ft_inv_new [simp]: "ft_inv (flow_table_new table_id)"
  by (simp add: ft_inv_def flow_table_new_def)

lemma table_flows_new [simp]: "table_flows (flow_table_new table_id) = {}"
  by (simp add: table_flows_def flow_table_new_def)

subsection \<open>An example table\<close>

text \<open>One entry of priority 20 for the packets from port 2, and a flow for the packets from any
  port.\<close>

definition blank_flow :: flow where
  "blank_flow = flow_new \<lparr>f_key = zero_key, f_mask = zero_key, f_table_id = 0, f_flags = 0,
     f_priority = 0, f_cookie = 0, f_pkt_cnt = 0, f_byte_cnt = 0, f_created = 0,
     f_hard_timeout = 0, f_idle_timeout = 0, f_remove_at = 0, f_last_used = 0,
     f_insts = instruction_set_zero\<rparr>"

definition port_flow :: flow where
  "port_flow = set_in_port blank_flow 2\<lparr>f_priority := 20\<rparr>"

definition example_table :: flow_table where
  "example_table = add_flow (flow_table_new 0) port_flow 5"

lemma flow_ok_examples [simp]: "flow_ok blank_flow" "flow_ok port_flow" "wf_key (f_mask blank_flow)"
proof -
  show b: "flow_ok blank_flow"
    by (simp add: blank_flow_def)
  then have "flow_ok (set_in_port blank_flow 2)"
    by (rule flow_ok_exact)
  then show "flow_ok port_flow"
    by (simp add: port_flow_def flow_ok_def)
  show "wf_key (f_mask blank_flow)"
    using b by (rule flow_okD)
qed

lemma example_table_facts:
  "ft_inv example_table"
  "table_flows example_table = {port_flow\<lparr>f_remove_at := 5, f_last_used := 5\<rparr>}"
  using add_flow_correct [OF ft_inv_new flow_ok_examples(2), of 0 5]
  by (simp_all add: example_table_def port_flow_def blank_flow_def set_in_port_def flow_new_def
      init_instruction_set_def)

lemma port_flow_simps [simp]:
  "f_priority port_flow = 20" "f_hard_timeout port_flow = 0" "f_idle_timeout port_flow = 0"
  by (simp_all add: port_flow_def blank_flow_def set_in_port_def flow_new_def init_instruction_set_def)

lemma blank_matches [simp]: "flow_matches blank_flow p \<longleftrightarrow> apply_all_mask p zero_key = zero_key"
  by (simp add: flow_matches_def blank_flow_def flow_new_def init_instruction_set_def)

lemma mask_zero: "wf_key p \<Longrightarrow> apply_all_mask p zero_key = zero_key"
proof -
  have z: "map2 (AND) xs (replicate n 0) = replicate n 0" if "length xs = n" for xs :: bytes and n
    using that by (induction xs arbitrary: n) auto
  show "wf_key p \<Longrightarrow> ?thesis"
    by (rule key_eqI) (simp_all add: zero_key_def wf_key_def z)
qed

lemma blank_covers: "covers blank_flow g"
  by (simp add: covers_def mask_zero)

subsection \<open>Properties\<close>

text \<open>C1: a lookup returns the entry of highest priority among the unexpired entries that match
  the packet's key, with its last use set to now, and nothing exactly when there is none; it
  removes the expired entries that match, keeps every other entry, and keeps the table
  well formed.\<close>

theorem flow_table_lookup_correct:
  assumes "ft_inv ft" "flow_table_lookup ft key time = (ret, ft')"
  shows "ft_inv ft' \<and>
    (case ret of
       None \<Rightarrow> (\<forall>g \<in> table_flows ft. flow_matches g key \<longrightarrow> flow_expired g time)
     | Some f \<Rightarrow> \<exists>g \<in> table_flows ft. f = g\<lparr>f_last_used := time\<rparr> \<and> flow_matches g key \<and>
         \<not> flow_expired g time \<and>
         (\<forall>h \<in> table_flows ft. flow_matches h key \<and> \<not> flow_expired h time \<longrightarrow>
            f_priority h \<le> f_priority g)) \<and>
    table_flows ft' =
      (\<lambda>g. if (\<exists>f. ret = Some f \<and> f_mask g = f_mask f \<and> f_key g = f_key f)
           then g\<lparr>f_last_used := time\<rparr> else g) `
        {g \<in> table_flows ft. \<not> (flow_matches g key \<and> flow_expired g time)}"
  using lookup_result [OF assms] lookup_effect [OF assms] ft_inv_lookup [OF assms(1), of key time]
    assms(2)
  by simp

theorem flow_table_lookup_correct_witness:
  "\<exists>f ft'. flow_table_lookup example_table (f_key port_flow) 9 = (Some f, ft') \<and>
     f_priority f = 20 \<and> ft_inv ft'"
proof -
  obtain ret ft' where l: "flow_table_lookup example_table (f_key port_flow) 9 = (ret, ft')"
    by (cases "flow_table_lookup example_table (f_key port_flow) 9")
  have "flow_matches (port_flow\<lparr>f_remove_at := 5, f_last_used := 5\<rparr>) (f_key port_flow)"
    using flow_okD(3) [OF flow_ok_examples(2)] by (simp add: flow_matches_def)
  moreover have "\<not> flow_expired (port_flow\<lparr>f_remove_at := 5, f_last_used := 5\<rparr>) 9"
    by (simp add: flow_expired_def)
  ultimately show ?thesis
    using flow_table_lookup_correct [OF example_table_facts(1) l] l
    by (auto simp: example_table_facts(2) split: option.splits)
qed

text \<open>C12: adding an entry whose match is not in the table adds exactly that entry, with its
  absolute removal time and its last use, and keeps the table well formed.\<close>

theorem add_flow_exact:
  assumes "ft_inv ft" "flow_ok f"
    and "\<forall>g \<in> table_flows ft. \<not> (f_mask g = f_mask f \<and> f_key g = f_key f)"
  shows "ft_inv (add_flow ft f time) \<and>
    table_flows (add_flow ft f time) =
      insert (f\<lparr>f_remove_at := f_hard_timeout f * 1000000 + time, f_last_used := time\<rparr>)
        (table_flows ft)"
  using add_flow_correct [OF assms] by blast

theorem add_flow_exact_witness:
  "ft_inv (add_flow (flow_table_new 3) port_flow 7) \<and>
   table_flows (add_flow (flow_table_new 3) port_flow 7) =
     {port_flow\<lparr>f_remove_at := 7, f_last_used := 7\<rparr>}"
  using add_flow_exact [OF ft_inv_new flow_ok_examples(2), of 3 7] by simp

text \<open>C10: a non-strict delete removes exactly the entries that match no packet outside the
  filter: the test on masks and masked keys is inclusion of the sets of matched packets.\<close>

theorem delete_non_strict_exact:
  assumes "ft_inv ft" "wf_key (f_mask f)"
  shows "ft_inv (delete_flow ft f time False) \<and>
    table_flows (delete_flow ft f time False) =
      {g \<in> table_flows ft.
         \<not> (\<forall>p. wf_key p \<longrightarrow> flow_matches g p \<longrightarrow> flow_matches f p)}"
  using non_strict_correct(2,3) [OF assms] by (simp add: covers_def)

theorem delete_non_strict_exact_witness:
  "table_flows example_table \<noteq> {} \<and> table_flows (delete_flow example_table blank_flow 9 False) = {}"
proof -
  have "\<forall>p. wf_key p \<longrightarrow> flow_matches g p \<longrightarrow> flow_matches blank_flow p" for g
    using blank_covers [of g] by (simp add: covers_def)
  then show ?thesis
    using delete_non_strict_exact [OF example_table_facts(1) flow_ok_examples(3), of 9]
    by (simp add: example_table_facts(2))
qed

text \<open>C11: a non-strict modification replaces the instructions of exactly the unexpired entries
  whose packets the filter covers, removes the expired ones among those, and keeps the rest.\<close>

theorem modify_non_strict_exact:
  assumes "ft_inv ft" "wf_key (f_mask f)"
  shows "ft_inv (modify_flow ft f False time) \<and>
    table_flows (modify_flow ft f False time) =
      (\<lambda>g. if covers f g then g\<lparr>f_insts := f_insts f\<rparr> else g) `
        {g \<in> table_flows ft. \<not> (covers f g \<and> flow_expired g time)}"
  using non_strict_correct(1,4) [OF assms] by (simp add: flow_add_instructions_def)

theorem modify_non_strict_exact_witness:
  "f_insts ` table_flows (modify_flow example_table blank_flow False 9) = {f_insts blank_flow}"
proof -
  have "{g \<in> table_flows example_table. \<not> (covers blank_flow g \<and> flow_expired g 9)} =
      table_flows example_table"
    by (auto simp: example_table_facts(2) flow_expired_def)
  then show ?thesis
    using modify_non_strict_exact [OF example_table_facts(1) flow_ok_examples(3), of 9]
    by (simp add: blank_covers example_table_facts(2))
qed

text \<open>C13: strict messages act on the one entry with the same mask, key and priority: a delete
  removes exactly it, a modification gives it the instructions unless it has expired, in which case
  it is removed; nothing else changes and the table stays well formed.\<close>

theorem strict_messages_exact:
  assumes "ft_inv ft"
  shows "ft_inv (delete_flow ft f time True) \<and> ft_inv (modify_flow ft f True time) \<and>
    table_flows (delete_flow ft f time True) = {g \<in> table_flows ft. \<not> same_entry f g} \<and>
    table_flows (modify_flow ft f True time) =
      (\<lambda>g. if same_entry f g then g\<lparr>f_insts := f_insts f\<rparr> else g) `
        {g \<in> table_flows ft. \<not> (same_entry f g \<and> flow_expired g time)}"
  using strict_correct [OF assms] by (simp add: flow_add_instructions_def)

theorem strict_messages_exact_witness:
  "table_flows (delete_flow example_table port_flow 9 True) = {}"
  using strict_messages_exact [OF example_table_facts(1), of port_flow 9]
  by (auto simp: example_table_facts(2) same_entry_def)

text \<open>a statistics request on an empty result array never writes outside it and returns, in
  the order of the table, the unexpired flows of the mini tables whose mask includes the
  request's and whose masked key is the request's.\<close>

theorem flow_table_stats_in_bounds:
  assumes "1 \<le> cap"
  shows "\<exists>ft' cap'. flow_table_stats ft req ([], cap) time =
    Inr (ft', stats_found req time (ft_flows ft), cap')"
proof -
  obtain mfts' cap' allocated' where
    "stats_loop req time (ft_flows ft) ([], cap, 1) =
       Inr (mfts', [] @ stats_found req time (ft_flows ft), cap', allocated')"
    using stats_loop_total [of "[]" 1 cap req time "ft_flows ft"] assms by auto
  then show ?thesis
    by (simp add: flow_table_stats_def)
qed

theorem flow_table_stats_in_bounds_witness:
  "\<exists>ft' cap'. flow_table_stats (flow_table_new 0)
     \<lparr>req_table_id = 0, req_out_port = 0, req_out_group = 0, req_cookie = 0, req_cookie_mask = 0,
       req_match = zero_key, req_mask = zero_key\<rparr> ([], 1) 9 = Inr (ft', [], cap')"
  using flow_table_stats_in_bounds [of 1 "flow_table_new 0"
      "\<lparr>req_table_id = 0, req_out_port = 0, req_out_group = 0, req_cookie = 0, req_cookie_mask = 0,
        req_match = zero_key, req_mask = zero_key\<rparr>" 9]
  by (simp add: stats_found_def flow_table_new_def)

text \<open>A second call on an array the first has filled writes past its end: the local count of
  cells starts from 1 again and never meets the number of flows.\<close>

lemma stats_second_call_overflows:
  assumes "stats_sel req time g" "length flows = cap" "cap \<noteq> 1"
  shows "stats_flows_loop req time (g # gs) (flows, cap, 1) = Inl Out_Of_Bounds"
  using assms by simp

text \<open>Adding an entry with a match that is already there does not replace it: the later entry
  hides the earlier one, whatever their priorities.\<close>

lemma add_flow_duplicate_hides_priority:
  assumes "flow_ok f" "flow_ok g" "f_mask g = f_mask f" "f_key g = f_key f"
    and "f_hard_timeout g = 0" "f_idle_timeout g = 0" "flow_matches f p"
  shows "map_option f_priority
    (fst (flow_table_lookup (add_flow (add_flow (flow_table_new i) f t1) g t2) p t3)) =
    Some (f_priority g)"
  using assms
  by (simp add: flow_table_lookup_def add_flow_def flow_table_new_def mini_flow_table_new_def
      mini_flow_table_add_flow_def flow_key_cmp_iff HASH_ADD_def HASH_FIND_def flow_matches_def
      flow_table_del_expired_def flow_expired_def Let_def less_le_trans [OF _ uint_nonnegative])

end
