(* ===== verification/Loci.thy ===== *)
theory Loci
  imports Flow_Table Netflow
begin

section \<open>The OpenFlow objects of LOCI, as the code uses them\<close>

text \<open>
  The OpenFlow messages are built and read through LOCI, a generated library.  This theory has the
  part of its objects that the code sees.  A message is the record of what the getters of its class
  return.  Lists of instructions and actions are kept as bytes on the wire, because the code reads
  them through offsets of the wire buffer.  LOCI checks the class of an object and the bounds of
  its buffer with assertions; they end the process in a debug build and are compiled out of a
  release build, which is the argument \<open>ndebug\<close>: then a getter reads the bytes at its offset,
  whatever the object is.
\<close>

subsection \<open>Wire buffers\<close>

definition loci_assert :: "bool \<Rightarrow> bool \<Rightarrow> unit res" where
  "loci_assert ndebug c = (if ndebug \<or> c then Inr () else Inl Abort)"

definition access_error :: "bool \<Rightarrow> c_error" where
  "access_error ndebug = (if ndebug then Out_Of_Bounds else Abort)"

definition wire_get :: "bool \<Rightarrow> nat \<Rightarrow> bytes \<Rightarrow> nat \<Rightarrow> bytes res" where
  "wire_get ndebug n buf off =
     (if off + n \<le> length buf then Inr (take n (drop off buf)) else Inl (access_error ndebug))"

definition wire_u8 :: "bool \<Rightarrow> bytes \<Rightarrow> nat \<Rightarrow> u8 res" where
  "wire_u8 ndebug buf off = rbind (wire_get ndebug 1 buf off) (\<lambda>b. Inr (b ! 0))"

definition wire_u16 :: "bool \<Rightarrow> bytes \<Rightarrow> nat \<Rightarrow> u16 res" where
  "wire_u16 ndebug buf off = rbind (wire_get ndebug 2 buf off) (\<lambda>b. Inr (get16 (b ! 0) (b ! 1)))"

definition wire_u32 :: "bool \<Rightarrow> bytes \<Rightarrow> nat \<Rightarrow> u32 res" where
  "wire_u32 ndebug buf off =
     rbind (wire_get ndebug 4 buf off) (\<lambda>b. Inr (get32 (b ! 0) (b ! 1) (b ! 2) (b ! 3)))"

definition get64 :: "bytes \<Rightarrow> u64" where
  "get64 b = push_bit 32 (ucast (get32 (b ! 0) (b ! 1) (b ! 2) (b ! 3))) OR
     ucast (get32 (b ! 4) (b ! 5) (b ! 6) (b ! 7))"

definition put64 :: "u64 \<Rightarrow> bytes" where
  "put64 x = put32 (ucast (drop_bit 32 x)) @ put32 (ucast x)"

definition wire_u64 :: "bool \<Rightarrow> bytes \<Rightarrow> nat \<Rightarrow> u64 res" where
  "wire_u64 ndebug buf off = rbind (wire_get ndebug 8 buf off) (\<lambda>b. Inr (get64 b))"

text \<open>The iteration over a list of objects with a 16-bit length at offset 2: the body gets the buffer
  from the object on.  An object of length zero is asserted away, or visited for ever.\<close>

function list_iter :: "bool \<Rightarrow> (bytes \<Rightarrow> 's \<Rightarrow> 's res) \<Rightarrow> bytes \<Rightarrow> nat \<Rightarrow> 's \<Rightarrow> 's res" where
  "list_iter ndebug body buf off s =
     (case wire_u16 ndebug buf (off + 2) of
        Inl e \<Rightarrow> Inl e
      | Inr len \<Rightarrow>
          (case body (drop off buf) s of
             Inl e \<Rightarrow> Inl e
           | Inr s' \<Rightarrow>
               if len = 0 then Inl (if ndebug then Diverges else Abort)
               else if off + unat len \<ge> length buf then Inr s'
               else list_iter ndebug body buf (off + unat len) s'))"
  by pat_completeness auto
termination
  by (relation "measure (\<lambda>(ndebug, body, buf, off, s). length buf - off)")
    (auto simp: unat_gt_0 intro!: diff_less_mono2)

declare list_iter.simps [simp del]

definition OF_LIST_ITER :: "bool \<Rightarrow> (bytes \<Rightarrow> 's \<Rightarrow> 's res) \<Rightarrow> bytes \<Rightarrow> 's \<Rightarrow> 's res" where
  "OF_LIST_ITER ndebug body buf s = (if buf = [] then Inr s else list_iter ndebug body buf 0 s)"

subsection \<open>Matches\<close>

text \<open>The members of \<open>of_match_fields_t\<close> that the code reads or writes.\<close>

record of_match_fields =
  mf_in_port :: u32
  mf_in_phy_port :: u32
  mf_metadata :: u64
  mf_tunnel_id :: u64
  mf_eth_dst :: bytes
  mf_eth_src :: bytes
  mf_eth_type :: u16
  mf_vlan_vid :: u16
  mf_vlan_pcp :: u8
  mf_ip_dscp :: u8
  mf_ip_ecn :: u8
  mf_ip_proto :: u8
  mf_ipv4_src :: u32
  mf_ipv4_dst :: u32
  mf_tcp_src :: u16
  mf_tcp_dst :: u16
  mf_udp_src :: u16
  mf_udp_dst :: u16
  mf_sctp_src :: u16
  mf_sctp_dst :: u16
  mf_icmpv4_type :: u8
  mf_icmpv4_code :: u8
  mf_arp_op :: u16
  mf_arp_spa :: u32
  mf_arp_tpa :: u32
  mf_arp_sha :: bytes
  mf_arp_tha :: bytes
  mf_ipv6_src :: bytes
  mf_ipv6_dst :: bytes
  mf_ipv6_flabel :: u32
  mf_icmpv6_type :: u8
  mf_icmpv6_code :: u8
  mf_ipv6_nd_target :: bytes
  mf_ipv6_nd_sll :: bytes
  mf_ipv6_nd_tll :: bytes
  mf_mpls_label :: u32
  mf_mpls_tc :: u8
  mf_mpls_bos :: u8

record of_match =
  match_fields :: of_match_fields
  match_masks :: of_match_fields

subsection \<open>Objects\<close>

datatype of_object_id =
    OF_PACKET_OUT | OF_FLOW_ADD | OF_FLOW_MODIFY | OF_FLOW_MODIFY_STRICT | OF_FLOW_DELETE
  | OF_FLOW_DELETE_STRICT | OF_PORT_STATS_REQUEST | OF_FLOW_STATS_REQUEST
  | OF_AGGREGATE_STATS_REQUEST | OF_FEATURES_REQUEST | OF_PORT_MOD | OF_DESC_STATS_REQUEST
  | OF_PORT_DESC_STATS_REQUEST | OF_OTHER_OBJECT

text \<open>The getters of a match and of a list may fail, which is \<open>None\<close>.\<close>

record of_flow_modify =
  fm_table_id :: u8
  fm_idle_timeout :: u16
  fm_hard_timeout :: u16
  fm_flags :: u16
  fm_cookie :: u64
  fm_priority :: u16
  fm_match :: "of_match option"
  fm_instructions :: "bytes option"

record of_stats_request =
  sr_cookie :: u64
  sr_cookie_mask :: u64
  sr_table_id :: u8
  sr_out_port :: u32
  sr_out_group :: u32
  sr_match :: "of_match option"

record of_packet_out =
  po_buffer_id :: u32
  po_in_port :: u32
  po_actions :: bytes
  po_data :: "bytes option"

datatype of_body =
    Flow_Modify of_flow_modify
  | Stats_Request of_stats_request
  | Packet_Out of_packet_out
  | Port_Stats_Request u32
  | No_Body

record of_object =
  object_id :: of_object_id
  of_xid :: u32
  of_body :: of_body

text \<open>What the getters of a class return for an object of another class.\<close>

definition flow_modify_of :: "of_object \<Rightarrow> of_flow_modify res" where
  "flow_modify_of obj = (case of_body obj of Flow_Modify fm \<Rightarrow> Inr fm | _ \<Rightarrow> Inl Abort)"

definition stats_request_of :: "of_object \<Rightarrow> of_stats_request res" where
  "stats_request_of obj = (case of_body obj of Stats_Request sr \<Rightarrow> Inr sr | _ \<Rightarrow> Inl Abort)"

definition packet_out_of :: "of_object \<Rightarrow> of_packet_out res" where
  "packet_out_of obj = (case of_body obj of Packet_Out po \<Rightarrow> Inr po | _ \<Rightarrow> Inl Abort)"

definition port_stats_request_of :: "of_object \<Rightarrow> u32 res" where
  "port_stats_request_of obj = (case of_body obj of Port_Stats_Request p \<Rightarrow> Inr p | _ \<Rightarrow> Inl Abort)"

subsection \<open>Reading what was written\<close>

lemma wire_get_append:
  "length pre = off \<Longrightarrow> length x = n \<Longrightarrow> wire_get ndebug n (pre @ x @ post) off = Inr x"
  by (simp add: wire_get_def)

lemma length_put64 [simp]: "length (put64 x) = 8"
  by (simp add: put64_def)

lemma get64_put64 [simp]: "get64 (put64 x) = x"
proof -
  have "push_bit 32 (ucast (ucast (drop_bit 32 x) :: u32)) OR ucast (ucast x :: u32) = x"
    by (rule bit_word_eqI) (auto simp: bit_simps)
  then show ?thesis
    by (simp add: get64_def put64_def put32_def nth_append)
qed

lemma wire_reads:
  assumes "length pre = off"
  shows "wire_u8 nd (pre @ a # post) off = Inr a"
    and "wire_u16 nd (pre @ put16 v @ post) off = Inr v"
    and "wire_u32 nd (pre @ put32 w @ post) off = Inr w"
    and "wire_u64 nd (pre @ put64 x @ post) off = Inr x"
  using assms wire_get_append [OF assms, of "[a]" 1 nd post] wire_get_append [OF assms, of "put16 v" 2 nd post]
    wire_get_append [OF assms, of "put32 w" 4 nd post] wire_get_append [OF assms, of "put64 x" 8 nd post]
  by (simp_all add: wire_u8_def wire_u16_def wire_u32_def wire_u64_def, simp_all add: put16_def put32_def)

subsection \<open>Iteration over well-formed lists\<close>

text \<open>An object whose length field holds its length.\<close>

definition tlv_ok :: "bytes \<Rightarrow> bool" where
  "tlv_ok w \<longleftrightarrow> (\<exists>ty b. w = put16 ty @ put16 (word_of_nat (4 + length b)) @ b \<and> 4 + length b < 65536)"

primrec iter_all :: "(bytes \<Rightarrow> 's \<Rightarrow> 's res) \<Rightarrow> bytes list \<Rightarrow> 's \<Rightarrow> 's res" where
  "iter_all body [] s = Inr s"
| "iter_all body (w # ws) s = rbind (body (w @ concat ws) s) (iter_all body ws)"

lemma tlv_len:
  assumes "tlv_ok w"
  shows "wire_u16 nd (pre @ w @ rest) (length pre + 2) = Inr (word_of_nat (length w))"
    and "unat (word_of_nat (length w) :: u16) = length w" "4 \<le> length w"
proof -
  obtain ty b where w: "w = put16 ty @ put16 (word_of_nat (4 + length b)) @ b" and len: "4 + length b < 65536"
    using assms by (auto simp: tlv_ok_def)
  show "wire_u16 nd (pre @ w @ rest) (length pre + 2) = Inr (word_of_nat (length w))"
    using wire_reads(2) [of "pre @ put16 ty" "length pre + 2" nd "word_of_nat (4 + length b)" "b @ rest"]
    by (simp add: w)
  have "length w = 4 + length b"
    by (simp add: w)
  then show "unat (word_of_nat (length w) :: u16) = length w" "4 \<le> length w"
    using len unat_of_nat [where 'a = 16, of "length w"] by (simp_all del: of_nat_add)
qed

lemma list_iter_concat:
  assumes "\<forall>w \<in> set (w # ws). tlv_ok w"
  shows "list_iter nd body (pre @ concat (w # ws)) (length pre) s = iter_all body (w # ws) s"
  using assms
proof (induction ws arbitrary: pre w s)
  case Nil
  note len = tlv_len [of w]
  have nz: "word_of_nat (length w) \<noteq> (0 :: u16)"
    using len(2,3) Nil.prems by (auto simp: word_unat_eq_iff)
  show ?case
    using len(1) [of nd pre "[]"] len(2,3) Nil.prems nz
    by (subst list_iter.simps) (simp split: sum.splits)
next
  case (Cons v vs)
  note len = tlv_len [of w]
  have nz: "word_of_nat (length w) \<noteq> (0 :: u16)"
    using len(2,3) Cons.prems by (auto simp: word_unat_eq_iff)
  have "4 \<le> length v"
    using tlv_len(3) [of v] Cons.prems by simp
  then have "v \<noteq> []"
    by auto
  moreover have "list_iter nd body (pre @ concat (w # v # vs)) (length pre + length w) s' = iter_all body (v # vs) s'" for s'
    using Cons.IH [of v "pre @ w" s'] Cons.prems by simp
  ultimately show ?case
    using len(1) [of nd pre "concat (v # vs)"] len(2) Cons.prems nz
    by (cases nd; subst list_iter.simps)
      (simp_all del: iter_all.simps(2) add: iter_all.simps(2) [of body w] split: sum.splits)
qed

lemma OF_LIST_ITER_concat:
  assumes "\<forall>w \<in> set ws. tlv_ok w"
  shows "OF_LIST_ITER nd body (concat ws) s = iter_all body ws s"
proof (cases ws)
  case (Cons w vs)
  moreover have "w \<noteq> []"
    using Cons assms tlv_len(3) [of w] by auto
  ultimately show ?thesis
    using list_iter_concat [of w vs nd body "[]" s] assms by (simp add: OF_LIST_ITER_def del: iter_all.simps)
qed (simp add: OF_LIST_ITER_def)

end
