(* ===== verification/Of_Unpack.thy ===== *)
theory Of_Unpack
  imports Loci Actions
begin

section \<open>From OpenFlow messages to the datapath (lib/of\_unpack)\<close>

text \<open>
  Unpacking of matches, actions, instructions and of the messages that carry them.  The byte that
  the code takes for the type of an OXM field holds the field number shifted by one place and the
  mask bit; the type of every instruction is read at the start of the list's buffer, which is where
  the first instruction stands.  The structure an action is unpacked into is not initialised and is
  shared by the actions of a list: \<open>mem\<close> is what it holds at first.
\<close>

subsection \<open>Constants of lib/openflow.h\<close>

definition OFPXMT_OFB_METADATA :: u8 where "OFPXMT_OFB_METADATA = 2"
definition OFPXMT_OFB_VLAN_VID :: u8 where "OFPXMT_OFB_VLAN_VID = 6"
definition OFPXMT_OFB_VLAN_PCP :: u8 where "OFPXMT_OFB_VLAN_PCP = 7"
definition OFPXMT_OFB_ETH_DST :: u8 where "OFPXMT_OFB_ETH_DST = 3"
definition OFPXMT_OFB_ETH_SRC :: u8 where "OFPXMT_OFB_ETH_SRC = 4"
definition OFPXMT_OFB_ETH_TYPE :: u8 where "OFPXMT_OFB_ETH_TYPE = 5"
definition OFPXMT_OFB_IP_DSCP :: u8 where "OFPXMT_OFB_IP_DSCP = 8"
definition OFPXMT_OFB_IP_ECN :: u8 where "OFPXMT_OFB_IP_ECN = 9"
definition OFPXMT_OFB_IP_PROTO :: u8 where "OFPXMT_OFB_IP_PROTO = 10"
definition OFPXMT_OFB_IPV4_SRC :: u8 where "OFPXMT_OFB_IPV4_SRC = 11"
definition OFPXMT_OFB_IPV4_DST :: u8 where "OFPXMT_OFB_IPV4_DST = 12"
definition OFPXMT_OFB_TCP_SRC :: u8 where "OFPXMT_OFB_TCP_SRC = 13"
definition OFPXMT_OFB_TCP_DST :: u8 where "OFPXMT_OFB_TCP_DST = 14"
definition OFPXMT_OFB_UDP_SRC :: u8 where "OFPXMT_OFB_UDP_SRC = 15"
definition OFPXMT_OFB_UDP_DST :: u8 where "OFPXMT_OFB_UDP_DST = 16"
definition OFPXMT_OFB_SCTP_SRC :: u8 where "OFPXMT_OFB_SCTP_SRC = 17"
definition OFPXMT_OFB_SCTP_DST :: u8 where "OFPXMT_OFB_SCTP_DST = 18"
definition OFPXMT_OFB_ICMPV4_TYPE :: u8 where "OFPXMT_OFB_ICMPV4_TYPE = 19"
definition OFPXMT_OFB_ICMPV4_CODE :: u8 where "OFPXMT_OFB_ICMPV4_CODE = 20"
definition OFPXMT_OFB_ARP_OP :: u8 where "OFPXMT_OFB_ARP_OP = 21"
definition OFPXMT_OFB_ARP_SPA :: u8 where "OFPXMT_OFB_ARP_SPA = 22"
definition OFPXMT_OFB_ARP_TPA :: u8 where "OFPXMT_OFB_ARP_TPA = 23"
definition OFPXMT_OFB_ARP_SHA :: u8 where "OFPXMT_OFB_ARP_SHA = 24"
definition OFPXMT_OFB_ARP_THA :: u8 where "OFPXMT_OFB_ARP_THA = 25"
definition OFPXMT_OFB_IPV6_SRC :: u8 where "OFPXMT_OFB_IPV6_SRC = 26"
definition OFPXMT_OFB_IPV6_DST :: u8 where "OFPXMT_OFB_IPV6_DST = 27"
definition OFPXMT_OFB_IPV6_FLABEL :: u8 where "OFPXMT_OFB_IPV6_FLABEL = 28"
definition OFPXMT_OFB_ICMPV6_TYPE :: u8 where "OFPXMT_OFB_ICMPV6_TYPE = 29"
definition OFPXMT_OFB_ICMPV6_CODE :: u8 where "OFPXMT_OFB_ICMPV6_CODE = 30"
definition OFPXMT_OFB_IPV6_ND_TARGET :: u8 where "OFPXMT_OFB_IPV6_ND_TARGET = 31"
definition OFPXMT_OFB_IPV6_ND_SLL :: u8 where "OFPXMT_OFB_IPV6_ND_SLL = 32"
definition OFPXMT_OFB_IPV6_ND_TLL :: u8 where "OFPXMT_OFB_IPV6_ND_TLL = 33"
definition OFPXMT_OFB_MPLS_LABEL :: u8 where "OFPXMT_OFB_MPLS_LABEL = 34"
definition OFPXMT_OFB_MPLS_TC :: u8 where "OFPXMT_OFB_MPLS_TC = 35"
definition OFPXMT_OFB_MPLS_BOS :: u8 where "OFPXMT_OFB_MPLS_BOS = 36"
definition OFPXMT_OFB_TUNNEL_ID :: u8 where "OFPXMT_OFB_TUNNEL_ID = 38"

definition OFPAT_OUTPUT :: u16 where "OFPAT_OUTPUT = 0"
definition OFPAT_COPY_TTL_OUT :: u16 where "OFPAT_COPY_TTL_OUT = 11"
definition OFPAT_COPY_TTL_IN :: u16 where "OFPAT_COPY_TTL_IN = 12"
definition OFPAT_SET_MPLS_TTL :: u16 where "OFPAT_SET_MPLS_TTL = 15"
definition OFPAT_DEC_MPLS_TTL :: u16 where "OFPAT_DEC_MPLS_TTL = 16"
definition OFPAT_PUSH_VLAN :: u16 where "OFPAT_PUSH_VLAN = 17"
definition OFPAT_POP_VLAN :: u16 where "OFPAT_POP_VLAN = 18"
definition OFPAT_PUSH_MPLS :: u16 where "OFPAT_PUSH_MPLS = 19"
definition OFPAT_POP_MPLS :: u16 where "OFPAT_POP_MPLS = 20"
definition OFPAT_GROUP :: u16 where "OFPAT_GROUP = 22"
definition OFPAT_SET_FIELD :: u16 where "OFPAT_SET_FIELD = 25"

definition OFPIT_GOTO_TABLE :: u16 where "OFPIT_GOTO_TABLE = 1"
definition OFPIT_WRITE_METADATA :: u16 where "OFPIT_WRITE_METADATA = 2"
definition OFPIT_WRITE_ACTIONS :: u16 where "OFPIT_WRITE_ACTIONS = 3"
definition OFPIT_APPLY_ACTIONS :: u16 where "OFPIT_APPLY_ACTIONS = 4"
definition OFPIT_CLEAR_ACTIONS :: u16 where "OFPIT_CLEAR_ACTIONS = 5"

lemmas oxm_types =
  OFPXMT_OFB_METADATA_def OFPXMT_OFB_VLAN_VID_def OFPXMT_OFB_VLAN_PCP_def OFPXMT_OFB_ETH_DST_def
  OFPXMT_OFB_ETH_SRC_def OFPXMT_OFB_ETH_TYPE_def OFPXMT_OFB_IP_DSCP_def OFPXMT_OFB_IP_ECN_def
  OFPXMT_OFB_IP_PROTO_def OFPXMT_OFB_IPV4_SRC_def OFPXMT_OFB_IPV4_DST_def OFPXMT_OFB_TCP_SRC_def
  OFPXMT_OFB_TCP_DST_def OFPXMT_OFB_UDP_SRC_def OFPXMT_OFB_UDP_DST_def OFPXMT_OFB_SCTP_SRC_def
  OFPXMT_OFB_SCTP_DST_def OFPXMT_OFB_ICMPV4_TYPE_def OFPXMT_OFB_ICMPV4_CODE_def OFPXMT_OFB_ARP_OP_def
  OFPXMT_OFB_ARP_SPA_def OFPXMT_OFB_ARP_TPA_def OFPXMT_OFB_ARP_SHA_def OFPXMT_OFB_ARP_THA_def
  OFPXMT_OFB_IPV6_SRC_def OFPXMT_OFB_IPV6_DST_def OFPXMT_OFB_IPV6_FLABEL_def OFPXMT_OFB_ICMPV6_TYPE_def
  OFPXMT_OFB_ICMPV6_CODE_def OFPXMT_OFB_IPV6_ND_TARGET_def OFPXMT_OFB_IPV6_ND_SLL_def OFPXMT_OFB_IPV6_ND_TLL_def
  OFPXMT_OFB_MPLS_LABEL_def OFPXMT_OFB_MPLS_TC_def OFPXMT_OFB_MPLS_BOS_def OFPXMT_OFB_TUNNEL_ID_def

lemmas ofpat_types =
  OFPAT_OUTPUT_def OFPAT_COPY_TTL_OUT_def OFPAT_COPY_TTL_IN_def OFPAT_SET_MPLS_TTL_def
  OFPAT_DEC_MPLS_TTL_def OFPAT_PUSH_VLAN_def OFPAT_POP_VLAN_def OFPAT_PUSH_MPLS_def
  OFPAT_POP_MPLS_def OFPAT_GROUP_def OFPAT_SET_FIELD_def

lemmas ofpit_types =
  OFPIT_GOTO_TABLE_def OFPIT_WRITE_METADATA_def OFPIT_WRITE_ACTIONS_def OFPIT_APPLY_ACTIONS_def
  OFPIT_CLEAR_ACTIONS_def

subsection \<open>Matches\<close>

definition unpack_match_fields :: "of_match_fields \<Rightarrow> ofl_flow_key \<Rightarrow> ofl_flow_key" where
  "unpack_match_fields mf key =
     key\<lparr>in_port := mf_in_port mf,
        in_phy_port := mf_in_phy_port mf,
        metadata := mf_metadata mf,
        tunnel_id := mf_tunnel_id mf,
        eth_dst := take ETH_LEN (mf_eth_dst mf),
        eth_src := take ETH_LEN (mf_eth_src mf),
        eth_type := mf_eth_type mf,
        vlan_id := mf_vlan_vid mf,
        vlan_pcp := mf_vlan_pcp mf,
        ip_dscp := mf_ip_dscp mf,
        ip_ecn := mf_ip_ecn mf,
        ip_proto := mf_ip_proto mf,
        ipv4_src := mf_ipv4_src mf,
        ipv4_dst := mf_ipv4_dst mf,
        tcp_src := mf_tcp_src mf,
        tcp_dst := mf_tcp_dst mf,
        udp_src := mf_udp_src mf,
        udp_dst := mf_udp_dst mf,
        sctp_src := mf_sctp_src mf,
        sctp_dst := mf_sctp_dst mf,
        icmpv4_type := mf_icmpv4_type mf,
        icmpv4_code := mf_icmpv4_code mf,
        arp_op := mf_arp_op mf,
        arp_spa := mf_arp_spa mf,
        arp_tpa := mf_arp_tpa mf,
        arp_sha := take ETH_LEN (mf_arp_sha mf),
        arp_tha := take ETH_LEN (mf_arp_tha mf),
        ipv6_src := take IPV6_LEN (mf_ipv6_src mf),
        ipv6_dst := take IPV6_LEN (mf_ipv6_dst mf),
        ipv6_flabel := mf_ipv6_flabel mf,
        icmpv6_type := mf_icmpv6_type mf,
        icmpv6_code := mf_icmpv6_code mf,
        ipv6_nd_target := take IPV6_LEN (mf_ipv6_nd_target mf),
        ipv6_nd_sll := take ETH_LEN (mf_ipv6_nd_sll mf),
        ipv6_nd_tll := take ETH_LEN (mf_ipv6_nd_tll mf),
        mpls_label := mf_mpls_label mf,
        mpls_tc := mf_mpls_tc mf,
        mpls_bos := mf_mpls_bos mf\<rparr>"

subsection \<open>Set-field actions\<close>

text \<open>The getter of an OXM object: class, field, mask bit and length are its first four bytes.\<close>

definition oxm_type_len :: "u8 \<Rightarrow> nat \<Rightarrow> u32" where
  "oxm_type_len fld n = 0x80000000 OR push_bit 9 (ucast fld) OR word_of_nat n"

definition oxm_value :: "bool \<Rightarrow> u8 \<Rightarrow> nat \<Rightarrow> bytes \<Rightarrow> bytes res" where
  "oxm_value ndebug fld n oxm =
     rbind (wire_u32 ndebug oxm 0) (\<lambda>tl.
     rbind (loci_assert ndebug (tl = oxm_type_len fld n)) (\<lambda>_. wire_get ndebug n oxm 4))"

definition oxm_u8 :: "bool \<Rightarrow> u8 \<Rightarrow> bytes \<Rightarrow> u8 res" where
  "oxm_u8 ndebug fld oxm = rbind (oxm_value ndebug fld 1 oxm) (\<lambda>b. Inr (b ! 0))"

definition oxm_u16 :: "bool \<Rightarrow> u8 \<Rightarrow> bytes \<Rightarrow> u16 res" where
  "oxm_u16 ndebug fld oxm = rbind (oxm_value ndebug fld 2 oxm) (\<lambda>b. Inr (get16 (b ! 0) (b ! 1)))"

definition oxm_u32 :: "bool \<Rightarrow> u8 \<Rightarrow> bytes \<Rightarrow> u32 res" where
  "oxm_u32 ndebug fld oxm =
     rbind (oxm_value ndebug fld 4 oxm) (\<lambda>b. Inr (get32 (b ! 0) (b ! 1) (b ! 2) (b ! 3)))"

definition oxm_u64 :: "bool \<Rightarrow> u8 \<Rightarrow> bytes \<Rightarrow> u64 res" where
  "oxm_u64 ndebug fld oxm = rbind (oxm_value ndebug fld 8 oxm) (\<lambda>b. Inr (get64 b))"

definition oxm_mac :: "bool \<Rightarrow> u8 \<Rightarrow> bytes \<Rightarrow> bytes res" where
  "oxm_mac ndebug fld oxm = oxm_value ndebug fld 6 oxm"

definition oxm_ipv6 :: "bool \<Rightarrow> u8 \<Rightarrow> bytes \<Rightarrow> bytes res" where
  "oxm_ipv6 ndebug fld oxm = oxm_value ndebug fld 16 oxm"

definition parse_set_field :: "bool \<Rightarrow> bytes \<Rightarrow> u8 \<Rightarrow> action \<Rightarrow> action res" where
  "parse_set_field ndebug oxm ty act =
     (if ty = OFPXMT_OFB_VLAN_VID then rbind (oxm_u16 ndebug OFPXMT_OFB_VLAN_VID oxm) (\<lambda>v. Inr (action_set_field_u16 SET_VLAN_ID v))
      else if ty = OFPXMT_OFB_VLAN_PCP then rbind (oxm_u8 ndebug OFPXMT_OFB_VLAN_PCP oxm) (\<lambda>v. Inr (action_set_field_u8 SET_VLAN_PCP v))
      else if ty = OFPXMT_OFB_ETH_DST then rbind (oxm_mac ndebug OFPXMT_OFB_ETH_DST oxm) (\<lambda>v. Inr (action_set_field_eth_addr SET_ETH_DST v))
      else if ty = OFPXMT_OFB_ETH_SRC then rbind (oxm_mac ndebug OFPXMT_OFB_ETH_SRC oxm) (\<lambda>v. Inr (action_set_field_eth_addr SET_ETH_SRC v))
      else if ty = OFPXMT_OFB_ETH_TYPE then rbind (oxm_u16 ndebug OFPXMT_OFB_ETH_TYPE oxm) (\<lambda>v. Inr (action_set_field_u16 SET_VLAN_ID v))
      else if ty = OFPXMT_OFB_IP_DSCP then rbind (oxm_u8 ndebug OFPXMT_OFB_IP_DSCP oxm) (\<lambda>v. Inr (action_set_field_u8 SET_IP_DSCP v))
      else if ty = OFPXMT_OFB_IP_ECN then rbind (oxm_u8 ndebug OFPXMT_OFB_IP_ECN oxm) (\<lambda>v. Inr (action_set_field_u8 SET_IP_ECN v))
      else if ty = OFPXMT_OFB_IP_PROTO then rbind (oxm_u8 ndebug OFPXMT_OFB_IP_PROTO oxm) (\<lambda>v. Inr (action_set_field_u8 SET_IP_PROTO v))
      else if ty = OFPXMT_OFB_IPV4_SRC then rbind (oxm_u32 ndebug OFPXMT_OFB_IPV4_SRC oxm) (\<lambda>v. Inr (action_set_field_u32 SET_IPV4_SRC v))
      else if ty = OFPXMT_OFB_IPV4_DST then rbind (oxm_u32 ndebug OFPXMT_OFB_IPV4_DST oxm) (\<lambda>v. Inr (action_set_field_u32 SET_IPV4_DST v))
      else if ty = OFPXMT_OFB_TCP_SRC then rbind (oxm_u16 ndebug OFPXMT_OFB_TCP_SRC oxm) (\<lambda>v. Inr (action_set_field_u16 SET_TCP_SRC v))
      else if ty = OFPXMT_OFB_TCP_DST then rbind (oxm_u16 ndebug OFPXMT_OFB_TCP_DST oxm) (\<lambda>v. Inr (action_set_field_u16 SET_TCP_DST v))
      else if ty = OFPXMT_OFB_UDP_SRC then rbind (oxm_u16 ndebug OFPXMT_OFB_UDP_SRC oxm) (\<lambda>v. Inr (action_set_field_u16 SET_UDP_SRC v))
      else if ty = OFPXMT_OFB_UDP_DST then rbind (oxm_u16 ndebug OFPXMT_OFB_UDP_DST oxm) (\<lambda>v. Inr (action_set_field_u16 SET_UDP_DST v))
      else if ty = OFPXMT_OFB_SCTP_SRC then rbind (oxm_u16 ndebug OFPXMT_OFB_SCTP_SRC oxm) (\<lambda>v. Inr (action_set_field_u16 SET_SCTP_DST v))
      else if ty = OFPXMT_OFB_SCTP_DST then rbind (oxm_u16 ndebug OFPXMT_OFB_SCTP_DST oxm) (\<lambda>v. Inr (action_set_field_u16 SET_SCTP_DST v))
      else if ty = OFPXMT_OFB_ICMPV4_TYPE then rbind (oxm_u8 ndebug OFPXMT_OFB_ICMPV4_TYPE oxm) (\<lambda>v. Inr (action_set_field_u8 SET_ICMPV4_TYPE v))
      else if ty = OFPXMT_OFB_ICMPV4_CODE then rbind (oxm_u8 ndebug OFPXMT_OFB_ICMPV4_CODE oxm) (\<lambda>v. Inr (action_set_field_u8 SET_ICMPV4_CODE v))
      else if ty = OFPXMT_OFB_ARP_OP then rbind (oxm_u16 ndebug OFPXMT_OFB_ARP_OP oxm) (\<lambda>v. Inr (action_set_field_u16 SET_ARP_OP v))
      else if ty = OFPXMT_OFB_ARP_SPA then rbind (oxm_u32 ndebug OFPXMT_OFB_ARP_SPA oxm) (\<lambda>v. Inr (action_set_field_u32 SET_ARP_SPA v))
      else if ty = OFPXMT_OFB_ARP_TPA then rbind (oxm_u32 ndebug OFPXMT_OFB_ARP_TPA oxm) (\<lambda>v. Inr (action_set_field_u32 SET_ARP_TPA v))
      else if ty = OFPXMT_OFB_ARP_SHA then rbind (oxm_mac ndebug OFPXMT_OFB_ARP_SHA oxm) (\<lambda>v. Inr (action_set_field_eth_addr SET_ARP_SHA v))
      else if ty = OFPXMT_OFB_ARP_THA then rbind (oxm_mac ndebug OFPXMT_OFB_ARP_THA oxm) (\<lambda>v. Inr (action_set_field_eth_addr SET_ARP_THA v))
      else if ty = OFPXMT_OFB_IPV6_SRC then rbind (oxm_ipv6 ndebug OFPXMT_OFB_IPV6_SRC oxm) (\<lambda>v. Inr (action_set_field_ipv6_addr SET_IPV6_SRC v))
      else if ty = OFPXMT_OFB_IPV6_DST then rbind (oxm_ipv6 ndebug OFPXMT_OFB_IPV6_SRC oxm) (\<lambda>v. Inr (action_set_field_ipv6_addr SET_IPV6_DST v))
      else if ty = OFPXMT_OFB_IPV6_FLABEL then rbind (oxm_u32 ndebug OFPXMT_OFB_IPV6_FLABEL oxm) (\<lambda>v. Inr (action_set_field_u32 SET_IPV6_FLABEL v))
      else if ty = OFPXMT_OFB_ICMPV6_TYPE then rbind (oxm_u8 ndebug OFPXMT_OFB_ICMPV6_TYPE oxm) (\<lambda>v. Inr (action_set_field_u8 SET_ICMPV6_TYPE v))
      else if ty = OFPXMT_OFB_ICMPV6_CODE then rbind (oxm_u8 ndebug OFPXMT_OFB_ICMPV6_CODE oxm) (\<lambda>v. Inr (action_set_field_u8 SET_ICMPV6_CODE v))
      else if ty = OFPXMT_OFB_IPV6_ND_TARGET then rbind (oxm_ipv6 ndebug OFPXMT_OFB_IPV6_ND_TARGET oxm) (\<lambda>v. Inr (action_set_field_ipv6_addr SET_IPV6_ND_TARGET v))
      else if ty = OFPXMT_OFB_IPV6_ND_SLL then rbind (oxm_mac ndebug OFPXMT_OFB_IPV6_ND_SLL oxm) (\<lambda>v. Inr (action_set_field_eth_addr SET_IPV6_ND_SLL v))
      else if ty = OFPXMT_OFB_IPV6_ND_TLL then rbind (oxm_mac ndebug OFPXMT_OFB_IPV6_ND_TLL oxm) (\<lambda>v. Inr (action_set_field_eth_addr SET_IPV6_ND_TLL v))
      else if ty = OFPXMT_OFB_MPLS_LABEL then rbind (oxm_u32 ndebug OFPXMT_OFB_MPLS_LABEL oxm) (\<lambda>v. Inr (action_set_field_u32 SET_MPLS_LABEL v))
      else if ty = OFPXMT_OFB_MPLS_TC then rbind (oxm_u8 ndebug OFPXMT_OFB_MPLS_TC oxm) (\<lambda>v. Inr (action_set_field_u8 SET_MPLS_TC v))
      else if ty = OFPXMT_OFB_MPLS_BOS then rbind (oxm_u8 ndebug OFPXMT_OFB_MPLS_BOS oxm) (\<lambda>v. Inr (action_set_field_u8 SET_MPLS_BOS v))
      else if ty = OFPXMT_OFB_TUNNEL_ID then rbind (oxm_u64 ndebug OFPXMT_OFB_TUNNEL_ID oxm) (\<lambda>v. Inr (action_set_field_u8 SET_TUNNEL_ID (ucast v)))
      else Inr act)"

subsection \<open>Actions\<close>

text \<open>The OXM object of a set-field action: a copy of the bytes that its own length tells.\<close>

definition set_field_oxm :: "bool \<Rightarrow> bytes \<Rightarrow> bytes res" where
  "set_field_oxm ndebug act =
     rbind (wire_u8 ndebug act 7) (\<lambda>len.
       if 8 + unat len \<le> length act then Inr (take (4 + unat len) (drop 4 act))
       else Inl Out_Of_Bounds)"

text \<open>One action of the list: the structure that holds the unpacked action and what was unpacked so
  far are the state.  A set-field action is parsed and not added.\<close>

definition unpack_action :: "bool \<Rightarrow> ('c \<Rightarrow> action \<Rightarrow> 'c) \<Rightarrow> bytes \<Rightarrow> action \<times> 'c \<Rightarrow> (action \<times> 'c) res" where
  "unpack_action ndebug add act st =
     (let gen_act = fst st; acts = snd st; added = (\<lambda>g. Inr (g, add acts g)) in
      rbind (wire_u16 ndebug act 0) (\<lambda>act_type.
        if act_type = OFPAT_OUTPUT then rbind (wire_u32 ndebug act 4) (\<lambda>port. added (action_output port))
        else if act_type = OFPAT_SET_FIELD then
          rbind (set_field_oxm ndebug act) (\<lambda>oxm. rbind (wire_u8 ndebug oxm 2) (\<lambda>ty.
          rbind (parse_set_field ndebug oxm ty gen_act) (\<lambda>g. Inr (g, acts))))
        else if act_type = OFPAT_GROUP then rbind (wire_u32 ndebug act 4) (\<lambda>gid. added (action_group gid))
        else if act_type = OFPAT_PUSH_VLAN then rbind (wire_u16 ndebug act 4) (\<lambda>ety. added (action_push_vlan ety))
        else if act_type = OFPAT_PUSH_MPLS then rbind (wire_u16 ndebug act 4) (\<lambda>ety. added (action_push_mpls ety))
        else if act_type = OFPAT_POP_VLAN then added (action_pop_vlan gen_act)
        else if act_type = OFPAT_POP_MPLS then rbind (wire_u16 ndebug act 4) (\<lambda>ety. added (action_pop_mpls ety))
        else if act_type = OFPAT_COPY_TTL_OUT then added (action_copy_ttl_out gen_act)
        else if act_type = OFPAT_COPY_TTL_IN then added (action_copy_ttl_in gen_act)
        else if act_type = OFPAT_DEC_MPLS_TTL then added (action_dec_mpls_ttl gen_act)
        else if act_type = OFPAT_SET_MPLS_TTL then rbind (wire_u8 ndebug act 4) (\<lambda>ttl. added (action_mpls_ttl ttl))
        else Inr (gen_act, acts)))"

definition unpack_actions ::
  "bool \<Rightarrow> ('c \<Rightarrow> action \<Rightarrow> 'c) \<Rightarrow> action \<Rightarrow> bytes \<Rightarrow> 'c \<Rightarrow> 'c res" where
  "unpack_actions ndebug add mem wire_actions acts =
     rbind (OF_LIST_ITER ndebug (unpack_action ndebug add) wire_actions (mem, acts)) (\<lambda>st. Inr (snd st))"

subsection \<open>Instructions\<close>

text \<open>The copy of the actions of an apply-actions instruction.\<close>

definition apply_actions_get :: "bool \<Rightarrow> bytes \<Rightarrow> bytes res" where
  "apply_actions_get ndebug inst =
     rbind (wire_u16 ndebug inst 0) (\<lambda>ty. rbind (loci_assert ndebug (ty = OFPIT_APPLY_ACTIONS)) (\<lambda>_.
     rbind (wire_u16 ndebug inst 2) (\<lambda>len. rbind (loci_assert ndebug (8 \<le> len)) (\<lambda>_.
       if 8 \<le> unat len \<and> unat len \<le> length inst then Inr (take (unat len - 8) (drop 8 inst))
       else Inl Out_Of_Bounds))))"

definition inst_class :: "bool \<Rightarrow> bytes \<Rightarrow> u16 \<Rightarrow> unit res" where
  "inst_class ndebug inst ty =
     rbind (wire_u16 ndebug inst 0) (\<lambda>wty. loci_assert ndebug (wty = ty))"

definition unpack_instruction ::
  "bool \<Rightarrow> action \<Rightarrow> bytes \<Rightarrow> bytes \<Rightarrow> instruction_set \<Rightarrow> instruction_set res" where
  "unpack_instruction ndebug mem insts inst is =
     rbind (wire_u16 ndebug insts 0) (\<lambda>inst_type.
       if inst_type = OFPIT_GOTO_TABLE then
         rbind (inst_class ndebug inst OFPIT_GOTO_TABLE) (\<lambda>_.
         rbind (wire_u8 ndebug inst 4) (\<lambda>table_id. Inr (add_goto_table is (inst_goto_table table_id))))
       else if inst_type = OFPIT_WRITE_METADATA then
         rbind (inst_class ndebug inst OFPIT_WRITE_METADATA) (\<lambda>_.
         rbind (wire_u64 ndebug inst 8) (\<lambda>metadata. rbind (wire_u64 ndebug inst 16) (\<lambda>metadata_mask.
           Inr (add_write_metadata is (inst_write_metadata metadata metadata_mask)))))
       else if inst_type = OFPIT_WRITE_ACTIONS then
         rbind (apply_actions_get ndebug inst) (\<lambda>wa.
         rbind (unpack_actions ndebug action_set_add mem wa action_set_init) (\<lambda>as.
           Inr (add_write_actions is (inst_write_actions as))))
       else if inst_type = OFPIT_APPLY_ACTIONS then
         rbind (apply_actions_get ndebug inst) (\<lambda>wa.
         rbind (unpack_actions ndebug action_list_add mem wa action_list_init) (\<lambda>al.
           Inr (add_apply_actions is (inst_apply_actions al))))
       else if inst_type = OFPIT_CLEAR_ACTIONS then Inr (add_clear_actions is inst_clear_actions)
       else Inr is)"

definition unpack_instructions :: "bool \<Rightarrow> action \<Rightarrow> bytes \<Rightarrow> instruction_set \<Rightarrow> instruction_set res" where
  "unpack_instructions ndebug mem insts is =
     OF_LIST_ITER ndebug (unpack_instruction ndebug mem insts) insts (instruction_set_init is)"

subsection \<open>Messages\<close>

text \<open>The Boolean tells whether the code returns 0; a failure leaves what was written so far.\<close>

definition unpack_flow_mod :: "bool \<Rightarrow> action \<Rightarrow> of_flow_modify \<Rightarrow> flow \<Rightarrow> (flow \<times> bool) res" where
  "unpack_flow_mod ndebug mem fm f =
     (let f = f\<lparr>f_table_id := fm_table_id fm, f_idle_timeout := ucast (fm_idle_timeout fm),
            f_hard_timeout := ucast (fm_hard_timeout fm), f_flags := fm_flags fm,
            f_cookie := fm_cookie fm, f_priority := fm_priority fm\<rparr> in
      case fm_match fm of
        None \<Rightarrow> Inr (f, False)
      | Some match \<Rightarrow>
          let f = f\<lparr>f_key := unpack_match_fields (match_fields match) (f_key f),
                f_mask := unpack_match_fields (match_masks match) (f_mask f)\<rparr> in
          (case fm_instructions fm of
             None \<Rightarrow> Inr (f, False)
           | Some insts \<Rightarrow> rbind (unpack_instructions ndebug mem insts (f_insts f)) (\<lambda>is.
               Inr (f\<lparr>f_insts := is\<rparr>, True))))"

definition unpack_flow_stats_request ::
  "of_stats_request \<Rightarrow> ofl_flow_stats_req \<Rightarrow> ofl_flow_stats_req \<times> bool" where
  "unpack_flow_stats_request of_req req =
     (let req = req\<lparr>req_cookie := sr_cookie of_req, req_cookie_mask := sr_cookie_mask of_req,
            req_table_id := sr_table_id of_req, req_out_port := sr_out_port of_req,
            req_out_group := sr_out_group of_req\<rparr> in
      case sr_match of_req of
        None \<Rightarrow> (req, False)
      | Some match \<Rightarrow>
          (req\<lparr>req_match := unpack_match_fields (match_fields match) (req_match req),
               req_mask := unpack_match_fields (match_masks match) (req_mask req)\<rparr>, True))"

definition unpack_aggregate_stats_request ::
  "of_stats_request \<Rightarrow> ofl_flow_stats_req \<Rightarrow> ofl_flow_stats_req \<times> bool" where
  "unpack_aggregate_stats_request of_req req =
     (let req = req\<lparr>req_cookie := sr_cookie of_req, req_cookie_mask := sr_cookie_mask of_req,
            req_table_id := sr_table_id of_req, req_out_port := sr_out_port of_req,
            req_out_group := sr_out_group of_req\<rparr> in
      case sr_match of_req of
        None \<Rightarrow> (req, False)
      | Some match \<Rightarrow>
          (req\<lparr>req_match := unpack_match_fields (match_fields match) (req_match req),
               req_mask := unpack_match_fields (match_masks match) (req_mask req)\<rparr>, True))"

definition unpack_packet_out ::
  "bool \<Rightarrow> action \<Rightarrow> of_packet_out \<Rightarrow> netflow \<Rightarrow> action_list \<Rightarrow> (netflow \<times> action_list) res" where
  "unpack_packet_out ndebug mem po nf al =
     (let nf = nf\<lparr>nf_meta := (nf_meta nf)\<lparr>meta_buffer_id := po_buffer_id po\<rparr>\<rparr>;
          nf = upd_match (\<lambda>m. m\<lparr>in_port := po_in_port po\<rparr>) nf
      in rbind (unpack_actions ndebug action_list_add mem (po_actions po) al) (\<lambda>al.
        case po_data po of
          None \<Rightarrow> Inr (nf, al)
        | Some pkt \<Rightarrow> rbind (pkt_to_netflow pkt nf (length pkt)) (\<lambda>nf.
            Inr (nf\<lparr>pkt_cnt := 1, byte_cnt := word_of_nat (length pkt)\<rparr>, al))))"

end
