(* ===== verification/Dp_Actions.thy ===== *)
theory Dp_Actions
  imports Actions Netflow
begin

section \<open>Executing actions (net/dp\_actions)\<close>

text \<open>
  The handlers of the actions a datapath executes and the table that maps an action's type to its
  handler.  A slot of the table that no handler fills is a NULL function pointer.  A read of a
  member of the action's union other than the one that was written is uninitialised.
\<close>

definition eth_type_arg :: "action \<Rightarrow> u16 res" where
  "eth_type_arg act = (case act_arg act of Eth_Type e \<Rightarrow> Inr e | _ \<Rightarrow> Inl Uninitialised)"

definition pop_vlan :: "action \<Rightarrow> netflow \<Rightarrow> netflow res" where
  "pop_vlan act nf = Inr (netflow_pop_vlan nf)"

definition push_vlan :: "action \<Rightarrow> netflow \<Rightarrow> netflow res" where
  "push_vlan act nf = rbind (eth_type_arg act) (\<lambda>e. Inr (netflow_push_vlan nf e))"

definition push_mpls :: "action \<Rightarrow> netflow \<Rightarrow> netflow res" where
  "push_mpls act nf = rbind (eth_type_arg act) (\<lambda>e. Inr (netflow_push_mpls nf e))"

definition pop_mpls :: "action \<Rightarrow> netflow \<Rightarrow> netflow res" where
  "pop_mpls act nf = rbind (eth_type_arg act) (\<lambda>e. Inr (netflow_pop_mpls nf e))"

definition set_field :: "action \<Rightarrow> netflow \<Rightarrow> netflow res" where
  "set_field act nf =
     (case act_arg act of
        Set_Field fld v \<Rightarrow>
        (case fld of
          SET_IN_PORT \<Rightarrow> rbind (u32_field v) (\<lambda>x. Inr (upd_match (\<lambda>m. m\<lparr>in_port := x\<rparr>) nf))
        | SET_METADATA \<Rightarrow> rbind (u64_field v) (\<lambda>x. Inr (upd_match (\<lambda>m. m\<lparr>metadata := x\<rparr>) nf))
        | SET_TUNNEL_ID \<Rightarrow> rbind (u64_field v) (\<lambda>x. Inr (upd_match (\<lambda>m. m\<lparr>tunnel_id := x\<rparr>) nf))
        | SET_ETH_TYPE \<Rightarrow> rbind (u16_field v) (\<lambda>x. Inr (upd_match (\<lambda>m. m\<lparr>eth_type := x\<rparr>) nf))
        | SET_ETH_DST \<Rightarrow> rbind (addr_field 6 v) (\<lambda>x. Inr (upd_match (\<lambda>m. m\<lparr>eth_dst := x\<rparr>) nf))
        | SET_ETH_SRC \<Rightarrow> rbind (addr_field 6 v) (\<lambda>x. Inr (upd_match (\<lambda>m. m\<lparr>eth_src := x\<rparr>) nf))
        | SET_VLAN_ID \<Rightarrow>
            if netflow_is_vlan_tagged nf then
              rbind (u16_field v) (\<lambda>x.
                let nf = upd_match (\<lambda>m. m\<lparr>vlan_id := x\<rparr>) nf;
                    t = tag_at nf (top (tags nf))
                in Inr (set_tag nf (top (tags nf)) (set_vlan_tag
                     ((vlan_tag t AND NOT VLAN_VID_MASK) OR (x AND VLAN_VID_MASK)) t)))
            else Inr nf
        | SET_VLAN_PCP \<Rightarrow>
            if netflow_is_vlan_tagged nf then
              rbind (u8_field v) (\<lambda>x.
                let nf = upd_match (\<lambda>m. m\<lparr>vlan_pcp := x\<rparr>) nf;
                    t = tag_at nf (top (tags nf))
                in Inr (set_tag nf (top (tags nf)) (set_vlan_tag
                     ((vlan_tag t AND NOT VLAN_PCP_MASK) OR push_bit 13 (ucast x)) t)))
            else Inr nf
        | SET_MPLS_LABEL \<Rightarrow>
            if netflow_is_outer_mpls nf then
              rbind (u32_field v) (\<lambda>x.
                let nf = upd_match (\<lambda>m. m\<lparr>mpls_label := x\<rparr>) nf;
                    t = tag_at nf (top (tags nf))
                in Inr (set_tag nf (top (tags nf)) (set_mpls_fields
                     ((mpls_fields t AND NOT MPLS_LABEL_MASK) OR (push_bit 12 x AND MPLS_LABEL_MASK)) t)))
            else Inr nf
        | SET_MPLS_TC \<Rightarrow>
            if netflow_is_outer_mpls nf then
              rbind (u8_field v) (\<lambda>x.
                let nf = upd_match (\<lambda>m. m\<lparr>mpls_tc := x\<rparr>) nf;
                    t = tag_at nf (top (tags nf))
                in Inr (set_tag nf (top (tags nf)) (set_mpls_fields
                     ((mpls_fields t AND MPLS_TC_MASK) OR (push_bit 9 (ucast x) AND MPLS_TC_MASK)) t)))
            else Inr nf
        | SET_MPLS_BOS \<Rightarrow>
            if netflow_is_outer_mpls nf then
              rbind (u8_field v) (\<lambda>x.
                let nf = upd_match (\<lambda>m. m\<lparr>mpls_bos := x\<rparr>) nf;
                    t = tag_at nf (top (tags nf))
                in Inr (set_tag nf (top (tags nf)) (set_mpls_fields
                     ((mpls_fields t AND MPLS_S_MASK) OR (push_bit 8 (ucast x) AND MPLS_S_MASK)) t)))
            else Inr nf
        | SET_IP_DSCP \<Rightarrow> rbind (u8_field v) (\<lambda>x. Inr (upd_match (\<lambda>m. m\<lparr>ip_dscp := x\<rparr>) nf))
        | SET_IP_ECN \<Rightarrow> rbind (u8_field v) (\<lambda>x. Inr (upd_match (\<lambda>m. m\<lparr>ip_ecn := x\<rparr>) nf))
        | SET_IP_PROTO \<Rightarrow> rbind (u8_field v) (\<lambda>x. Inr (upd_match (\<lambda>m. m\<lparr>ip_proto := x\<rparr>) nf))
        | SET_IPV4_DST \<Rightarrow> rbind (u32_field v) (\<lambda>x. Inr (upd_match (\<lambda>m. m\<lparr>ipv4_dst := x\<rparr>) nf))
        | SET_IPV4_SRC \<Rightarrow> rbind (u32_field v) (\<lambda>x. Inr (upd_match (\<lambda>m. m\<lparr>ipv4_src := x\<rparr>) nf))
        | SET_TCP_DST \<Rightarrow> rbind (u16_field v) (\<lambda>x. Inr (upd_match (\<lambda>m. m\<lparr>tcp_dst := x\<rparr>) nf))
        | SET_TCP_SRC \<Rightarrow> rbind (u16_field v) (\<lambda>x. Inr (upd_match (\<lambda>m. m\<lparr>tcp_src := x\<rparr>) nf))
        | SET_UDP_DST \<Rightarrow> rbind (u16_field v) (\<lambda>x. Inr (upd_match (\<lambda>m. m\<lparr>udp_dst := x\<rparr>) nf))
        | SET_UDP_SRC \<Rightarrow> rbind (u16_field v) (\<lambda>x. Inr (upd_match (\<lambda>m. m\<lparr>udp_src := x\<rparr>) nf))
        | SET_ARP_OP \<Rightarrow> rbind (u16_field v) (\<lambda>x. Inr (upd_match (\<lambda>m. m\<lparr>arp_op := x\<rparr>) nf))
        | SET_ARP_SPA \<Rightarrow> rbind (u32_field v) (\<lambda>x. Inr (upd_match (\<lambda>m. m\<lparr>arp_spa := x\<rparr>) nf))
        | SET_ARP_TPA \<Rightarrow> rbind (u32_field v) (\<lambda>x. Inr (upd_match (\<lambda>m. m\<lparr>arp_tpa := x\<rparr>) nf))
        | SET_ARP_SHA \<Rightarrow> rbind (addr_field 6 v) (\<lambda>x. Inr (upd_match (\<lambda>m. m\<lparr>arp_sha := x\<rparr>) nf))
        | SET_ARP_THA \<Rightarrow> rbind (addr_field 6 v) (\<lambda>x. Inr (upd_match (\<lambda>m. m\<lparr>arp_tha := x\<rparr>) nf))
        | SET_IPV6_DST \<Rightarrow> rbind (addr_field 16 v) (\<lambda>x. Inr (upd_match (\<lambda>m. m\<lparr>ipv6_dst := x\<rparr>) nf))
        | SET_IPV6_SRC \<Rightarrow> rbind (addr_field 16 v) (\<lambda>x. Inr (upd_match (\<lambda>m. m\<lparr>ipv6_src := x\<rparr>) nf))
        | SET_IPV6_ND_TARGET \<Rightarrow>
            rbind (addr_field 6 v) (\<lambda>x.
              Inr (upd_match (\<lambda>m. m\<lparr>ipv6_nd_target := x @ drop 6 (ipv6_nd_target m)\<rparr>) nf))
        | SET_IPV6_ND_SLL \<Rightarrow> rbind (addr_field 6 v) (\<lambda>x. Inr (upd_match (\<lambda>m. m\<lparr>ipv6_nd_sll := x\<rparr>) nf))
        | SET_IPV6_ND_TLL \<Rightarrow> rbind (addr_field 6 v) (\<lambda>x. Inr (upd_match (\<lambda>m. m\<lparr>ipv6_nd_tll := x\<rparr>) nf))
        | _ \<Rightarrow> Inr nf)
      | _ \<Rightarrow> Inl Uninitialised)"

definition group :: "action \<Rightarrow> netflow \<Rightarrow> netflow res" where
  "group act nf = Inr nf"

definition output_action :: "action \<Rightarrow> netflow \<Rightarrow> netflow res" where
  "output_action act nf =
     (case act_arg act of Output port \<Rightarrow> Inr (netflow_add_out_port nf port) | _ \<Rightarrow> Inl Uninitialised)"

text \<open>The handlers of the two push actions stand in each other's slots.\<close>

fun handle_action :: "action_set_order \<Rightarrow> (action \<Rightarrow> netflow \<Rightarrow> netflow res) option" where
  "handle_action ACT_POP_VLAN = Some pop_vlan"
| "handle_action ACT_POP_MPLS = Some pop_mpls"
| "handle_action ACT_PUSH_MPLS = Some push_vlan"
| "handle_action ACT_PUSH_VLAN = Some push_mpls"
| "handle_action ACT_SET_FIELD = Some set_field"
| "handle_action ACT_GROUP = Some group"
| "handle_action ACT_OUTPUT = Some output_action"
| "handle_action _ = None"

definition execute_action :: "action \<Rightarrow> netflow \<Rightarrow> netflow res" where
  "execute_action act nf = rbind (deref (handle_action (act_type act))) (\<lambda>h. h act nf)"

subsection \<open>Actions that can be executed\<close>

text \<open>The bytes that the handler reads of the value of a set-field action.\<close>

fun field_width :: "set_field_type \<Rightarrow> nat" where
  "field_width SET_IN_PORT = 4"
| "field_width SET_METADATA = 8"
| "field_width SET_TUNNEL_ID = 8"
| "field_width SET_ETH_TYPE = 2"
| "field_width SET_ETH_DST = 6"
| "field_width SET_ETH_SRC = 6"
| "field_width SET_VLAN_ID = 2"
| "field_width SET_VLAN_PCP = 1"
| "field_width SET_MPLS_LABEL = 4"
| "field_width SET_MPLS_TC = 1"
| "field_width SET_MPLS_BOS = 1"
| "field_width SET_IP_DSCP = 1"
| "field_width SET_IP_ECN = 1"
| "field_width SET_IP_PROTO = 1"
| "field_width SET_IPV4_DST = 4"
| "field_width SET_IPV4_SRC = 4"
| "field_width SET_TCP_DST = 2"
| "field_width SET_TCP_SRC = 2"
| "field_width SET_UDP_DST = 2"
| "field_width SET_UDP_SRC = 2"
| "field_width SET_ARP_OP = 2"
| "field_width SET_ARP_SPA = 4"
| "field_width SET_ARP_TPA = 4"
| "field_width SET_ARP_SHA = 6"
| "field_width SET_ARP_THA = 6"
| "field_width SET_IPV6_DST = 16"
| "field_width SET_IPV6_SRC = 16"
| "field_width SET_IPV6_ND_TARGET = 6"
| "field_width SET_IPV6_ND_SLL = 6"
| "field_width SET_IPV6_ND_TLL = 6"
| "field_width _ = 0"

definition act_ok :: "action \<Rightarrow> bool" where
  "act_ok act \<longleftrightarrow>
     (case act_type act of
        ACT_POP_VLAN \<Rightarrow> True
      | ACT_GROUP \<Rightarrow> True
      | ACT_POP_MPLS \<Rightarrow> (case act_arg act of Eth_Type _ \<Rightarrow> True | _ \<Rightarrow> False)
      | ACT_PUSH_MPLS \<Rightarrow> (case act_arg act of Eth_Type _ \<Rightarrow> True | _ \<Rightarrow> False)
      | ACT_PUSH_VLAN \<Rightarrow> (case act_arg act of Eth_Type _ \<Rightarrow> True | _ \<Rightarrow> False)
      | ACT_SET_FIELD \<Rightarrow> (case act_arg act of Set_Field fld v \<Rightarrow> field_width fld \<le> length v | _ \<Rightarrow> False)
      | ACT_OUTPUT \<Rightarrow> (case act_arg act of Output _ \<Rightarrow> True | _ \<Rightarrow> False)
      | _ \<Rightarrow> False)"

definition act_ports :: "action \<Rightarrow> u32 list" where
  "act_ports act =
     (case act_type act of
        ACT_OUTPUT \<Rightarrow> (case act_arg act of Output p \<Rightarrow> [p] | _ \<Rightarrow> [])
      | _ \<Rightarrow> [])"

definition nf_ok :: "netflow \<Rightarrow> bool" where
  "nf_ok nf \<longleftrightarrow> tags_ok nf \<and> wf_key (nf_match nf)"

text \<open>What no action changes: the counters, the time, the metadata of the datapath.\<close>

definition nf_frame :: "netflow \<Rightarrow> u64 \<times> u64 \<times> u64 \<times> u64 \<times> u32 \<times> dp_meta \<times> bytes option \<times> u16" where
  "nf_frame nf = (pkt_cnt nf, byte_cnt nf, start_time nf, exec_id nf, nf_rate nf, nf_meta nf, payload nf, payload_len nf)"

definition step_ok :: "netflow \<Rightarrow> u32 list \<Rightarrow> netflow res \<Rightarrow> bool" where
  "step_ok nf ps r \<longleftrightarrow>
     (case r of Inl _ \<Rightarrow> False
      | Inr nf' \<Rightarrow> nf_ok nf' \<and> nf_frame nf' = nf_frame nf \<and> out_ports nf' = out_ports nf @ ps)"

lemma step_ok_same: "nf_ok nf \<Longrightarrow> step_ok nf [] (Inr nf)"
  by (simp add: step_ok_def)

lemma step_ok_match:
  assumes "nf_ok nf" "wf_key (u (nf_match nf))"
  shows "step_ok nf [] (Inr (upd_match u nf))"
  using assms by (simp add: step_ok_def nf_ok_def upd_match_def nf_frame_def)

lemma step_ok_tag:
  assumes "nf_ok nf" "wf_key (u (nf_match nf))"
  shows "step_ok nf [] (Inr (set_tag (upd_match u nf) i t))"
  using assms by (simp add: step_ok_def nf_ok_def upd_match_def nf_frame_def tags_ok_def set_tag_def)

text \<open>A read of a member of the value that the value is wide enough for.\<close>

lemma step_ok_read:
  "1 \<le> length v \<Longrightarrow> (\<And>x. step_ok nf ps (f1 x)) \<Longrightarrow> step_ok nf ps (rbind (u8_field v) f1)"
  "2 \<le> length v \<Longrightarrow> (\<And>x. step_ok nf ps (f2 x)) \<Longrightarrow> step_ok nf ps (rbind (u16_field v) f2)"
  "4 \<le> length v \<Longrightarrow> (\<And>x. step_ok nf ps (f4 x)) \<Longrightarrow> step_ok nf ps (rbind (u32_field v) f4)"
  "8 \<le> length v \<Longrightarrow> (\<And>x. step_ok nf ps (f8 x)) \<Longrightarrow> step_ok nf ps (rbind (u64_field v) f8)"
  "n \<le> length v \<Longrightarrow> (\<And>x. length x = n \<Longrightarrow> step_ok nf ps (fa x)) \<Longrightarrow> step_ok nf ps (rbind (addr_field n v) fa)"
  by (simp_all add: u8_field_def u16_field_def u32_field_def u64_field_def addr_field_def)

lemmas step_ok_intros = step_ok_read step_ok_match step_ok_tag step_ok_same

lemma nf_okD: "nf_ok nf \<Longrightarrow> wf_key (nf_match nf)" "nf_ok nf \<Longrightarrow> tags_ok nf"
  by (simp_all add: nf_ok_def)

lemma set_field_step:
  assumes "nf_ok nf" "act_arg act = Set_Field fld v" "field_width fld \<le> length v"
  shows "step_ok nf [] (set_field act nf)"
  using assms nf_okD(1) [OF assms(1)]
  by (cases fld; simp add: set_field_def Let_def; intro conjI impI step_ok_intros;
      simp add: wf_key_def ETH_LEN_def IPV6_LEN_def)

lemma tag_ops_step:
  assumes "nf_ok nf"
  shows "step_ok nf [] (Inr (netflow_pop_vlan nf))" "step_ok nf [] (Inr (netflow_push_vlan nf e))"
    "step_ok nf [] (Inr (netflow_push_mpls nf e))" "step_ok nf [] (Inr (netflow_pop_mpls nf e))"
  using assms tags_ok_pop_vlan [of nf] tags_ok_push_vlan [of nf e] tags_ok_push_mpls [of nf e] tags_ok_pop_mpls [of nf e]
  by (simp_all add: step_ok_def nf_ok_def wf_key_def nf_frame_def netflow_pop_vlan_def netflow_push_vlan_def
      netflow_push_mpls_def netflow_pop_mpls_def set_tag_def set_top_def Let_def)

lemma add_out_port_step: "nf_ok nf \<Longrightarrow> step_ok nf [p] (Inr (netflow_add_out_port nf p))"
  by (simp add: step_ok_def nf_ok_def tags_ok_def nf_frame_def netflow_add_out_port_def LL_APPEND_def)

lemma execute_action_step:
  assumes "nf_ok nf" "act_ok act"
  shows "step_ok nf (act_ports act) (execute_action act nf)"
proof (cases "act_type act = ACT_SET_FIELD")
  case True
  then obtain fld v where "act_arg act = Set_Field fld v" "field_width fld \<le> length v"
    using assms(2) by (auto simp: act_ok_def split: action_arg.splits)
  then show ?thesis
    using True set_field_step [OF assms(1)] by (simp add: execute_action_def act_ports_def)
next
  case False
  then show ?thesis
    using assms tag_ops_step [OF assms(1)] add_out_port_step [OF assms(1)]
    by (auto simp: execute_action_def act_ports_def act_ok_def pop_vlan_def push_vlan_def push_mpls_def
        pop_mpls_def group_def output_action_def eth_type_arg_def step_ok_same
        split: action_set_order.splits action_arg.splits)
qed

text \<open>C26: An action with a handler, whose union holds what the handler reads, always executes: the
  flow's tag stack and key stay well formed, the counters, the time and the metadata are
  untouched, and exactly the port of an output action is appended to the output ports.  An action
  of any other type calls a NULL handler.\<close>

theorem execute_action_safe:
  assumes "nf_ok nf"
  shows "if act_ok act
    then \<exists>nf'. execute_action act nf = Inr nf' \<and> nf_ok nf' \<and> nf_frame nf' = nf_frame nf \<and>
      out_ports nf' = out_ports nf @ act_ports act
    else handle_action (act_type act) = None \<longrightarrow> execute_action act nf = Inl Null_Deref"
proof (cases "act_ok act")
  case True
  then show ?thesis
    using execute_action_step [OF assms True] by (auto simp: step_ok_def split: sum.splits)
qed (simp add: execute_action_def)

text \<open>The witness sends a new flow to port 3.\<close>

theorem execute_action_safe_witness:
  "\<exists>nf'. execute_action (action_output 3) netflow_init = Inr nf' \<and> nf_ok nf' \<and> out_ports nf' = [3]"
proof -
  have "nf_ok netflow_init" "act_ok (action_output 3)"
    by code_simp+
  then show ?thesis
    using execute_action_safe [of netflow_init "action_output 3"]
    by (auto simp: act_ports_def action_output_def netflow_init_def [THEN arg_cong [where f = out_ports]])
qed

lemma vlan_masks:
  "bit VLAN_VID_MASK n \<longleftrightarrow> n < 12" "bit VLAN_PCP_MASK n \<longleftrightarrow> 13 \<le> n \<and> n < 16"
proof -
  have vid: "VLAN_VID_MASK = mask 12" and pcp: "VLAN_PCP_MASK = push_bit 13 (mask 3)"
    by (simp_all add: VLAN_VID_MASK_def VLAN_PCP_MASK_def mask_eq_exp_minus_1)
  show "bit VLAN_VID_MASK n \<longleftrightarrow> n < 12" "bit VLAN_PCP_MASK n \<longleftrightarrow> 13 \<le> n \<and> n < 16"
    unfolding vid pcp by (auto simp: bit_simps)
qed

text \<open>The tag control information with both fields written.\<close>

lemma vlan_tci:
  fixes t :: u16 and vid :: u16 and pcp :: u8
  assumes "vid \<le> VLAN_VID_MASK" "pcp \<le> 7"
  defines "tci \<equiv> (((t AND NOT VLAN_VID_MASK) OR (vid AND VLAN_VID_MASK)) AND NOT VLAN_PCP_MASK) OR push_bit 13 (ucast pcp)"
  shows "tci AND VLAN_VID_MASK = vid" "ucast (drop_bit 13 (tci AND VLAN_PCP_MASK)) = pcp"
proof -
  have "take_bit 12 vid = vid"
    using assms(1) by (simp add: word_unat_eq_iff unsigned_take_bit_eq take_bit_nat_eq_self_iff
        word_le_nat_alt VLAN_VID_MASK_def)
  then have vid: "bit vid n \<Longrightarrow> n < 12" for n
    by (metis bit_take_bit_iff)
  have "take_bit 3 pcp = pcp"
    using assms(2) by (simp add: word_unat_eq_iff unsigned_take_bit_eq take_bit_nat_eq_self_iff word_le_nat_alt)
  then have pcp: "bit pcp n \<Longrightarrow> n < 3" for n
    by (metis bit_take_bit_iff)
  show "tci AND VLAN_VID_MASK = vid"
    by (rule bit_word_eqI) (auto simp: tci_def bit_simps vlan_masks dest: vid)
  show "ucast (drop_bit 13 (tci AND VLAN_PCP_MASK)) = pcp"
    by (rule bit_word_eqI) (auto simp: tci_def bit_simps vlan_masks dest: pcp)
qed

lemma set_vlan_id_effect:
  assumes "nf_ok nf" "netflow_is_vlan_tagged nf"
  shows "execute_action (action_set_field_u16 SET_VLAN_ID vid) nf =
    Inr (set_tag (upd_match (\<lambda>m. m\<lparr>vlan_id := vid\<rparr>) nf) (top (tags nf))
      (set_vlan_tag ((vlan_tag (tag_at nf (top (tags nf))) AND NOT VLAN_VID_MASK) OR (vid AND VLAN_VID_MASK))
        (tag_at nf (top (tags nf)))))"
  using assms(2)
  by (simp add: execute_action_def action_set_field_u16_def action_set_field_def set_field_def Let_def
      upd_match_def u16_field_def mem16_def put16_def)

lemma set_vlan_pcp_effect:
  assumes "nf_ok nf" "netflow_is_vlan_tagged nf"
  shows "execute_action (action_set_field_u8 SET_VLAN_PCP pcp) nf =
    Inr (set_tag (upd_match (\<lambda>m. m\<lparr>vlan_pcp := pcp\<rparr>) nf) (top (tags nf))
      (set_vlan_tag ((vlan_tag (tag_at nf (top (tags nf))) AND NOT VLAN_PCP_MASK) OR push_bit 13 (ucast pcp))
        (tag_at nf (top (tags nf)))))"
  using assms(2)
  by (simp add: execute_action_def action_set_field_u8_def action_set_field_def set_field_def Let_def
      upd_match_def u8_field_def)

lemma tagged_set_tag:
  assumes "nf_ok nf" "netflow_is_vlan_tagged nf" "t_type t = t_type (tag_at nf (top (tags nf)))"
  shows "netflow_is_vlan_tagged (set_tag (upd_match u nf) (top (tags nf)) t)"
    and "tag_at (set_tag (upd_match u nf) (top (tags nf)) t) (top (tags nf)) = t"
    and "top (tags (set_tag (upd_match u nf) (top (tags nf)) t)) = top (tags nf)"
proof -
  have i: "nat (top (tags nf)) < length (level (tags nf))"
    using nf_okD(2) [OF assms(1)] assms(2)
    by (auto simp: tags_ok_def netflow_is_vlan_tagged_def STACK_EMPTY_def)
  then show at: "tag_at (set_tag (upd_match u nf) (top (tags nf)) t) (top (tags nf)) = t"
    by (simp add: tag_at_set_tag upd_match_def)
  show top: "top (tags (set_tag (upd_match u nf) (top (tags nf)) t)) = top (tags nf)"
    by (simp add: upd_match_def)
  show "netflow_is_vlan_tagged (set_tag (upd_match u nf) (top (tags nf)) t)"
    using assms(2,3) unfolding netflow_is_vlan_tagged_def top at by simp
qed

text \<open>Setting the VLAN identifier and then the priority of a tagged flow writes both into the
  key and into the tag on top of the stack, whatever the tag held before: pushing another tag and
  popping it later recovers both fields from the tag.\<close>

theorem set_vlan_fields_in_tag:
  assumes "nf_ok nf" "netflow_is_vlan_tagged nf" "vid \<le> VLAN_VID_MASK" "pcp \<le> 7"
  shows "\<exists>nf'. rbind (execute_action (action_set_field_u16 SET_VLAN_ID vid) nf)
        (execute_action (action_set_field_u8 SET_VLAN_PCP pcp)) = Inr nf' \<and>
      nf_ok nf' \<and> netflow_is_vlan_tagged nf' \<and>
      nf_match nf' = (nf_match nf)\<lparr>vlan_id := vid, vlan_pcp := pcp\<rparr> \<and>
      vlan_tag (tag_at nf' (top (tags nf'))) AND VLAN_VID_MASK = vid \<and>
      ucast (drop_bit 13 (vlan_tag (tag_at nf' (top (tags nf'))) AND VLAN_PCP_MASK)) = pcp"
proof -
  let ?t = "tag_at nf (top (tags nf))"
  let ?v = "(vlan_tag ?t AND NOT VLAN_VID_MASK) OR (vid AND VLAN_VID_MASK)"
  define nf1 where "nf1 = set_tag (upd_match (\<lambda>m. m\<lparr>vlan_id := vid\<rparr>) nf) (top (tags nf)) (set_vlan_tag ?v ?t)"
  have e1: "execute_action (action_set_field_u16 SET_VLAN_ID vid) nf = Inr nf1"
    using set_vlan_id_effect [OF assms(1,2)] by (simp add: nf1_def)
  have ok1: "nf_ok nf1"
    using execute_action_step [OF assms(1), of "action_set_field_u16 SET_VLAN_ID vid"] e1
    by (simp add: step_ok_def act_ok_def action_set_field_u16_def action_set_field_def mem16_def)
  have tag1: "netflow_is_vlan_tagged nf1" "tag_at nf1 (top (tags nf)) = set_vlan_tag ?v ?t"
      "top (tags nf1) = top (tags nf)"
    unfolding nf1_def by (rule tagged_set_tag [OF assms(1,2)]; simp)+
  define nf2 where "nf2 = set_tag (upd_match (\<lambda>m. m\<lparr>vlan_pcp := pcp\<rparr>) nf1) (top (tags nf1))
    (set_vlan_tag ((?v AND NOT VLAN_PCP_MASK) OR push_bit 13 (ucast pcp)) (set_vlan_tag ?v ?t))"
  have e2: "execute_action (action_set_field_u8 SET_VLAN_PCP pcp) nf1 = Inr nf2"
    using set_vlan_pcp_effect [OF ok1 tag1(1), of pcp] tag1 by (simp add: nf2_def)
  have ok2: "nf_ok nf2"
    using execute_action_step [OF ok1, of "action_set_field_u8 SET_VLAN_PCP pcp"] e2
    by (simp add: step_ok_def act_ok_def action_set_field_u8_def action_set_field_def)
  have tag2: "netflow_is_vlan_tagged nf2" "vlan_tag (tag_at nf2 (top (tags nf2))) =
      (?v AND NOT VLAN_PCP_MASK) OR push_bit 13 (ucast pcp)"
    using tagged_set_tag [OF ok1 tag1(1), where u = "\<lambda>m. m\<lparr>vlan_pcp := pcp\<rparr>"
        and t = "set_vlan_tag ((?v AND NOT VLAN_PCP_MASK) OR push_bit 13 (ucast pcp)) (set_vlan_tag ?v ?t)"] tag1
    by (simp_all add: nf2_def)
  have "nf_match nf2 = (nf_match nf)\<lparr>vlan_id := vid, vlan_pcp := pcp\<rparr>"
    by (simp add: nf2_def nf1_def upd_match_def set_tag_def)
  then show ?thesis
    using e1 e2 ok2 tag2 vlan_tci [OF assms(3,4), of "vlan_tag ?t"] by simp
qed

text \<open>The witness tags a new flow and sets identifier 100 and priority 5.\<close>

theorem set_vlan_fields_in_tag_witness:
  "\<exists>nf'. rbind (execute_action (action_set_field_u16 SET_VLAN_ID 100) (netflow_push_vlan netflow_init ETH_TYPE_VLAN))
        (execute_action (action_set_field_u8 SET_VLAN_PCP 5)) = Inr nf' \<and>
      vlan_tag (tag_at nf' (top (tags nf'))) AND VLAN_VID_MASK = 100"
proof -
  have "nf_ok (netflow_push_vlan netflow_init ETH_TYPE_VLAN)"
      "netflow_is_vlan_tagged (netflow_push_vlan netflow_init ETH_TYPE_VLAN)"
    by code_simp+
  then show ?thesis
    using set_vlan_fields_in_tag [of "netflow_push_vlan netflow_init ETH_TYPE_VLAN" 100 5]
    by (auto simp: VLAN_VID_MASK_def)
qed

text \<open>The traffic class is written without clearing the old one, and the rest of the tag is lost.\<close>

lemma set_mpls_tc_loses_label:
  "\<exists>nf'. execute_action (action_set_field_u8 SET_MPLS_TC 0)
      (set_tag (netflow_push_mpls netflow_init ETH_TYPE_MPLS) 1 \<lparr>t_type = ETH_TYPE_MPLS, t_union = 0x00064fff\<rparr>) = Inr nf' \<and>
    mpls_fields (tag_at nf' 1) = 0x00000e00"
proof -
  have "(case execute_action (action_set_field_u8 SET_MPLS_TC 0)
      (set_tag (netflow_push_mpls netflow_init ETH_TYPE_MPLS) 1 \<lparr>t_type = ETH_TYPE_MPLS, t_union = 0x00064fff\<rparr>) of
      Inl e \<Rightarrow> False | Inr nf' \<Rightarrow> mpls_fields (tag_at nf' 1) = 0x00000e00)"
    by code_simp
  then show ?thesis
    by (auto split: sum.splits)
qed

text \<open>The action that pushes a VLAN tag runs the handler of MPLS, which takes no VLAN type.\<close>

lemma push_vlan_action_does_nothing:
  assumes "is_vlan_type ety"
  shows "execute_action (action_push_vlan ety) nf = Inr nf"
  using assms
  by (auto simp: execute_action_def action_push_vlan_def push_mpls_def eth_type_arg_def netflow_push_mpls_def
      is_vlan_type_def is_mpls_type_def eth_types)

end
