(* ===== verification/Of_Pack.thy ===== *)
theory Of_Pack
  imports Of_Unpack Dp_Actions
begin

section \<open>From the datapath to OpenFlow messages (lib/of\_pack)\<close>

text \<open>
  Packing of matches, actions, instructions and of the messages a datapath sends.  An action or an
  instruction is the bytes that LOCI puts on the wire; a message is the record of the values the
  setters of its class were given.  LOCI's allocations and setters are taken to succeed.
  \<open>mem\<close> is what an uninitialised address on the stack holds.
\<close>

subsection \<open>Objects on the wire\<close>

definition oxm_wire :: "u8 \<Rightarrow> bytes \<Rightarrow> bytes" where
  "oxm_wire fld value = put32 (oxm_type_len fld (length value)) @ value"

definition act_wire :: "u16 \<Rightarrow> bytes \<Rightarrow> bytes" where
  "act_wire ty b = put16 ty @ put16 (word_of_nat (4 + length b)) @ b"

text \<open>An object is appended when the list stays below the longest wire buffer.\<close>

definition wire_append :: "bytes \<Rightarrow> bytes \<Rightarrow> bytes" where
  "wire_append xs x = (if length xs + length x \<le> 65535 then xs @ x else xs)"

definition zero_fields :: of_match_fields where
  "zero_fields = \<lparr>mf_in_port = 0,
     mf_in_phy_port = 0,
     mf_metadata = 0,
     mf_tunnel_id = 0,
     mf_eth_dst = replicate ETH_LEN 0,
     mf_eth_src = replicate ETH_LEN 0,
     mf_eth_type = 0,
     mf_vlan_vid = 0,
     mf_vlan_pcp = 0,
     mf_ip_dscp = 0,
     mf_ip_ecn = 0,
     mf_ip_proto = 0,
     mf_ipv4_src = 0,
     mf_ipv4_dst = 0,
     mf_tcp_src = 0,
     mf_tcp_dst = 0,
     mf_udp_src = 0,
     mf_udp_dst = 0,
     mf_sctp_src = 0,
     mf_sctp_dst = 0,
     mf_icmpv4_type = 0,
     mf_icmpv4_code = 0,
     mf_arp_op = 0,
     mf_arp_spa = 0,
     mf_arp_tpa = 0,
     mf_arp_sha = replicate ETH_LEN 0,
     mf_arp_tha = replicate ETH_LEN 0,
     mf_ipv6_src = replicate IPV6_LEN 0,
     mf_ipv6_dst = replicate IPV6_LEN 0,
     mf_ipv6_flabel = 0,
     mf_icmpv6_type = 0,
     mf_icmpv6_code = 0,
     mf_ipv6_nd_target = replicate IPV6_LEN 0,
     mf_ipv6_nd_sll = replicate ETH_LEN 0,
     mf_ipv6_nd_tll = replicate ETH_LEN 0,
     mf_mpls_label = 0,
     mf_mpls_tc = 0,
     mf_mpls_bos = 0\<rparr>"

record of_packet_in =
  pi_buffer_id :: u32
  pi_reason :: u8
  pi_table_id :: u8
  pi_cookie :: u64
  pi_match :: of_match
  pi_data :: bytes
  pi_total_len :: u16

record of_flow_stats_entry =
  se_table_id :: u8
  se_priority :: u16
  se_idle_timeout :: u16
  se_hard_timeout :: u16
  se_cookie :: u64
  se_packet_count :: u64
  se_byte_count :: u64
  se_match :: of_match
  se_instructions :: bytes

record of_flow_stats_reply =
  fsr_xid :: u32
  fsr_entries :: "of_flow_stats_entry list"

record of_aggregate_stats_reply =
  asr_xid :: u32
  asr_flow_count :: u32
  asr_packet_count :: u64
  asr_byte_count :: u64

subsection \<open>Matches\<close>

definition MAX_PACKET_IN_DATA :: nat where "MAX_PACKET_IN_DATA = 1492"

definition netflow_to_match :: "netflow \<Rightarrow> of_match" where
  "netflow_to_match nf =
     \<lparr>match_fields = zero_fields\<lparr>mf_in_port := in_port (nf_match nf)\<rparr>,
      match_masks = zero_fields\<lparr>mf_in_port := 0xffffffff\<rparr>\<rparr>"

definition pack_match_fields :: "ofl_flow_key \<Rightarrow> of_match_fields \<Rightarrow> of_match_fields" where
  "pack_match_fields key mf =
     mf\<lparr>mf_in_port := in_port key,
       mf_in_phy_port := in_phy_port key,
       mf_metadata := metadata key,
       mf_tunnel_id := tunnel_id key,
       mf_eth_dst := take ETH_LEN (eth_dst key),
       mf_eth_src := take ETH_LEN (eth_src key),
       mf_eth_type := eth_type key,
       mf_vlan_vid := vlan_id key,
       mf_vlan_pcp := vlan_pcp key,
       mf_ip_dscp := ip_dscp key,
       mf_ip_ecn := ip_ecn key,
       mf_ip_proto := ip_proto key,
       mf_ipv4_src := ipv4_src key,
       mf_ipv4_dst := ipv4_dst key,
       mf_tcp_src := tcp_src key,
       mf_tcp_dst := tcp_dst key,
       mf_udp_src := udp_src key,
       mf_udp_dst := udp_dst key,
       mf_sctp_src := sctp_src key,
       mf_sctp_dst := sctp_dst key,
       mf_icmpv4_type := icmpv4_type key,
       mf_icmpv4_code := icmpv4_code key,
       mf_arp_op := arp_op key,
       mf_arp_spa := arp_spa key,
       mf_arp_tpa := arp_tpa key,
       mf_arp_sha := take ETH_LEN (arp_sha key),
       mf_arp_tha := take ETH_LEN (arp_tha key),
       mf_ipv6_src := take IPV6_LEN (ipv6_src key),
       mf_ipv6_dst := take IPV6_LEN (ipv6_dst key),
       mf_ipv6_flabel := ipv6_flabel key,
       mf_icmpv6_type := icmpv6_type key,
       mf_icmpv6_code := mf_icmpv6_code mf,
       mf_ipv6_nd_target := take IPV6_LEN (ipv6_nd_target key),
       mf_ipv6_nd_sll := take ETH_LEN (ipv6_nd_sll key),
       mf_ipv6_nd_tll := take ETH_LEN (ipv6_nd_tll key),
       mf_mpls_label := mpls_label key,
       mf_mpls_tc := mpls_tc key,
       mf_mpls_bos := mpls_bos key\<rparr>"

subsection \<open>Actions\<close>

text \<open>The cases of the set-field switch, in the order of the source; \<open>None\<close> is no case.\<close>

definition pack_set_l2 :: "bytes \<Rightarrow> set_field_type \<Rightarrow> bytes \<Rightarrow> bytes option res" where
  "pack_set_l2 mem fld v =
     (case fld of
        SET_METADATA \<Rightarrow> rbind (u64_field v) (\<lambda>x. Inr (Some (oxm_wire OFPXMT_OFB_METADATA (put64 x))))
      | SET_TUNNEL_ID \<Rightarrow> rbind (u64_field v) (\<lambda>x. Inr (Some (oxm_wire OFPXMT_OFB_TUNNEL_ID (put64 x))))
      | SET_ETH_TYPE \<Rightarrow> rbind (u16_field v) (\<lambda>x. Inr (Some (oxm_wire OFPXMT_OFB_ETH_TYPE (put16 x))))
      | SET_ETH_DST \<Rightarrow> rbind (addr_field ETH_LEN v) (\<lambda>x. Inr (Some (oxm_wire OFPXMT_OFB_ETH_DST x)))
      | SET_ETH_SRC \<Rightarrow> rbind (addr_field ETH_LEN v) (\<lambda>x. Inr (Some (oxm_wire OFPXMT_OFB_ETH_SRC x)))
      | SET_VLAN_ID \<Rightarrow> rbind (u16_field v) (\<lambda>x. Inr (Some (oxm_wire OFPXMT_OFB_VLAN_VID (put16 x))))
      | SET_VLAN_PCP \<Rightarrow> rbind (u8_field v) (\<lambda>x. Inr (Some (oxm_wire OFPXMT_OFB_VLAN_PCP [x])))
      | SET_MPLS_LABEL \<Rightarrow> rbind (u32_field v) (\<lambda>x. Inr (Some (oxm_wire OFPXMT_OFB_MPLS_LABEL (put32 x))))
      | SET_MPLS_TC \<Rightarrow> rbind (u8_field v) (\<lambda>x. Inr (Some (oxm_wire OFPXMT_OFB_MPLS_TC [x])))
      | SET_MPLS_BOS \<Rightarrow> rbind (u8_field v) (\<lambda>x. Inr (Some (oxm_wire OFPXMT_OFB_MPLS_BOS [x])))
      | _ \<Rightarrow> Inr None)"

definition pack_set_l3_l4 :: "bytes \<Rightarrow> set_field_type \<Rightarrow> bytes \<Rightarrow> bytes option res" where
  "pack_set_l3_l4 mem fld v =
     (case fld of
        SET_IP_DSCP \<Rightarrow> rbind (u8_field v) (\<lambda>x. Inr (Some (oxm_wire OFPXMT_OFB_IP_DSCP [x])))
      | SET_IP_ECN \<Rightarrow> rbind (u8_field v) (\<lambda>x. Inr (Some (oxm_wire OFPXMT_OFB_IP_ECN [x])))
      | SET_IP_PROTO \<Rightarrow> rbind (u8_field v) (\<lambda>x. Inr (Some (oxm_wire OFPXMT_OFB_IP_PROTO [x])))
      | SET_IPV4_DST \<Rightarrow> rbind (u32_field v) (\<lambda>x. Inr (Some (oxm_wire OFPXMT_OFB_IPV4_DST (put32 x))))
      | SET_IPV4_SRC \<Rightarrow> rbind (u32_field v) (\<lambda>x. Inr (Some (oxm_wire OFPXMT_OFB_IPV4_SRC (put32 x))))
      | SET_ICMPV4_TYPE \<Rightarrow> rbind (u8_field v) (\<lambda>x. Inr (Some (oxm_wire OFPXMT_OFB_ICMPV4_TYPE [x])))
      | SET_ICMPV4_CODE \<Rightarrow> rbind (u8_field v) (\<lambda>x. Inr (Some (oxm_wire OFPXMT_OFB_ICMPV4_CODE [x])))
      | SET_TCP_DST \<Rightarrow> rbind (u16_field v) (\<lambda>x. Inr (Some (oxm_wire OFPXMT_OFB_TCP_DST (put16 x))))
      | SET_TCP_SRC \<Rightarrow> rbind (u16_field v) (\<lambda>x. Inr (Some (oxm_wire OFPXMT_OFB_TCP_SRC (put16 x))))
      | SET_UDP_DST \<Rightarrow> rbind (u16_field v) (\<lambda>x. Inr (Some (oxm_wire OFPXMT_OFB_UDP_DST (put16 x))))
      | SET_UDP_SRC \<Rightarrow> rbind (u16_field v) (\<lambda>x. Inr (Some (oxm_wire OFPXMT_OFB_UDP_SRC (put16 x))))
      | SET_SCTP_DST \<Rightarrow> rbind (u16_field v) (\<lambda>x. Inr (Some (oxm_wire OFPXMT_OFB_SCTP_DST (put16 x))))
      | SET_SCTP_SRC \<Rightarrow> rbind (u16_field v) (\<lambda>x. Inr (Some (oxm_wire OFPXMT_OFB_SCTP_SRC (put16 x))))
      | _ \<Rightarrow> Inr None)"

definition pack_set_arp_ipv6 :: "bytes \<Rightarrow> set_field_type \<Rightarrow> bytes \<Rightarrow> bytes option res" where
  "pack_set_arp_ipv6 mem fld v =
     (case fld of
        SET_ARP_OP \<Rightarrow> rbind (u16_field v) (\<lambda>x. Inr (Some (oxm_wire OFPXMT_OFB_ARP_OP (put16 x))))
      | SET_ARP_SPA \<Rightarrow> rbind (u32_field v) (\<lambda>x. Inr (Some (oxm_wire OFPXMT_OFB_ARP_SPA (put32 x))))
      | SET_ARP_TPA \<Rightarrow> rbind (u32_field v) (\<lambda>x. Inr (Some (oxm_wire OFPXMT_OFB_ARP_TPA (put32 x))))
      | SET_ARP_SHA \<Rightarrow> rbind (addr_field ETH_LEN v) (\<lambda>x. Inr (Some (oxm_wire OFPXMT_OFB_ARP_SHA x)))
      | SET_ARP_THA \<Rightarrow> rbind (addr_field ETH_LEN v) (\<lambda>x. Inr (Some (oxm_wire OFPXMT_OFB_ARP_THA x)))
      | SET_IPV6_DST \<Rightarrow> rbind (addr_field ETH_LEN v) (\<lambda>x. Inr (Some (oxm_wire OFPXMT_OFB_IPV6_DST (x @ drop ETH_LEN mem))))
      | SET_IPV6_SRC \<Rightarrow> rbind (addr_field ETH_LEN v) (\<lambda>x. Inr (Some (oxm_wire OFPXMT_OFB_IPV6_SRC (x @ drop ETH_LEN mem))))
      | SET_IPV6_FLABEL \<Rightarrow> rbind (u32_field v) (\<lambda>x. Inr (Some (oxm_wire OFPXMT_OFB_IPV6_FLABEL (put32 x))))
      | SET_ICMPV6_TYPE \<Rightarrow> rbind (u8_field v) (\<lambda>x. Inr (Some (oxm_wire OFPXMT_OFB_ICMPV6_TYPE [x])))
      | SET_ICMPV6_CODE \<Rightarrow> rbind (u8_field v) (\<lambda>x. Inr (Some (oxm_wire OFPXMT_OFB_ICMPV6_CODE [x])))
      | SET_IPV6_ND_TARGET \<Rightarrow> rbind (addr_field ETH_LEN v) (\<lambda>x. Inr (Some (oxm_wire OFPXMT_OFB_IPV6_ND_TARGET (x @ drop ETH_LEN mem))))
      | SET_IPV6_ND_SLL \<Rightarrow> rbind (addr_field ETH_LEN v) (\<lambda>x. Inr (Some (oxm_wire OFPXMT_OFB_IPV6_ND_SLL x)))
      | SET_IPV6_ND_TLL \<Rightarrow> rbind (addr_field ETH_LEN v) (\<lambda>x. Inr (Some (oxm_wire OFPXMT_OFB_IPV6_ND_TLL x)))
      | _ \<Rightarrow> Inr None)"

definition pack_set_field :: "bytes \<Rightarrow> action \<Rightarrow> bytes res" where
  "pack_set_field mem act =
     (case act_arg act of
        Set_Field fld v \<Rightarrow>
          rbind (pack_set_l2 mem fld v) (\<lambda>a. rbind (pack_set_l3_l4 mem fld v) (\<lambda>b.
          rbind (pack_set_arp_ipv6 mem fld v) (\<lambda>c.
            case [oxm. Some oxm \<leftarrow> [a, b, c]] of
              [] \<Rightarrow> Inr (act_wire OFPAT_SET_FIELD [0, 0, 0, 0])
            | oxm # _ \<Rightarrow> Inr (act_wire OFPAT_SET_FIELD oxm))))
      | _ \<Rightarrow> Inl Uninitialised)"

definition pack_action :: "bytes \<Rightarrow> action \<Rightarrow> bytes option res" where
  "pack_action mem act =
     (case act_type act of
        ACT_OUTPUT \<Rightarrow>
          (case act_arg act of
             Output port \<Rightarrow> Inr (Some (act_wire OFPAT_OUTPUT (put32 port @ put16 0 @ replicate 6 0)))
           | _ \<Rightarrow> Inl Uninitialised)
      | ACT_SET_FIELD \<Rightarrow> rbind (pack_set_field mem act) (\<lambda>a. Inr (Some a))
      | ACT_POP_VLAN \<Rightarrow> Inr (Some (act_wire OFPAT_POP_VLAN (replicate 4 0)))
      | ACT_POP_MPLS \<Rightarrow> rbind (eth_type_arg act) (\<lambda>e. Inr (Some (act_wire OFPAT_POP_MPLS (put16 e @ [0, 0]))))
      | ACT_PUSH_MPLS \<Rightarrow> rbind (eth_type_arg act) (\<lambda>e. Inr (Some (act_wire OFPAT_PUSH_MPLS (put16 e @ [0, 0]))))
      | ACT_PUSH_VLAN \<Rightarrow> rbind (eth_type_arg act) (\<lambda>e. Inr (Some (act_wire OFPAT_PUSH_VLAN (put16 e @ [0, 0]))))
      | ACT_GROUP \<Rightarrow>
          (case act_arg act of
             Group gid \<Rightarrow> Inr (Some (act_wire OFPAT_GROUP (put32 gid)))
           | _ \<Rightarrow> Inl Uninitialised)
      | _ \<Rightarrow> Inr None)"

fun pack_action_list :: "bytes \<Rightarrow> action_list \<Rightarrow> bytes \<Rightarrow> bytes res" where
  "pack_action_list mem [] acts = Inr acts"
| "pack_action_list mem (a # al) acts =
     rbind (pack_action mem a) (\<lambda>act.
       case act of
         None \<Rightarrow> pack_action_list mem al acts
       | Some w \<Rightarrow> pack_action_list mem al (wire_append acts w))"

fun pack_action_set_loop :: "bytes \<Rightarrow> action_set \<Rightarrow> action_set_order list \<Rightarrow> bytes \<Rightarrow> bytes res" where
  "pack_action_set_loop mem as [] acts = Inr acts"
| "pack_action_set_loop mem as (type # types) acts =
     (case action_set_action as type of
        None \<Rightarrow> pack_action_set_loop mem as types acts
      | Some a \<Rightarrow> rbind (pack_action mem a) (\<lambda>act.
          case act of
            None \<Rightarrow> pack_action_set_loop mem as types acts
          | Some w \<Rightarrow> pack_action_set_loop mem as types (wire_append acts w)))"

definition pack_action_set :: "bytes \<Rightarrow> action_set \<Rightarrow> bytes \<Rightarrow> bytes res" where
  "pack_action_set mem as acts = pack_action_set_loop mem as action_types acts"

subsection \<open>Instructions\<close>

definition pack_apply :: "bytes \<Rightarrow> instruction_set \<Rightarrow> bytes \<Rightarrow> bytes res" where
  "pack_apply mem is insts =
     (if instruction_is_active is INSTRUCTION_APPLY_ACTIONS then
        rbind (pack_action_list mem (aa_actions (apply_act is)) []) (\<lambda>acts.
          Inr (wire_append insts (act_wire OFPIT_APPLY_ACTIONS (replicate 4 0 @ acts))))
      else Inr insts)"

definition pack_write :: "bytes \<Rightarrow> instruction_set \<Rightarrow> bytes \<Rightarrow> bytes res" where
  "pack_write mem is insts =
     (if instruction_is_active is INSTRUCTION_WRITE_ACTIONS then
        rbind (pack_action_set mem (wa_actions (write_act is)) []) (\<lambda>acts.
          Inr (wire_append insts (act_wire OFPIT_WRITE_ACTIONS (replicate 4 0 @ acts))))
      else Inr insts)"

definition pack_instructions :: "bytes \<Rightarrow> instruction_set \<Rightarrow> bytes \<Rightarrow> bytes res" where
  "pack_instructions mem is insts =
     rbind (pack_apply mem is insts) (\<lambda>insts.
     let insts =
       (if instruction_is_active is INSTRUCTION_CLEAR_ACTIONS
        then wire_append insts (act_wire OFPIT_CLEAR_ACTIONS (replicate 4 0)) else insts)
     in rbind (pack_write mem is insts) (\<lambda>insts.
     let insts =
       (if instruction_is_active is INSTRUCTION_WRITE_METADATA
        then wire_append insts (act_wire OFPIT_WRITE_METADATA
          (replicate 4 0 @ put64 (wm_metadata (write_meta is)) @ put64 (wm_metadata_mask (write_meta is))))
        else insts);
         insts =
       (if instruction_is_active is INSTRUCTION_GOTO_TABLE
        then wire_append insts (act_wire OFPIT_GOTO_TABLE [gt_table_id (gt_table is), 0, 0, 0]) else insts)
     in Inr insts))"

subsection \<open>Messages\<close>

text \<open>The packet is written into \<open>MAX_PACKET_IN_DATA\<close> bytes.\<close>

definition pack_packet_in :: "netflow \<Rightarrow> of_packet_in res" where
  "pack_packet_in nf =
     (let pkt = netflow_to_pkt nf in
      if MAX_PACKET_IN_DATA < length pkt then Inl Out_Of_Bounds
      else Inr \<lparr>pi_buffer_id = meta_buffer_id (nf_meta nf), pi_reason = meta_reason (nf_meta nf),
             pi_table_id = meta_table_id (nf_meta nf), pi_cookie = meta_cookie (nf_meta nf),
             pi_match = netflow_to_match nf, pi_data = pkt, pi_total_len = word_of_nat (length pkt)\<rparr>)"

definition pack_stats_entry :: "bytes \<Rightarrow> flow \<Rightarrow> of_flow_stats_entry res" where
  "pack_stats_entry mem f =
     rbind (pack_instructions mem (f_insts f) []) (\<lambda>insts.
       Inr \<lparr>se_table_id = f_table_id f, se_priority = f_priority f,
            se_idle_timeout = ucast (f_idle_timeout f), se_hard_timeout = ucast (f_hard_timeout f),
            se_cookie = f_cookie f, se_packet_count = f_pkt_cnt f, se_byte_count = f_byte_cnt f,
            se_match = \<lparr>match_fields = pack_match_fields (f_key f) zero_fields,
                        match_masks = pack_match_fields (f_mask f) zero_fields\<rparr>,
            se_instructions = insts\<rparr>)"

fun pack_stats_entries :: "bytes \<Rightarrow> flow list \<Rightarrow> of_flow_stats_entry list res" where
  "pack_stats_entries mem [] = Inr []"
| "pack_stats_entries mem (f # fs) =
     rbind (pack_stats_entry mem f) (\<lambda>e. rbind (pack_stats_entries mem fs) (\<lambda>es. Inr (e # es)))"

definition pack_flow_stats_reply :: "bytes \<Rightarrow> flow list \<Rightarrow> u32 \<Rightarrow> of_flow_stats_reply res" where
  "pack_flow_stats_reply mem fs xid =
     rbind (pack_stats_entries mem fs) (\<lambda>es. Inr \<lparr>fsr_xid = xid, fsr_entries = es\<rparr>)"

text \<open>The packet count is set twice, the second time to the number of bytes.\<close>

definition pack_aggregate_stats_reply :: "flow list \<Rightarrow> u32 \<Rightarrow> of_aggregate_stats_reply" where
  "pack_aggregate_stats_reply fs xid =
     (let (pkts, byts) = fold (\<lambda>f (p, b). (p + f_pkt_cnt f, b + f_byte_cnt f)) fs (0, 0);
          reply = \<lparr>asr_xid = xid, asr_flow_count = word_of_nat (length fs), asr_packet_count = 0, asr_byte_count = 0\<rparr>;
          reply = reply\<lparr>asr_packet_count := pkts\<rparr>
      in reply\<lparr>asr_packet_count := byts\<rparr>)"

subsection \<open>Matches round trip\<close>

lemma match_round_trip:
  assumes "wf_key key"
  shows "unpack_match_fields (pack_match_fields key mf) key0 = key\<lparr>icmpv6_code := mf_icmpv6_code mf\<rparr>"
  using assms by (simp add: unpack_match_fields_def pack_match_fields_def wf_key_def)

subsection \<open>Actions round trip\<close>

text \<open>The actions that reach the wire and come back.\<close>

definition carried :: "action \<Rightarrow> bool" where
  "carried a \<longleftrightarrow>
     (case act_type a of
        ACT_OUTPUT \<Rightarrow> (case act_arg a of Output _ \<Rightarrow> True | _ \<Rightarrow> False)
      | ACT_GROUP \<Rightarrow> (case act_arg a of Group _ \<Rightarrow> True | _ \<Rightarrow> False)
      | ACT_PUSH_VLAN \<Rightarrow> (case act_arg a of Eth_Type _ \<Rightarrow> True | _ \<Rightarrow> False)
      | ACT_POP_MPLS \<Rightarrow> (case act_arg a of Eth_Type _ \<Rightarrow> True | _ \<Rightarrow> False)
      | _ \<Rightarrow> False)"

lemma carried_cases:
  assumes "carried a"
  obtains (to_port) p where "a = action_output p" | (group) g where "a = action_group g"
    | (push_vlan) e where "a = action_push_vlan e" | (pop_mpls) e where "a = action_pop_mpls e"
  using assms
  by (cases a) (auto simp: carried_def action_output_def action_group_def action_push_vlan_def action_pop_mpls_def
      split: action_set_order.splits action_arg.splits)

lemma length_act_wire [simp]: "length (act_wire ty b) = 4 + length b"
  by (simp add: act_wire_def)

lemma tlv_ok_act_wire: "length b < 65532 \<Longrightarrow> tlv_ok (act_wire ty b)"
  unfolding tlv_ok_def act_wire_def by force

lemma act_wire_reads:
  "wire_u16 nd (act_wire ty b @ rest) 0 = Inr ty"
  "wire_u16 nd (act_wire ty (put16 v @ b) @ rest) 4 = Inr v"
  "wire_u32 nd (act_wire ty (put32 w @ b) @ rest) 4 = Inr w"
  "wire_u16 nd (act_wire ty b @ rest) 2 = Inr (word_of_nat (4 + length b))"
  using wire_reads(2) [of "[]" 0 nd ty "put16 (word_of_nat (4 + length b)) @ b @ rest"]
    wire_reads(2) [of "put16 ty @ put16 (word_of_nat (4 + length (put16 v @ b)))" 4 nd v "b @ rest"]
    wire_reads(3) [of "put16 ty @ put16 (word_of_nat (4 + length (put32 w @ b)))" 4 nd w "b @ rest"]
    wire_reads(2) [of "put16 ty" 2 nd "word_of_nat (4 + length b)" "b @ rest"]
  by (simp_all add: act_wire_def)

lemma carried_round_trip:
  assumes "carried a"
  shows "\<exists>w. pack_action mem a = Inr (Some w) \<and> tlv_ok w \<and> length w \<le> 16 \<and>
    (\<forall>rest g acts. unpack_action nd add (w @ rest) (g, acts) = Inr (a, add acts a))"
  using assms
proof (cases rule: carried_cases)
  case (to_port p)
  then show ?thesis
    using act_wire_reads(1) [of nd OFPAT_OUTPUT] act_wire_reads(3) [of nd OFPAT_OUTPUT p]
    by (simp add: pack_action_def action_output_def unpack_action_def ofpat_types tlv_ok_act_wire)
next
  case (group gid)
  then show ?thesis
    using act_wire_reads(1) [of nd OFPAT_GROUP] act_wire_reads(3) [of nd OFPAT_GROUP gid "[]"]
    by (simp add: pack_action_def action_group_def unpack_action_def ofpat_types tlv_ok_act_wire)
next
  case (push_vlan e)
  then show ?thesis
    using act_wire_reads(1) [of nd OFPAT_PUSH_VLAN] act_wire_reads(2) [of nd OFPAT_PUSH_VLAN e]
    by (simp add: pack_action_def action_push_vlan_def unpack_action_def eth_type_arg_def ofpat_types tlv_ok_act_wire)
next
  case (pop_mpls e)
  then show ?thesis
    using act_wire_reads(1) [of nd OFPAT_POP_MPLS] act_wire_reads(2) [of nd OFPAT_POP_MPLS e]
    by (simp add: pack_action_def action_pop_mpls_def unpack_action_def eth_type_arg_def ofpat_types tlv_ok_act_wire)
qed

definition wire_of :: "bytes \<Rightarrow> action \<Rightarrow> bytes" where
  "wire_of mem a = (case pack_action mem a of Inr (Some w) \<Rightarrow> w | _ \<Rightarrow> [])"

lemma wire_of_carried:
  assumes "carried a"
  shows "pack_action mem a = Inr (Some (wire_of mem a))" "tlv_ok (wire_of mem a)" "length (wire_of mem a) \<le> 16"
    and "unpack_action nd add (wire_of mem a @ rest) st = Inr (a, add (snd st) a)"
  using carried_round_trip [OF assms, of mem nd add] by (auto simp: wire_of_def) (cases st; auto)

lemma pack_carried_list:
  assumes "\<forall>a \<in> set al. carried a" "length acts + 16 * length al \<le> 65535"
  shows "pack_action_list mem al acts = Inr (acts @ concat (map (wire_of mem) al))"
  using assms
proof (induction al arbitrary: acts)
  case (Cons a al)
  have "length (wire_of mem a) \<le> 16" "pack_action mem a = Inr (Some (wire_of mem a))"
    using wire_of_carried(1,3) [of a mem] Cons.prems(1) by simp_all
  moreover have "wire_append acts (wire_of mem a) = acts @ wire_of mem a"
    using calculation(1) Cons.prems(2) by (simp add: wire_append_def)
  ultimately show ?case
    using Cons.IH [of "acts @ wire_of mem a"] Cons.prems by simp
qed simp

lemma action_list_add_snoc: "action_list_add al a = al @ [a]"
  by (simp add: action_list_add_def LL_APPEND_def)

lemma iter_carried_list:
  assumes "\<forall>a \<in> set al. carried a"
  shows "\<exists>g'. iter_all (unpack_action nd action_list_add) (map (wire_of mem) al) (g, acts) = Inr (g', acts @ al)"
  using assms
proof (induction al arbitrary: g acts)
  case (Cons a al)
  let ?rest = "concat (map (wire_of mem) al)"
  have "unpack_action nd action_list_add (wire_of mem a @ ?rest) (g, acts) = Inr (a, action_list_add acts a)"
    using wire_of_carried(4) [of a nd action_list_add mem ?rest "(g, acts)"] Cons.prems by simp
  then have "unpack_action nd action_list_add (wire_of mem a @ ?rest) (g, acts) = Inr (a, acts @ [a])"
    by (simp only: action_list_add_snoc)
  then show ?case
    using Cons.IH [of a "acts @ [a]"] Cons.prems by simp
qed simp

lemma actions_round_trip:
  assumes "\<forall>a \<in> set al. carried a" "16 * length al \<le> 65535"
  shows "\<exists>w. pack_action_list mem al [] = Inr w \<and> length w \<le> 16 * length al \<and>
    (\<forall>nd mem'. unpack_actions nd action_list_add mem' w action_list_init = Inr al)"
proof -
  let ?ws = "map (wire_of mem) al"
  have tlv: "\<forall>w \<in> set ?ws. tlv_ok w"
    using assms(1) wire_of_carried(2) by auto
  have "length (concat ?ws) \<le> 16 * length al"
    using assms(1)
  proof (induction al)
    case (Cons a al)
    then show ?case
      using wire_of_carried(3) [of a mem] by simp
  qed simp
  moreover have "unpack_actions nd action_list_add mem' (concat ?ws) action_list_init = Inr al" for nd mem'
    using iter_carried_list [OF assms(1), of nd mem mem' "[]"]
    by (auto simp: unpack_actions_def OF_LIST_ITER_concat [OF tlv] action_list_init_def)
  ultimately show ?thesis
    using pack_carried_list [OF assms(1), of "[]" mem] assms(2) by simp
qed

subsection \<open>Instructions round trip\<close>

lemma unpack_single:
  assumes "length b < 65532"
  shows "unpack_instructions nd mem (act_wire ty b) is =
    unpack_instruction nd mem (act_wire ty b) (act_wire ty b) (instruction_set_init is)"
proof -
  have "OF_LIST_ITER nd (unpack_instruction nd mem (act_wire ty b)) (concat [act_wire ty b]) s =
      unpack_instruction nd mem (act_wire ty b) (act_wire ty b) s" for s
    using OF_LIST_ITER_concat [of "[act_wire ty b]" nd "unpack_instruction nd mem (act_wire ty b)" s]
      tlv_ok_act_wire [OF assms]
    by (cases "unpack_instruction nd mem (act_wire ty b) (act_wire ty b) s") simp_all
  then show ?thesis
    by (simp add: unpack_instructions_def)
qed

lemma apply_actions_get_wire:
  assumes "length acts < 65528"
  shows "apply_actions_get nd (act_wire OFPIT_APPLY_ACTIONS (replicate 4 0 @ acts) @ rest) = Inr acts"
proof -
  let ?w = "act_wire OFPIT_APPLY_ACTIONS (replicate 4 0 @ acts)"
  let ?len = "word_of_nat (8 + length acts) :: u16"
  have len: "unat ?len = 8 + length acts"
    using assms unat_of_nat [where 'a = 16, of "8 + length acts"] by (simp del: of_nat_add)
  then have "8 \<le> ?len"
    by (simp add: word_le_nat_alt)
  moreover have "wire_u16 nd (?w @ rest) 2 = Inr ?len"
    using act_wire_reads(4) [of nd OFPIT_APPLY_ACTIONS "replicate 4 0 @ acts" rest] by (simp add: add.assoc)
  moreover have "drop 8 (?w @ rest) = acts @ rest"
    by (simp add: act_wire_def)
  ultimately show ?thesis
    using len act_wire_reads(1) [of nd OFPIT_APPLY_ACTIONS "replicate 4 0 @ acts" rest]
    by (simp add: apply_actions_get_def loci_assert_def del: of_nat_add of_nat_numeral)
qed

lemma pack_single:
  assumes "active is = ty"
  shows "ty = INSTRUCTION_GOTO_TABLE \<Longrightarrow>
      pack_instructions mem is [] = Inr (act_wire OFPIT_GOTO_TABLE [gt_table_id (gt_table is), 0, 0, 0])"
    and "ty = INSTRUCTION_CLEAR_ACTIONS \<Longrightarrow>
      pack_instructions mem is [] = Inr (act_wire OFPIT_CLEAR_ACTIONS (replicate 4 0))"
    and "ty = INSTRUCTION_WRITE_METADATA \<Longrightarrow>
      pack_instructions mem is [] = Inr (act_wire OFPIT_WRITE_METADATA
        (replicate 4 0 @ put64 (wm_metadata (write_meta is)) @ put64 (wm_metadata_mask (write_meta is))))"
    and "ty = INSTRUCTION_APPLY_ACTIONS \<Longrightarrow> pack_action_list mem (aa_actions (apply_act is)) [] = Inr w \<Longrightarrow>
      length w < 65528 \<Longrightarrow>
      pack_instructions mem is [] = Inr (act_wire OFPIT_APPLY_ACTIONS (replicate 4 0 @ w))"
  using assms
  by (simp_all add: pack_instructions_def pack_apply_def pack_write_def instruction_is_active_def instruction_types
      wire_append_def)

lemma wire_body_reads:
  "wire_u8 nd (act_wire ty (a # b)) 4 = Inr a"
  "wire_u64 nd (act_wire ty (replicate 4 0 @ put64 x @ put64 y)) 8 = Inr x"
  "wire_u64 nd (act_wire ty (replicate 4 0 @ put64 x @ put64 y)) 16 = Inr y"
proof -
  let ?h = "\<lambda>b :: bytes. put16 ty @ put16 (word_of_nat (4 + length b))"
  let ?b = "replicate 4 0 @ put64 x @ put64 y :: bytes"
  show "wire_u8 nd (act_wire ty (a # b)) 4 = Inr a"
    using wire_reads(1) [of "?h (a # b)" 4 nd a b] by (simp add: act_wire_def)
  show "wire_u64 nd (act_wire ty ?b) 8 = Inr x"
    using wire_reads(4) [of "?h ?b @ replicate 4 0" 8 nd x "put64 y"] by (simp add: act_wire_def)
  show "wire_u64 nd (act_wire ty ?b) 16 = Inr y"
    using wire_reads(4) [of "?h ?b @ replicate 4 0 @ put64 x" 16 nd y "[]"] by (simp add: act_wire_def)
qed

lemma type_of_wire: "wire_u16 nd (act_wire ty b) 0 = Inr ty"
  using act_wire_reads(1) [of nd ty b "[]"] by simp


text \<open>The witness takes a flow that matches everything and sends to port 1.\<close>

definition output_1 :: instruction_set where
  "output_1 = add_apply_actions instruction_set_zero (inst_apply_actions [action_output 1])"


subsection \<open>Lists of different instructions\<close>

lemma unpack_pair:
  fixes ty ty' :: u16 and b b' :: bytes
  assumes "length b < 65532" "length b' < 65532"
  defines "w \<equiv> act_wire ty b" and "w' \<equiv> act_wire ty' b'"
  shows "unpack_instructions nd mem (w @ w') is =
    rbind (unpack_instruction nd mem (w @ w') (w @ w') (instruction_set_init is))
      (unpack_instruction nd mem (w @ w') w')"
proof -
  have tlv: "tlv_ok w" "tlv_ok w'"
    using assms tlv_ok_act_wire by simp_all
  let ?body = "unpack_instruction nd mem (w @ w')"
  have "OF_LIST_ITER nd ?body (concat [w, w']) s = rbind (?body (w @ w') s) (?body w')" for s
  proof -
    have "rbind (?body w' t) Inr = ?body w' t" for t
      by (cases "?body w' t") simp_all
    then have "iter_all ?body [w'] = ?body w'"
      by (intro ext) (simp add: rbind_def split: sum.splits)
    then have "iter_all ?body [w, w'] s = rbind (?body (w @ w') s) (?body w')"
      by (simp del: iter_all.simps(2) add: iter_all.simps(2) [of ?body w])
    then show ?thesis
      using OF_LIST_ITER_concat [of "[w, w']" nd ?body s] tlv by simp
  qed
  then show ?thesis
    by (simp add: unpack_instructions_def)
qed

text \<open>C37: A flow that applies actions and then goes to another table does not survive: the code
  reads the type of every instruction at the start of the list, where the first one stands.  A
  debug build aborts in LOCI's check of the second instruction; a release build takes the
  second instruction for an empty list of actions, so the result goes to no table and applies
  no action.\<close>

theorem mixed_instructions_lost:
  fixes al :: action_list and t :: u8
  assumes "list_all carried al" "length al \<le> 4000"
  defines "is \<equiv> add_goto_table (add_apply_actions instruction_set_zero (inst_apply_actions al)) (inst_goto_table t)"
  shows "\<exists>w. pack_instructions mem is [] = Inr w \<and>
    unpack_instructions False mem' w is0 = Inl Abort \<and>
    (\<exists>is'. unpack_instructions True mem' w is0 = Inr is' \<and>
      \<not> instruction_is_active is' INSTRUCTION_GOTO_TABLE \<and> aa_actions (apply_act is') = [])"
proof -
  obtain acts where acts: "pack_action_list mem al [] = Inr acts" "length acts \<le> 64000"
      "\<And>nd. unpack_actions nd action_list_add mem' acts action_list_init = Inr al"
    using actions_round_trip [of al mem] assms(1,2) by (auto simp: list_all_iff)
  let ?a = "act_wire OFPIT_APPLY_ACTIONS (replicate 4 0 @ acts)" and ?g = "act_wire OFPIT_GOTO_TABLE [t, 0, 0, 0]"
  have packed: "pack_instructions mem is [] = Inr (?a @ ?g)"
    using acts by (simp add: is_def pack_instructions_def pack_apply_def pack_write_def wire_append_def
        instruction_is_active_def instruction_types add_goto_table_def add_apply_actions_def
        inst_goto_table_def inst_apply_actions_def instruction_set_zero_def)
  have first: "unpack_instruction nd mem' (?a @ ?g) (?a @ ?g) s = Inr (add_apply_actions s (inst_apply_actions al))" for nd s
    using acts apply_actions_get_wire [of acts nd ?g] act_wire_reads(1) [of nd OFPIT_APPLY_ACTIONS "replicate 4 0 @ acts" ?g]
    by (simp add: unpack_instruction_def ofpit_types)
  have ty: "wire_u16 nd (?a @ ?g) 0 = Inr OFPIT_APPLY_ACTIONS" for nd
    using act_wire_reads(1) [of nd OFPIT_APPLY_ACTIONS "replicate 4 0 @ acts" ?g] by simp
  have "apply_actions_get False ?g = Inl Abort"
    by (simp add: apply_actions_get_def type_of_wire loci_assert_def ofpit_types)
  moreover have "apply_actions_get True ?g = Inr []"
    using act_wire_reads(4) [of True OFPIT_GOTO_TABLE "[t, 0, 0, 0]" "[]"]
    by (simp add: apply_actions_get_def type_of_wire loci_assert_def)
  moreover have "unpack_instructions nd mem' (?a @ ?g) is0 =
      rbind (unpack_instruction nd mem' (?a @ ?g) (?a @ ?g) (instruction_set_init is0))
        (unpack_instruction nd mem' (?a @ ?g) ?g)" for nd
    using acts(2) by (intro unpack_pair) simp_all
  moreover have "unpack_actions True action_list_add mem' [] action_list_init = Inr []"
    by (simp add: unpack_actions_def OF_LIST_ITER_def action_list_init_def)
  moreover have "unpack_instruction nd mem' (?a @ ?g) ?g s =
      rbind (apply_actions_get nd ?g) (\<lambda>wa. rbind (unpack_actions nd action_list_add mem' wa action_list_init)
        (\<lambda>al. Inr (add_apply_actions s (inst_apply_actions al))))" for nd s
    using ty [of nd] by (simp add: unpack_instruction_def ofpit_types)
  ultimately have
      "unpack_instructions False mem' (?a @ ?g) is0 = Inl Abort"
      "unpack_instructions True mem' (?a @ ?g) is0 =
        Inr (add_apply_actions (add_apply_actions (instruction_set_init is0) (inst_apply_actions al)) (inst_apply_actions []))"
    using first by simp_all
  then show ?thesis
    using packed by (simp add: add_apply_actions_def inst_apply_actions_def instruction_is_active_def
        instruction_types instruction_set_init_def)
qed

text \<open>The witness is a flow that sends to port 1 and goes to table 1.\<close>

theorem mixed_instructions_lost_witness:
  "\<exists>w. pack_instructions [] (add_goto_table (add_apply_actions instruction_set_zero
       (inst_apply_actions [action_output 1])) (inst_goto_table 1)) [] = Inr w \<and>
     unpack_instructions False (action_output 9) w instruction_set_zero = Inl Abort"
proof -
  have "list_all carried [action_output 1]"
    by (simp add: carried_def action_output_def)
  then show ?thesis
    using mixed_instructions_lost [of "[action_output 1]" "[]" 1 "action_output 9" instruction_set_zero] by auto
qed

text \<open>A list of several different instructions fails; so does, in a debug build, every list of
  write-actions, whose actions are read with the getter of apply-actions, and a set-field action
  whose field number doubled is another field's.\<close>

lemma write_actions_abort:
  "unpack_instructions False mem (act_wire OFPIT_WRITE_ACTIONS (replicate 4 0)) is = Inl Abort"
  by (simp add: unpack_single unpack_instruction_def type_of_wire apply_actions_get_def loci_assert_def ofpit_types)

lemma set_field_action_abort:
  "unpack_actions False action_list_add (action_output 0)
     (act_wire OFPAT_SET_FIELD (oxm_wire OFPXMT_OFB_VLAN_VID [0x10, 5])) [] = Inl Abort"
  by code_simp

lemma set_field_action_dropped:
  "unpack_actions True action_list_add (action_output 0)
     (act_wire OFPAT_SET_FIELD (oxm_wire OFPXMT_OFB_IPV4_DST [10, 0, 0, 1, 0, 0])) [] = Inr []"
  by code_simp

lemma aggregate_reply_counts_bytes:
  "asr_packet_count (pack_aggregate_stats_reply [f] xid) = f_byte_cnt f"
  "asr_byte_count (pack_aggregate_stats_reply [f] xid) = 0"
  by (simp_all add: pack_aggregate_stats_reply_def)

end
