(* ===== verification/Datapath.thy ===== *)
theory Datapath
  imports Node Of_Pack
begin

section \<open>Datapaths\<close>

text \<open>
  \<open>datapath.c\<close> and \<open>dp_control.c\<close>: an OpenFlow switch is a node with an array of flow tables.  A
  flow that arrives goes through the pipeline of tables; the messages of the controller change the
  tables, ask for statistics or send a packet out.  Handlers return the new switch and the reply.
  The connection settings of a switch belong to the OpenFlow library and are left out.

  The pipeline is shown to terminate and to refine an abstract switch that has a set of entries per
  table and takes any matching entry of the highest priority.
\<close>

subsection \<open>Definitions\<close>

definition MAX_TABLES :: nat where "MAX_TABLES = 128"
definition OFP_NO_BUFFER :: u32 where "OFP_NO_BUFFER = 0xffffffff"
definition OFPP_ANY :: u32 where "OFPP_ANY = 0xffffffff"
definition OFPTT_ALL :: u8 where "OFPTT_ALL = 0xff"

record datapath =
  dp_base :: node
  dp_id :: u64
  dp_tables :: "flow_table list"

definition dp_new :: "u64 \<Rightarrow> u64 \<Rightarrow> datapath \<times> u64" where
  "dp_new current_uuid did =
     (let (base, current_uuid) = node_init current_uuid DATAPATH in
      (\<lparr>dp_base = base, dp_id = did,
        dp_tables = map (\<lambda>i. flow_table_new (word_of_nat i)) [0..<MAX_TABLES]\<rparr>, current_uuid))"

text \<open>The flows that are destroyed, and the node without its ports.\<close>

definition dp_destroy :: "datapath \<Rightarrow> flow list \<times> node" where
  "dp_destroy dp = (concat (map flow_table_destroy (dp_tables dp)), node_destroy_ports (dp_base dp))"

definition dp_add_port :: "datapath \<Rightarrow> u32 \<Rightarrow> bytes \<Rightarrow> u32 \<Rightarrow> u32 \<Rightarrow> datapath res" where
  "dp_add_port dp pid eth_addr speed curr_speed =
     rbind (node_add_port (dp_base dp) pid eth_addr speed curr_speed) (\<lambda>n. Inr (dp\<lparr>dp_base := n\<rparr>))"

definition dp_port :: "datapath \<Rightarrow> u32 \<Rightarrow> port option" where
  "dp_port dp pid = node_port (dp_base dp) pid"

definition dp_ports :: "datapath \<Rightarrow> port list" where
  "dp_ports dp = ports (dp_base dp)"

definition dp_flow_table :: "datapath \<Rightarrow> u8 \<Rightarrow> flow_table res" where
  "dp_flow_table dp table_id = arr_get (dp_tables dp) (unat table_id)"

definition dp_set_name :: "datapath \<Rightarrow> string option \<Rightarrow> datapath \<times> bool" where
  "dp_set_name dp name = (let (n, ok) = node_set_name (dp_base dp) name in (dp\<lparr>dp_base := n\<rparr>, ok))"

definition dp_name :: "datapath \<Rightarrow> string" where
  "dp_name dp = node_name (dp_base dp)"

definition dp_uuid :: "datapath \<Rightarrow> u64" where
  "dp_uuid dp = uuid (dp_base dp)"

text \<open>A write to the table that a pointer of the array refers to.\<close>

definition set_table :: "datapath \<Rightarrow> u8 \<Rightarrow> flow_table \<Rightarrow> datapath" where
  "set_table dp table_id ft = dp\<lparr>dp_tables := (dp_tables dp)[unat table_id := ft]\<rparr>"

subsection \<open>The pipeline\<close>

fun execute_action_list :: "action_list \<Rightarrow> netflow \<Rightarrow> netflow res" where
  "execute_action_list [] nf = Inr nf"
| "execute_action_list (act # al) nf = rbind (execute_action act nf) (execute_action_list al)"

fun execute_action_set_loop :: "action_set \<Rightarrow> action_set_order list \<Rightarrow> netflow \<Rightarrow> netflow res" where
  "execute_action_set_loop as [] nf = Inr nf"
| "execute_action_set_loop as (type # types) nf =
     (case action_set_action as type of
        None \<Rightarrow> execute_action_set_loop as types nf
      | Some act \<Rightarrow> rbind (execute_action act nf) (execute_action_set_loop as types))"

definition execute_action_set :: "action_set \<Rightarrow> netflow \<Rightarrow> netflow res" where
  "execute_action_set as nf = execute_action_set_loop as action_types nf"

definition execute_instructions ::
  "instruction_set \<Rightarrow> u8 \<Rightarrow> netflow \<Rightarrow> action_set \<Rightarrow> (u8 \<times> netflow \<times> action_set) res" where
  "execute_instructions is table_id nf as =
     rbind (if instruction_is_active is INSTRUCTION_APPLY_ACTIONS
            then execute_action_list (aa_actions (apply_act is)) nf else Inr nf) (\<lambda>nf.
       let as = (if instruction_is_active is INSTRUCTION_CLEAR_ACTIONS then action_set_clean as else as);
           as = (if instruction_is_active is INSTRUCTION_WRITE_ACTIONS
                 then action_set_merge as (wa_actions (write_act is)) else as);
           nf = (if instruction_is_active is INSTRUCTION_WRITE_METADATA
                 then upd_match (\<lambda>m. m\<lparr>metadata := wm_metadata (write_meta is)\<rparr>) nf else nf);
           table_id = (if instruction_is_active is INSTRUCTION_GOTO_TABLE
                       then gt_table_id (gt_table is) else table_id)
       in Inr (table_id, nf, as))"

definition count_flow :: "netflow \<Rightarrow> flow \<Rightarrow> flow" where
  "count_flow nf f = f\<lparr>f_pkt_cnt := f_pkt_cnt f + pkt_cnt nf, f_byte_cnt := f_byte_cnt f + byte_cnt nf\<rparr>"

lemma table_id_measure: "a < b \<Longrightarrow> 255 - unat b < 255 - unat a" for a b :: u8
  using unsigned_less [of b, where 'a = nat] by (simp add: word_less_nat_alt)

text \<open>The loop over the tables, from a table on.  The Boolean tells whether the flow is returned to
  the caller, or \<open>NULL\<close>.\<close>

function pipeline :: "datapath \<Rightarrow> u8 \<Rightarrow> netflow \<Rightarrow> action_set \<Rightarrow> (datapath \<times> netflow \<times> bool) res" where
  "pipeline dp table_id nf acts =
     rbind (arr_get (dp_tables dp) (unat table_id)) (\<lambda>table.
       case flow_table_lookup table (nf_match nf) (start_time nf) of
         (None, table) \<Rightarrow> Inr (set_table dp table_id table, nf, False)
       | (Some f, table) \<Rightarrow>
           let dp = set_table dp table_id (ft_update_flow table f (count_flow nf));
               nf = nf\<lparr>nf_meta := (nf_meta nf)\<lparr>meta_cookie := f_cookie f\<rparr>\<rparr>
           in rbind (execute_instructions (f_insts f) 0 nf acts) (\<lambda>(next_table_id, nf, acts).
                if next_table_id > table_id
                then pipeline dp next_table_id (nf\<lparr>nf_meta := (nf_meta nf)\<lparr>meta_table_id := next_table_id\<rparr>\<rparr>) acts
                else rbind (execute_action_set acts nf) (\<lambda>nf. Inr (dp, nf, out_ports nf \<noteq> []))))"
  by pat_completeness auto
termination
  by (relation "measure (\<lambda>(dp, table_id, nf, acts). 255 - unat table_id)")
    (simp_all add: table_id_measure)

declare pipeline.simps [simp del]

definition dp_recv_netflow :: "datapath \<Rightarrow> netflow \<Rightarrow> (datapath \<times> netflow \<times> bool) res" where
  "dp_recv_netflow dp nf =
     (let nf = nf\<lparr>nf_meta := (nf_meta nf)\<lparr>meta_buffer_id := OFP_NO_BUFFER\<rparr>\<rparr>;
          in_p = in_port (nf_match nf)
      in case dp_port dp in_p of
           None \<Rightarrow> Inr (dp, nf, False)
         | Some p \<Rightarrow>
             let acts = action_set_init;
                 dp = dp\<lparr>dp_base := upd_port (dp_base dp) in_p (\<lambda>p. p\<lparr>p_stats := (p_stats p)
                   \<lparr>rx_bytes := rx_bytes (p_stats p) + byte_cnt nf,
                    rx_packets := rx_packets (p_stats p) + pkt_cnt nf\<rparr>\<rparr>)\<rparr>;
                 nf = upd_match (\<lambda>m. m\<lparr>metadata := 0\<rparr>) nf;
                 nf = nf\<lparr>nf_meta := (nf_meta nf)\<lparr>meta_table_id := 0\<rparr>\<rparr>
             in pipeline dp 0 nf acts)"

definition dp_send_netflow :: "datapath \<Rightarrow> netflow \<Rightarrow> u32 \<Rightarrow> datapath" where
  "dp_send_netflow dp nf out_port = dp\<lparr>dp_base := node_update_port_stats (dp_base dp) nf out_port\<rparr>"

definition dp_create_flood :: "datapath \<Rightarrow> netflow \<Rightarrow> netflow" where
  "dp_create_flood dp nf =
     fold (\<lambda>p nf. if port_id p \<noteq> in_port (nf_match nf) then netflow_add_out_port nf (port_id p) else nf)
       (dp_ports dp) nf"

subsection \<open>Control messages\<close>

text \<open>The argument \<open>mem\<close> holds what is in the memory of the new flow and of the unpacked action.\<close>

definition dp_handle_flow_mod ::
  "bool \<Rightarrow> flow \<times> action \<Rightarrow> datapath \<Rightarrow> of_object \<Rightarrow> u64 \<Rightarrow> datapath res" where
  "dp_handle_flow_mod ndebug mem dp obj time =
     rbind (flow_modify_of obj) (\<lambda>fm.
     rbind (unpack_flow_mod ndebug (snd mem) fm (flow_new (fst mem))) (\<lambda>(f, _).
     rbind (arr_get (dp_tables dp) (unat (f_table_id f))) (\<lambda>ft.
       case object_id obj of
         OF_FLOW_ADD \<Rightarrow> Inr (set_table dp (f_table_id f) (add_flow ft f time))
       | OF_FLOW_MODIFY \<Rightarrow> Inr (set_table dp (f_table_id f) (modify_flow ft f False time))
       | OF_FLOW_MODIFY_STRICT \<Rightarrow> Inr (set_table dp (f_table_id f) (modify_flow ft f True time))
       | OF_FLOW_DELETE \<Rightarrow> Inr (set_table dp (f_table_id f) (delete_flow ft f time False))
       | OF_FLOW_DELETE_STRICT \<Rightarrow> Inr (set_table dp (f_table_id f) (delete_flow ft f time True))
       | _ \<Rightarrow> Inr dp)))"

text \<open>The entries of the replies of the OpenFlow 1.3 library.\<close>

record of_port_stats_entry =
  pse_port_no :: u32
  pse_duration_sec :: u32
  pse_duration_nsec :: u32
  pse_rx_packets :: u64
  pse_tx_packets :: u64
  pse_rx_bytes :: u64
  pse_tx_bytes :: u64
  pse_rx_dropped :: u64
  pse_tx_dropped :: u64
  pse_rx_errors :: u64
  pse_tx_errors :: u64
  pse_rx_frame_err :: u64
  pse_rx_over_err :: u64
  pse_rx_crc_err :: u64
  pse_collisions :: u64

record of_port_desc =
  pd_port_no :: u32
  pd_hw_addr :: bytes
  pd_name :: string
  pd_config :: u32
  pd_state :: u32
  pd_curr :: u32
  pd_advertised :: u32
  pd_supported :: u32
  pd_peer :: u32
  pd_curr_speed :: u32
  pd_max_speed :: u32

datatype of_reply =
    Port_Stats_Reply u32 "of_port_stats_entry list"
  | Port_Desc_Reply u32 "of_port_desc list"
  | Flow_Stats_Reply of_flow_stats_reply
  | Aggregate_Stats_Reply of_aggregate_stats_reply

definition PORT_STATS_ENTRY_LEN :: nat where "PORT_STATS_ENTRY_LEN = 112"
definition PORT_DESC_LEN :: nat where "PORT_DESC_LEN = 64"
definition OF_MAX_PORT_NAME_LEN :: nat where "OF_MAX_PORT_NAME_LEN = 16"
definition OF_WIRE_BUFFER_MAX_LENGTH :: nat where "OF_WIRE_BUFFER_MAX_LENGTH = 65535"

text \<open>Appending to a list of objects of one length fails when the list would outgrow its buffer.
  A reply of the list has a header of 16 bytes before it.\<close>

definition entries_append :: "nat \<Rightarrow> 'e list \<Rightarrow> 'e \<Rightarrow> 'e list option" where
  "entries_append len es e =
     (if (length es + 1) * len \<le> OF_WIRE_BUFFER_MAX_LENGTH then Some (es @ [e]) else None)"

definition entries_set :: "bool \<Rightarrow> nat \<Rightarrow> 'e list \<Rightarrow> unit res" where
  "entries_set ndebug len es =
     (if 16 + length es * len \<le> OF_WIRE_BUFFER_MAX_LENGTH then Inr () else Inl (access_error ndebug))"

definition port_stats_entry :: "port \<Rightarrow> of_port_stats_entry" where
  "port_stats_entry p =
     \<lparr>pse_port_no = port_id p, pse_duration_sec = 0, pse_duration_nsec = 0,
      pse_rx_packets = rx_packets (p_stats p), pse_tx_packets = tx_packets (p_stats p),
      pse_rx_bytes = rx_bytes (p_stats p), pse_tx_bytes = tx_bytes (p_stats p),
      pse_rx_dropped = 0, pse_tx_dropped = 0, pse_rx_errors = 0, pse_tx_errors = 0,
      pse_rx_frame_err = 0, pse_rx_over_err = 0, pse_rx_crc_err = 0, pse_collisions = 0\<rparr>"

text \<open>A failing append is not noticed.\<close>

definition port_stats_loop :: "port list \<Rightarrow> of_port_stats_entry list \<Rightarrow> of_port_stats_entry list" where
  "port_stats_loop ps es =
     fold (\<lambda>p es. case entries_append PORT_STATS_ENTRY_LEN es (port_stats_entry p) of
                    None \<Rightarrow> es | Some es' \<Rightarrow> es') ps es"

definition dp_handle_port_stats_req :: "bool \<Rightarrow> datapath \<Rightarrow> of_object \<Rightarrow> of_reply res" where
  "dp_handle_port_stats_req ndebug dp obj =
     rbind (port_stats_request_of obj) (\<lambda>pid.
     rbind (if pid = OFPP_ANY then Inr (port_stats_loop (dp_ports dp) [])
            else rbind (deref (dp_port dp pid)) (\<lambda>p. Inr (port_stats_loop [p] []))) (\<lambda>port_list.
     rbind (entries_set ndebug PORT_STATS_ENTRY_LEN port_list) (\<lambda>_.
       Inr (Port_Stats_Reply (of_xid obj) port_list))))"

fun stats_tables ::
  "ofl_flow_stats_req \<Rightarrow> u64 \<Rightarrow> flow_table list \<Rightarrow> flow list \<times> nat \<Rightarrow> (flow_table list \<times> flow list \<times> nat) res" where
  "stats_tables req time [] arr = Inr ([], arr)"
| "stats_tables req time (ft # fts) arr =
     rbind (flow_table_stats ft req arr time) (\<lambda>(ft, arr).
     rbind (stats_tables req time fts arr) (\<lambda>(fts, arr). Inr (ft # fts, arr)))"

definition dp_get_stats_flows ::
  "datapath \<Rightarrow> ofl_flow_stats_req \<Rightarrow> flow list \<times> nat \<Rightarrow> u64 \<Rightarrow> (datapath \<times> flow list \<times> nat) res" where
  "dp_get_stats_flows dp req arr time =
     (if req_table_id req = OFPTT_ALL then
        rbind (stats_tables req time (dp_tables dp) arr) (\<lambda>(fts, arr). Inr (dp\<lparr>dp_tables := fts\<rparr>, arr))
      else
        rbind (arr_get (dp_tables dp) (unat (req_table_id req))) (\<lambda>ft.
        rbind (flow_table_stats ft req arr time) (\<lambda>(ft, arr).
          Inr (set_table dp (req_table_id req) ft, arr))))"

text \<open>A request after \<open>memset\<close>.\<close>

definition zero_req :: ofl_flow_stats_req where
  "zero_req = \<lparr>req_table_id = 0, req_out_port = 0, req_out_group = 0, req_cookie = 0,
     req_cookie_mask = 0, req_match = zero_key, req_mask = zero_key\<rparr>"

text \<open>The request is unpacked into a structure that is zeroed before it is used.\<close>

definition dp_handle_flow_stats_req ::
  "ofl_flow_stats_req \<times> bytes \<Rightarrow> datapath \<Rightarrow> of_object \<Rightarrow> u64 \<Rightarrow> (datapath \<times> of_reply option) res" where
  "dp_handle_flow_stats_req mem dp obj time =
     rbind (stats_request_of obj) (\<lambda>sr.
       let (req, _) = unpack_flow_stats_request sr (fst mem);
           req = zero_req
       in rbind (dp_get_stats_flows dp req ([], 1) time) (\<lambda>(dp, fs, _).
            if length fs > 0
            then rbind (pack_flow_stats_reply (snd mem) fs (of_xid obj)) (\<lambda>reply. Inr (dp, Some (Flow_Stats_Reply reply)))
            else Inr (dp, None)))"

definition dp_handle_aggregate_stats_req ::
  "ofl_flow_stats_req \<Rightarrow> datapath \<Rightarrow> of_object \<Rightarrow> u64 \<Rightarrow> (datapath \<times> of_reply option) res" where
  "dp_handle_aggregate_stats_req mem dp obj time =
     rbind (stats_request_of obj) (\<lambda>sr.
       let (req, _) = unpack_aggregate_stats_request sr mem;
           req = zero_req
       in rbind (dp_get_stats_flows dp req ([], 1) time) (\<lambda>(dp, fs, _).
            if length fs > 0
            then Inr (dp, Some (Aggregate_Stats_Reply (pack_aggregate_stats_reply fs (of_xid obj))))
            else Inr (dp, None)))"

definition port_desc :: "port \<Rightarrow> of_port_desc" where
  "port_desc p =
     \<lparr>pd_port_no = port_id p, pd_hw_addr = take ETH_LEN (p_eth_address p),
      pd_name = take OF_MAX_PORT_NAME_LEN (p_name p), pd_config = ucast (p_config p),
      pd_state = ucast (p_state p), pd_curr = p_curr p, pd_advertised = p_advertised p,
      pd_supported = p_supported p, pd_peer = p_peer p, pd_curr_speed = p_curr_speed p,
      pd_max_speed = p_max_speed p\<rparr>"

fun port_desc_loop :: "port list \<Rightarrow> of_port_desc list \<Rightarrow> of_port_desc list option" where
  "port_desc_loop [] es = Some es"
| "port_desc_loop (p # ps) es =
     (case entries_append PORT_DESC_LEN es (port_desc p) of
        None \<Rightarrow> None
      | Some es \<Rightarrow> port_desc_loop ps es)"

text \<open>The class of the request is checked when its transaction identifier is read, in a debug
  build.\<close>

definition dp_handle_port_desc :: "bool \<Rightarrow> datapath \<Rightarrow> of_object \<Rightarrow> of_reply option res" where
  "dp_handle_port_desc ndebug dp obj =
     rbind (loci_assert ndebug (object_id obj = OF_PORT_DESC_STATS_REQUEST)) (\<lambda>_.
       case port_desc_loop (dp_ports dp) [] of
         None \<Rightarrow> Inr None
       | Some of_list_port_desc \<Rightarrow>
           rbind (entries_set ndebug PORT_DESC_LEN of_list_port_desc) (\<lambda>_.
             Inr (Some (Port_Desc_Reply (of_xid obj) of_list_port_desc))))"

definition dp_handle_pkt_out ::
  "bool \<Rightarrow> action \<Rightarrow> datapath \<Rightarrow> of_object \<Rightarrow> netflow \<Rightarrow> u64 \<Rightarrow> netflow res" where
  "dp_handle_pkt_out ndebug mem dp obj nf time =
     (let nf = nf\<lparr>start_time := time\<rparr>; al = action_list_init in
      rbind (packet_out_of obj) (\<lambda>po.
      rbind (unpack_packet_out ndebug mem po nf al) (\<lambda>(nf, al).
      rbind (execute_action_list al nf) (\<lambda>nf.
        let _ = action_list_clean al in Inr nf))))"

text \<open>What the memory of the locals holds.\<close>

record stack_mem =
  mem_flow :: flow
  mem_action :: action
  mem_req :: ofl_flow_stats_req
  mem_bytes :: bytes

text \<open>The parser of messages is the library's; it returns the object or \<open>NULL\<close>.\<close>

definition dp_control_handle_control_msg ::
  "(bytes \<Rightarrow> of_object option) \<Rightarrow> bool \<Rightarrow> stack_mem \<Rightarrow> datapath \<Rightarrow> bytes \<Rightarrow> netflow \<Rightarrow> u64 \<Rightarrow>
     (datapath \<times> netflow \<times> of_reply option) res" where
  "dp_control_handle_control_msg of_object_new_from_message ndebug mem dp msg nf time =
     (if INT_MAX < int (length msg) then Inr (dp, nf, None)
      else
        case of_object_new_from_message msg of
          None \<Rightarrow> Inr (dp, nf, None)
        | Some obj \<Rightarrow>
            if object_id obj = OF_PACKET_OUT then
              rbind (dp_handle_pkt_out ndebug (mem_action mem) dp obj nf time) (\<lambda>nf. Inr (dp, nf, None))
            else if object_id obj \<in> {OF_FLOW_ADD, OF_FLOW_MODIFY, OF_FLOW_MODIFY_STRICT, OF_FLOW_DELETE, OF_FLOW_DELETE_STRICT} then
              rbind (dp_handle_flow_mod ndebug (mem_flow mem, mem_action mem) dp obj time) (\<lambda>dp. Inr (dp, nf, None))
            else if object_id obj = OF_PORT_STATS_REQUEST then
              rbind (dp_handle_port_stats_req ndebug dp obj) (\<lambda>reply. Inr (dp, nf, Some reply))
            else if object_id obj = OF_FLOW_STATS_REQUEST then
              rbind (dp_handle_flow_stats_req (mem_req mem, mem_bytes mem) dp obj time) (\<lambda>(dp, ret). Inr (dp, nf, ret))
            else if object_id obj = OF_AGGREGATE_STATS_REQUEST then
              rbind (dp_handle_aggregate_stats_req (mem_req mem) dp obj time) (\<lambda>(dp, ret). Inr (dp, nf, ret))
            else if object_id obj \<in> {OF_FEATURES_REQUEST, OF_PORT_MOD, OF_DESC_STATS_REQUEST, OF_PORT_DESC_STATS_REQUEST} then
              rbind (dp_handle_port_desc ndebug dp obj) (\<lambda>ret. Inr (dp, nf, ret))
            else Inr (dp, nf, None))"

subsection \<open>Executing actions and instructions\<close>

lemma step_ok_bind:
  assumes "step_ok nf ps r" "\<And>nf'. nf_ok nf' \<Longrightarrow> step_ok nf' qs (g nf')"
  shows "step_ok nf (ps @ qs) (rbind r g)"
  using assms by (auto simp: step_ok_def split: sum.splits) fastforce+

lemma execute_action_list_step:
  assumes "nf_ok nf" "list_all act_ok al"
  shows "step_ok nf (concat (map act_ports al)) (execute_action_list al nf)"
  using assms
proof (induction al arbitrary: nf)
  case (Cons a al)
  then show ?case
    using step_ok_bind [OF execute_action_step, of nf a] by simp
qed (simp add: step_ok_same)

definition set_ports :: "action_set \<Rightarrow> action_set_order list \<Rightarrow> u32 list" where
  "set_ports as types =
     concat (map (\<lambda>type. case action_set_action as type of None \<Rightarrow> [] | Some act \<Rightarrow> act_ports act) types)"

lemma action_set_action_mem: "action_set_action as type = Some act \<Longrightarrow> act \<in> set as"
  by (auto simp: action_set_action_def HASH_FIND_def find_Some_iff) (metis nth_mem set_rev length_rev)

lemma execute_action_set_step:
  assumes "nf_ok nf" "\<forall>act \<in> set as. act_ok act"
  shows "step_ok nf (set_ports as types) (execute_action_set_loop as types nf)"
  using assms
proof (induction types arbitrary: nf)
  case (Cons type types)
  show ?case
  proof (cases "action_set_action as type")
    case (Some act)
    then have "act_ok act"
      using Cons.prems(2) action_set_action_mem by blast
    then show ?thesis
      using step_ok_bind [OF execute_action_step, of nf act] Cons Some by (simp add: set_ports_def)
  qed (use Cons in \<open>simp add: set_ports_def\<close>)
qed (simp add: step_ok_same set_ports_def)

text \<open>Actions that execute and send out only to the ports of a set.\<close>

definition acts_ok :: "u32 set \<Rightarrow> action list \<Rightarrow> bool" where
  "acts_ok P acts \<longleftrightarrow> (\<forall>act \<in> set acts. act_ok act \<and> set (act_ports act) \<subseteq> P)"

definition insts_ok :: "u32 set \<Rightarrow> instruction_set \<Rightarrow> bool" where
  "insts_ok P is \<longleftrightarrow>
     (instruction_is_active is INSTRUCTION_APPLY_ACTIONS \<longrightarrow> acts_ok P (aa_actions (apply_act is))) \<and>
     (instruction_is_active is INSTRUCTION_WRITE_ACTIONS \<longrightarrow> acts_ok P (wa_actions (write_act is))) \<and>
     (instruction_is_active is INSTRUCTION_GOTO_TABLE \<longrightarrow> unat (gt_table_id (gt_table is)) < MAX_TABLES)"

lemma set_action_set_add: "set (action_set_add as act) \<subseteq> insert act (set as)"
  using set_HASH_DEL_subset [of act_type as "act_type act"]
  by (auto simp: action_set_add_def HASH_REPLACE_def HASH_ADD_def Let_def split: option.splits)

lemma acts_ok_merge: "acts_ok P as \<Longrightarrow> acts_ok P bs \<Longrightarrow> acts_ok P (action_set_merge as bs)"
proof -
  have "set (fold (\<lambda>act as. action_set_add as act) bs as) \<subseteq> set as \<union> set bs" for as
    using set_action_set_add by (induction bs arbitrary: as) (simp, fastforce)
  then show "acts_ok P as \<Longrightarrow> acts_ok P bs \<Longrightarrow> acts_ok P (action_set_merge as bs)"
    by (force simp: acts_ok_def action_set_merge_def)
qed

lemma acts_ok_clean: "acts_ok P (action_set_clean as)"
  by (induction as) (simp_all add: acts_ok_def)

lemma list_step:
  assumes "nf_ok nf" "acts_ok P al"
  shows "\<exists>nf'. execute_action_list al nf = Inr nf' \<and> nf_ok nf' \<and> nf_frame nf' = nf_frame nf \<and>
    set (out_ports nf') \<subseteq> set (out_ports nf) \<union> P"
  using execute_action_list_step [OF assms(1), of al] assms(2)
  by (fastforce simp: step_ok_def acts_ok_def list_all_iff split: sum.splits)

lemma set_step:
  assumes "nf_ok nf" "acts_ok P as"
  shows "\<exists>nf'. execute_action_set as nf = Inr nf' \<and> nf_ok nf' \<and> nf_frame nf' = nf_frame nf \<and>
    set (out_ports nf') \<subseteq> set (out_ports nf) \<union> P"
proof -
  have "set (set_ports as action_types) \<subseteq> P"
    using assms(2) action_set_action_mem [of as] unfolding set_ports_def acts_ok_def
    by (auto split: option.splits)
  then show ?thesis
    using execute_action_set_step [OF assms(1), of as action_types] assms(2)
    by (fastforce simp: step_ok_def acts_ok_def execute_action_set_def split: sum.splits)
qed

lemma execute_instructions_step:
  assumes "nf_ok nf" "acts_ok P as" "insts_ok P is"
  shows "\<exists>t nf' as'. execute_instructions is 0 nf as = Inr (t, nf', as') \<and> unat t < MAX_TABLES \<and>
    nf_ok nf' \<and> nf_frame nf' = nf_frame nf \<and> acts_ok P as' \<and> set (out_ports nf') \<subseteq> set (out_ports nf) \<union> P"
proof -
  obtain nf1 where nf1: "(if instruction_is_active is INSTRUCTION_APPLY_ACTIONS
        then execute_action_list (aa_actions (apply_act is)) nf else Inr nf) = Inr nf1"
      "nf_ok nf1" "nf_frame nf1 = nf_frame nf" "set (out_ports nf1) \<subseteq> set (out_ports nf) \<union> P"
    using list_step [OF assms(1), of P "aa_actions (apply_act is)"] assms(1,3)
    by (cases "instruction_is_active is INSTRUCTION_APPLY_ACTIONS") (auto simp: insts_ok_def)
  then show ?thesis
    using assms(2,3) acts_ok_merge acts_ok_clean
    by (auto simp: execute_instructions_def Let_def insts_ok_def nf_ok_def tags_ok_def wf_key_def upd_match_def
        nf_frame_def MAX_TABLES_def)
qed

subsection \<open>The abstract switch\<close>

text \<open>An abstract switch has a set of entries for each table identifier.  A flow hits an unexpired
  matching entry of the highest priority; there may be several.  The actions that wait for the end
  of the pipeline are a map with at most one action of each type.\<close>

type_synonym switch_tables = "u8 \<Rightarrow> flow set"

definition hit :: "netflow \<Rightarrow> flow set \<Rightarrow> flow \<Rightarrow> bool" where
  "hit nf F f \<longleftrightarrow> f \<in> F \<and> flow_matches f (nf_match nf) \<and> \<not> flow_expired f (start_time nf) \<and>
     (\<forall>g \<in> F. flow_matches g (nf_match nf) \<and> \<not> flow_expired g (start_time nf) \<longrightarrow>
        f_priority g \<le> f_priority f)"

definition after_miss :: "netflow \<Rightarrow> flow set \<Rightarrow> flow set" where
  "after_miss nf F = {g \<in> F. \<not> (flow_matches g (nf_match nf) \<and> flow_expired g (start_time nf))}"

definition after_hit :: "netflow \<Rightarrow> flow set \<Rightarrow> flow \<Rightarrow> flow set" where
  "after_hit nf F f =
     (\<lambda>g. if f_mask g = f_mask f \<and> f_key g = f_key f
          then g\<lparr>f_last_used := start_time nf, f_pkt_cnt := f_pkt_cnt g + pkt_cnt nf,
                 f_byte_cnt := f_byte_cnt g + byte_cnt nf\<rparr>
          else g) ` after_miss nf F"

definition with_cookie :: "flow \<Rightarrow> netflow \<Rightarrow> netflow" where
  "with_cookie f nf = nf\<lparr>nf_meta := (nf_meta nf)\<lparr>meta_cookie := f_cookie f\<rparr>\<rparr>"

definition with_table :: "u8 \<Rightarrow> netflow \<Rightarrow> netflow" where
  "with_table t nf = nf\<lparr>nf_meta := (nf_meta nf)\<lparr>meta_table_id := t\<rparr>\<rparr>"

type_synonym pending = "action_set_order \<rightharpoonup> action"

definition run_actions :: "action list \<Rightarrow> netflow \<Rightarrow> netflow res" where
  "run_actions acts nf = rfold (\<lambda>nf act. execute_action act nf) nf acts"

definition run_pending :: "pending \<Rightarrow> netflow \<Rightarrow> netflow res" where
  "run_pending A nf = run_actions (List.map_filter A action_types) nf"

text \<open>The later of two actions of a type counts.\<close>

definition latest :: "action list \<Rightarrow> pending" where
  "latest acts = map_of (rev (map (\<lambda>act. (act_type act, act)) acts))"

text \<open>What the instructions of an entry do, each at most once: actions are applied at once; the
  waiting actions are cleared before others are written over them; metadata is set; and the flow may
  be sent to another table.\<close>

definition of_instructions ::
  "instruction_set \<Rightarrow> netflow \<Rightarrow> pending \<Rightarrow> u8 option \<Rightarrow> netflow \<Rightarrow> pending \<Rightarrow> bool" where
  "of_instructions is nf A next_table nf' A' \<longleftrightarrow>
     (\<exists>nf1. run_actions (if instruction_is_active is INSTRUCTION_APPLY_ACTIONS then aa_actions (apply_act is) else []) nf = Inr nf1 \<and>
        nf' = (if instruction_is_active is INSTRUCTION_WRITE_METADATA
               then nf1\<lparr>nf_match := (nf_match nf1)\<lparr>metadata := wm_metadata (write_meta is)\<rparr>\<rparr> else nf1)) \<and>
     A' = (if instruction_is_active is INSTRUCTION_CLEAR_ACTIONS then Map.empty else A) ++
          (if instruction_is_active is INSTRUCTION_WRITE_ACTIONS then latest (wa_actions (write_act is)) else Map.empty) \<and>
     next_table = (if instruction_is_active is INSTRUCTION_GOTO_TABLE then Some (gt_table_id (gt_table is)) else None)"

text \<open>\<open>of_pipeline T t nf A ts T' nf' fwd\<close>: a flow that enters table \<open>t\<close> with waiting actions visits the
  tables \<open>ts\<close>, leaves the tables as \<open>T'\<close>, becomes \<open>nf'\<close> and is forwarded or dropped.\<close>

inductive of_pipeline ::
  "switch_tables \<Rightarrow> u8 \<Rightarrow> netflow \<Rightarrow> pending \<Rightarrow> u8 list \<Rightarrow> switch_tables \<Rightarrow> netflow \<Rightarrow> bool \<Rightarrow> bool" where
  miss: "\<forall>f. \<not> hit nf (T t) f \<Longrightarrow> of_pipeline T t nf A [t] (T(t := after_miss nf (T t))) nf False"
| last: "hit nf (T t) f \<Longrightarrow> of_instructions (f_insts f) (with_cookie f nf) A next_table nf' A' \<Longrightarrow>
    \<forall>t'. next_table = Some t' \<longrightarrow> t' \<le> t \<Longrightarrow> run_pending A' nf' = Inr nf'' \<Longrightarrow>
    of_pipeline T t nf A [t] (T(t := after_hit nf (T t) f)) nf'' (out_ports nf'' \<noteq> [])"
| goto: "hit nf (T t) f \<Longrightarrow> of_instructions (f_insts f) (with_cookie f nf) A (Some t') nf' A' \<Longrightarrow>
    t < t' \<Longrightarrow> of_pipeline (T(t := after_hit nf (T t) f)) t' (with_table t' nf') A' ts T' nf'' fwd \<Longrightarrow>
    of_pipeline T t nf A (t # ts) T' nf'' fwd"

lemma run_actions_simps [simp]:
  "run_actions [] nf = Inr nf" "run_actions (act # acts) nf = rbind (execute_action act nf) (run_actions acts)"
  by (simp_all add: run_actions_def [abs_def])

lemma execute_action_list_run: "execute_action_list acts = run_actions acts"
proof (induction acts)
  case (Cons act acts)
  show ?case
    by (rule ext) (simp add: Cons.IH)
qed (simp add: fun_eq_iff)

lemma execute_action_set_run: "execute_action_set as nf = run_pending (action_set_action as) nf"
proof -
  have "execute_action_set_loop as types = run_actions (List.map_filter (action_set_action as) types)" for types
  proof (induction types)
    case (Cons type types)
    show ?case
      by (rule ext) (simp add: Cons.IH List.map_filter_simps split: option.splits)
  qed (simp add: fun_eq_iff List.map_filter_simps)
  then show ?thesis
    by (simp add: execute_action_set_def run_pending_def)
qed

lemma action_set_clean_empty: "action_set_clean as = []"
  by (induction as) simp_all

lemma execute_instructions_spec:
  assumes "action_set_inv as" "execute_instructions is 0 nf as = Inr (t', nf', as')"
  shows "action_set_inv as'"
    and "\<exists>next_table. of_instructions is nf (action_set_action as) next_table nf' (action_set_action as') \<and>
      t' = (case next_table of None \<Rightarrow> 0 | Some t \<Rightarrow> t)"
proof -
  let ?as = "if instruction_is_active is INSTRUCTION_CLEAR_ACTIONS then action_set_clean as else as"
  have as': "as' = (if instruction_is_active is INSTRUCTION_WRITE_ACTIONS
      then action_set_merge ?as (wa_actions (write_act is)) else ?as)"
    using assms(2) by (auto simp: execute_instructions_def Let_def)
  have inv: "action_set_inv ?as"
    using assms(1) by (simp add: action_set_clean_empty action_set_inv_def)
  then show "action_set_inv as'"
    by (simp add: as' action_set_inv_merge split del: if_split) (simp add: action_set_inv_merge)
  have "action_set_action ?as = (if instruction_is_active is INSTRUCTION_CLEAR_ACTIONS then Map.empty else action_set_action as)"
    by (simp add: action_set_clean_empty action_sets.lookup_empty [unfolded action_set_init_def])
  then have "action_set_action as' = (if instruction_is_active is INSTRUCTION_CLEAR_ACTIONS then Map.empty else action_set_action as) ++
      (if instruction_is_active is INSTRUCTION_WRITE_ACTIONS then latest (wa_actions (write_act is)) else Map.empty)"
    using action_sets.lookup_fold [OF inv, of "wa_actions (write_act is)"] by (simp add: as' action_set_merge_def latest_def)
  then show "\<exists>next_table. of_instructions is nf (action_set_action as) next_table nf' (action_set_action as') \<and>
      t' = (case next_table of None \<Rightarrow> 0 | Some t \<Rightarrow> t)"
    using assms(2) by (auto simp: execute_instructions_def of_instructions_def execute_action_list_run Let_def upd_match_def)
qed

definition dp_flows :: "datapath \<Rightarrow> switch_tables" where
  "dp_flows dp t = (if unat t < length (dp_tables dp) then table_flows (dp_tables dp ! unat t) else {})"

definition dp_ok :: "u32 set \<Rightarrow> datapath \<Rightarrow> bool" where
  "dp_ok P dp \<longleftrightarrow> length (dp_tables dp) = MAX_TABLES \<and>
     (\<forall>ft \<in> set (dp_tables dp). ft_inv ft \<and> (\<forall>f \<in> table_flows ft. insts_ok P (f_insts f)))"

lemma count_flow_simps [simp]:
  "f_key (count_flow nf f) = f_key f" "f_mask (count_flow nf f) = f_mask f"
  "f_insts (count_flow nf f) = f_insts f" "f_cookie (count_flow nf f) = f_cookie f"
  by (simp_all add: count_flow_def)

text \<open>What a lookup and the counting do to a table.\<close>

lemma lookup_miss:
  assumes "ft_inv ft" "flow_table_lookup ft (nf_match nf) (start_time nf) = (None, ft')"
  shows "ft_inv ft'" "\<forall>f. \<not> hit nf (table_flows ft) f" "table_flows ft' = after_miss nf (table_flows ft)"
  using ft_inv_lookup [OF assms(1), of "nf_match nf" "start_time nf"] lookup_result [OF assms]
    lookup_effect [OF assms] assms(2)
  by (auto simp: hit_def after_miss_def)

lemma lookup_hit:
  assumes "ft_inv ft" "flow_table_lookup ft (nf_match nf) (start_time nf) = (Some f, ft')"
  shows "ft_inv (ft_update_flow ft' f (count_flow nf))"
    and "\<exists>g. hit nf (table_flows ft) g \<and> f = g\<lparr>f_last_used := start_time nf\<rparr> \<and>
      table_flows (ft_update_flow ft' f (count_flow nf)) = after_hit nf (table_flows ft) g"
proof -
  have inv: "ft_inv ft'"
    using ft_inv_lookup [OF assms(1), of "nf_match nf" "start_time nf"] assms(2) by simp
  have keys: "f_key (count_flow nf g) = f_key g \<and> f_mask (count_flow nf g) = f_mask g" for g
    by simp
  show "ft_inv (ft_update_flow ft' f (count_flow nf))"
    by (rule ft_update_flow_correct(1) [OF inv keys])
  obtain g where g: "hit nf (table_flows ft) g" "f = g\<lparr>f_last_used := start_time nf\<rparr>"
    using lookup_result [OF assms] by (auto simp: hit_def)
  have "table_flows (ft_update_flow ft' f (count_flow nf)) = after_hit nf (table_flows ft) g"
    unfolding ft_update_flow_correct(2) [OF inv keys] lookup_effect [OF assms] after_hit_def after_miss_def image_image g(2)
    by (rule image_cong) (auto simp: count_flow_def)
  then show "\<exists>g. hit nf (table_flows ft) g \<and> f = g\<lparr>f_last_used := start_time nf\<rparr> \<and>
      table_flows (ft_update_flow ft' f (count_flow nf)) = after_hit nf (table_flows ft) g"
    using g by blast
qed

lemma insts_after:
  assumes "\<forall>f \<in> F. insts_ok P (f_insts f)"
  shows "\<forall>f \<in> after_miss nf F. insts_ok P (f_insts f)" "\<forall>f \<in> after_hit nf F g. insts_ok P (f_insts f)"
  using assms by (auto simp: after_hit_def after_miss_def)

lemma dp_ok_set_table:
  "dp_ok P dp \<Longrightarrow> ft_inv ft \<Longrightarrow> \<forall>f \<in> table_flows ft. insts_ok P (f_insts f) \<Longrightarrow> dp_ok P (set_table dp t ft)"
  by (auto simp: dp_ok_def set_table_def dest!: set_update_subset_insert [THEN subsetD])

lemma dp_flows_set_table:
  assumes "unat t < length (dp_tables dp)"
  shows "dp_flows (set_table dp t ft) = (dp_flows dp)(t := table_flows ft)"
proof
  fix s
  show "dp_flows (set_table dp t ft) s = ((dp_flows dp)(t := table_flows ft)) s"
    using assms by (cases "s = t") (auto simp: dp_flows_def set_table_def nth_list_update word_unat_eq_iff)
qed

lemma dp_base_set_table [simp]: "dp_base (set_table dp t ft) = dp_base dp"
  by (simp add: set_table_def)

lemma dp_okD:
  assumes "dp_ok P dp" "unat t < MAX_TABLES"
  shows "unat t < length (dp_tables dp)" "ft_inv (dp_tables dp ! unat t)"
    "\<forall>f \<in> table_flows (dp_tables dp ! unat t). insts_ok P (f_insts f)"
    "dp_flows dp t = table_flows (dp_tables dp ! unat t)"
  using assms by (auto simp: dp_ok_def dp_flows_def)

text \<open>What the pipeline keeps of a flow: the counters and the time.\<close>

definition nf_volume :: "netflow \<Rightarrow> u64 \<times> u64 \<times> u64" where
  "nf_volume nf = (pkt_cnt nf, byte_cnt nf, start_time nf)"

lemma nf_volume_frame: "nf_frame nf = nf_frame nf' \<Longrightarrow> nf_volume nf = nf_volume nf'"
  by (simp add: nf_frame_def nf_volume_def)

lemma with_meta_simps [simp]:
  "nf_ok (with_cookie f nf) = nf_ok nf" "nf_ok (with_table t nf) = nf_ok nf"
  "nf_volume (with_cookie f nf) = nf_volume nf" "nf_volume (with_table t nf) = nf_volume nf"
  "out_ports (with_cookie f nf) = out_ports nf" "out_ports (with_table t nf) = out_ports nf"
  by (simp_all add: with_cookie_def with_table_def nf_ok_def tags_ok_def nf_volume_def)

lemma pipeline_refines:
  assumes "dp_ok P dp" "unat t < MAX_TABLES" "nf_ok nf" "acts_ok P as" "action_set_inv as"
  shows "\<exists>dp' nf' fwd ts. pipeline dp t nf as = Inr (dp', nf', fwd) \<and>
    of_pipeline (dp_flows dp) t nf (action_set_action as) ts (dp_flows dp') nf' fwd \<and> dp_ok P dp' \<and> nf_ok nf' \<and>
    nf_volume nf' = nf_volume nf \<and> dp_base dp' = dp_base dp \<and>
    set (out_ports nf') \<subseteq> set (out_ports nf) \<union> P \<and> (fwd \<longrightarrow> out_ports nf' \<noteq> []) \<and>
    (\<forall>s \<in> set ts. unat s < MAX_TABLES)"
  using assms
proof (induction "255 - unat t" arbitrary: dp t nf as rule: less_induct)
  case (less t dp nf as)
  note t = dp_okD [OF less.prems(1,2)]
  let ?ft = "dp_tables dp ! unat t"
  have get: "arr_get (dp_tables dp) (unat t) = Inr ?ft"
    using t(1) by simp
  obtain ret ft' where look: "flow_table_lookup ?ft (nf_match nf) (start_time nf) = (ret, ft')"
    by (cases "flow_table_lookup ?ft (nf_match nf) (start_time nf)")
  show ?case
  proof (cases ret)
    case None
    note m = lookup_miss [OF t(2) look [unfolded None]]
    have "of_pipeline (dp_flows dp) t nf (action_set_action as) [t] (dp_flows (set_table dp t ft')) nf False"
      using of_pipeline.miss [of nf "dp_flows dp" t "action_set_action as"] m by (simp add: t(4) dp_flows_set_table [OF t(1)])
    moreover have "dp_ok P (set_table dp t ft')"
      using dp_ok_set_table [OF less.prems(1) m(1)] insts_after(1) [OF t(3)] m(3) by simp
    ultimately show ?thesis
      using less.prems(2,3) look None get by (intro exI [of _ "set_table dp t ft'"] exI [of _ nf] exI [of _ False] exI [of _ "[t]"])
        (simp add: pipeline.simps [of dp])
  next
    case (Some f)
    let ?ft' = "ft_update_flow ft' f (count_flow nf)"
    let ?dp = "set_table dp t ?ft'"
    note inv = lookup_hit(1) [OF t(2) look [unfolded Some]]
    obtain g where g: "hit nf (dp_flows dp t) g" "f = g\<lparr>f_last_used := start_time nf\<rparr>"
        "table_flows ?ft' = after_hit nf (dp_flows dp t) g"
      using lookup_hit(2) [OF t(2) look [unfolded Some]] t(4) by auto
    have ok: "dp_ok P ?dp"
      using dp_ok_set_table [OF less.prems(1) inv] insts_after(2) [OF t(3)] g(3) t(4) by simp
    have flows: "dp_flows ?dp = (dp_flows dp)(t := after_hit nf (dp_flows dp t) g)"
      using dp_flows_set_table [OF t(1)] g(3) by simp
    have "insts_ok P (f_insts g)"
      using t(3,4) g(1) by (auto simp: hit_def)
    then obtain t' nf1 as' where ex: "execute_instructions (f_insts g) 0 (with_cookie g nf) as = Inr (t', nf1, as')"
        "unat t' < MAX_TABLES" "nf_ok nf1" "nf_volume nf1 = nf_volume nf" "acts_ok P as'"
        "set (out_ports nf1) \<subseteq> set (out_ports nf) \<union> P"
      using execute_instructions_step [of "with_cookie g nf" P as "f_insts g"] less.prems(3,4) nf_volume_frame
      by (metis with_meta_simps(1,3,5))
    note inv' = execute_instructions_spec(1) [OF less.prems(5) ex(1)]
    obtain next_table where spec: "t' = (case next_table of None \<Rightarrow> 0 | Some t \<Rightarrow> t)"
        "of_instructions (f_insts g) (with_cookie g nf) (action_set_action as) next_table nf1 (action_set_action as')"
      using execute_instructions_spec(2) [OF less.prems(5) ex(1)] by blast
    have step: "pipeline dp t nf as =
        (if t' > t then pipeline ?dp t' (with_table t' nf1) as'
         else rbind (execute_action_set as' nf1) (\<lambda>nf. Inr (?dp, nf, out_ports nf \<noteq> [])))"
      using ex(1) look Some g(2) get unfolding with_cookie_def with_table_def
      by (simp add: pipeline.simps [of dp] Let_def del: arr_get_Inr)
    show ?thesis
    proof (cases "t' > t")
      case True
      note IH = less.hyps [OF table_id_measure [OF True] ok ex(2) _ ex(5) inv', of "with_table t' nf1"]
      have goto: "next_table = Some t'"
        using True spec(1) by (cases next_table) simp_all
      obtain dp' nf' fwd ts where "pipeline ?dp t' (with_table t' nf1) as' = Inr (dp', nf', fwd)"
          "of_pipeline (dp_flows ?dp) t' (with_table t' nf1) (action_set_action as') ts (dp_flows dp') nf' fwd" "dp_ok P dp'" "nf_ok nf'"
          "nf_volume nf' = nf_volume nf" "dp_base dp' = dp_base dp"
          "set (out_ports nf') \<subseteq> set (out_ports nf1) \<union> P" "fwd \<longrightarrow> out_ports nf' \<noteq> []" "\<forall>s \<in> set (t # ts). unat s < MAX_TABLES"
        using IH ex(3,4) less.prems(2) by auto
      moreover from this have "of_pipeline (dp_flows dp) t nf (action_set_action as) (t # ts) (dp_flows dp') nf' fwd"
        using of_pipeline.goto [where T = "dp_flows dp", OF g(1) spec(2) [unfolded goto] True] flows by simp
      ultimately show ?thesis
        using step True ex(6) by fastforce
    next
      case False
      obtain nf2 where nf2: "execute_action_set as' nf1 = Inr nf2" "nf_ok nf2" "nf_volume nf2 = nf_volume nf"
          "set (out_ports nf2) \<subseteq> set (out_ports nf) \<union> P"
        using set_step [OF ex(3,5)] ex(4,6) nf_volume_frame by (metis (no_types, lifting) le_sup_iff subset_trans sup_ge2)
      have "\<forall>u. next_table = Some u \<longrightarrow> u \<le> t"
        using False spec(1) by auto
      then have "of_pipeline (dp_flows dp) t nf (action_set_action as) [t] (dp_flows ?dp) nf2 (out_ports nf2 \<noteq> [])"
        using of_pipeline.last [where T = "dp_flows dp", OF g(1) spec(2) _ nf2(1) [unfolded execute_action_set_run]] flows by simp
      then show ?thesis
        using step False nf2 ok less.prems(2) by (intro exI [of _ ?dp] exI [of _ nf2] exI [of _ "out_ports nf2 \<noteq> []"] exI [of _ "[t]"]) simp
    qed
  qed
qed

lemma of_pipeline_tables:
  assumes "of_pipeline T t nf A ts T' nf' fwd"
  shows "sorted_wrt (<) ts \<and> (\<forall>s \<in> set ts. t \<le> s) \<and> (\<forall>s. s \<notin> set ts \<longrightarrow> T' s = T s)"
  using assms
proof induction
  case (goto nf T t f A t' nf' A' ts T' nf'' fwd)
  then show ?case
    using order.strict_trans2 [of t t'] by (auto intro: order.strict_implies_order)
qed simp_all

lemma table_ids_bounded:
  fixes ts :: "u8 list"
  assumes "sorted_wrt (<) ts" "\<forall>s \<in> set ts. unat s < MAX_TABLES"
  shows "length ts \<le> MAX_TABLES"
proof -
  have "distinct ts"
    using assms(1) by (simp add: strict_sorted_iff)
  moreover have "inj_on unat (set ts)"
    by (simp add: inj_on_def word_unat_eq_iff)
  ultimately have "length ts = card (unat ` set ts)"
    by (simp add: card_image distinct_card)
  also have "\<dots> \<le> card {..<MAX_TABLES}"
    using assms(2) by (intro card_mono) auto
  finally show ?thesis
    by simp
qed

subsection \<open>Arrivals\<close>

definition entering :: "netflow \<Rightarrow> netflow" where
  "entering nf = with_table 0 (upd_match (\<lambda>m. m\<lparr>metadata := 0\<rparr>)
     (nf\<lparr>nf_meta := (nf_meta nf)\<lparr>meta_buffer_id := OFP_NO_BUFFER\<rparr>\<rparr>))"

definition rx_counted :: "netflow \<Rightarrow> port \<Rightarrow> port" where
  "rx_counted nf p = p\<lparr>p_stats := (p_stats p)\<lparr>rx_bytes := rx_bytes (p_stats p) + byte_cnt nf,
     rx_packets := rx_packets (p_stats p) + pkt_cnt nf\<rparr>\<rparr>"

lemma entering_simps [simp]:
  "nf_ok (entering nf) = nf_ok nf" "nf_volume (entering nf) = nf_volume nf" "out_ports (entering nf) = out_ports nf"
  by (simp_all add: entering_def with_table_def upd_match_def nf_ok_def tags_ok_def wf_key_def nf_volume_def)

lemma recv_refines:
  assumes "dp_ok P dp" "nf_ok nf" "dp_port dp (in_port (nf_match nf)) = Some p"
  shows "\<exists>dp' nf' fwd ts. dp_recv_netflow dp nf = Inr (dp', nf', fwd) \<and>
    of_pipeline (dp_flows dp) 0 (entering nf) Map.empty ts (dp_flows dp') nf' fwd \<and> dp_ok P dp' \<and> nf_ok nf' \<and>
    nf_volume nf' = nf_volume nf \<and>
    dp_base dp' = upd_port (dp_base dp) (in_port (nf_match nf)) (rx_counted nf) \<and>
    set (out_ports nf') \<subseteq> set (out_ports nf) \<union> P \<and> (fwd \<longrightarrow> out_ports nf' \<noteq> []) \<and>
    (\<forall>s \<in> set ts. unat s < MAX_TABLES)"
proof -
  let ?dp = "dp\<lparr>dp_base := upd_port (dp_base dp) (in_port (nf_match nf)) (rx_counted nf)\<rparr>"
  have "dp_recv_netflow dp nf = pipeline ?dp 0 (entering nf) []"
    using assms(3) by (simp add: dp_recv_netflow_def Let_def entering_def with_table_def rx_counted_def [abs_def]
        action_set_init_def upd_match_def)
  moreover have "dp_ok P ?dp" "dp_flows ?dp = dp_flows dp"
    using assms(1) by (simp_all add: dp_ok_def dp_flows_def fun_eq_iff)
  ultimately show ?thesis
    using pipeline_refines [of P ?dp 0 "entering nf" "[]"] assms(2)
      action_sets.lookup_empty [unfolded action_set_init_def] by (simp add: MAX_TABLES_def acts_ok_def action_set_inv_def)
qed

text \<open>C2: A flow that arrives at a known port of a well-formed switch goes through the pipeline as
  through the abstract switch, whose tables are sets of entries and whose waiting actions are a map:
  in every table it hits an unexpired matching entry of the highest priority, whose counters grow;
  the actions of the entry are applied, the waiting actions are cleared and then overridden as its
  instructions say, and executed in the order of their types after the last table; and it leaves the tables, its own headers and its output ports as the abstract run
  does.  Only the receive counters of the arrival port change in the node.\<close>

theorem dp_recv_netflow_refines:
  assumes "dp_ok P dp" "nf_ok nf" "dp_port dp (in_port (nf_match nf)) = Some p"
  shows "\<exists>dp' nf' fwd ts. dp_recv_netflow dp nf = Inr (dp', nf', fwd) \<and>
    of_pipeline (dp_flows dp) 0 (entering nf) Map.empty ts (dp_flows dp') nf' fwd \<and> dp_ok P dp' \<and>
    dp_base dp' = upd_port (dp_base dp) (in_port (nf_match nf)) (rx_counted nf)"
  using recv_refines [OF assms] by blast

text \<open>C15: The pipeline ends.  The identifiers of the tables a flow visits strictly increase, so an
  arrival makes at most one lookup in each of the 128 tables and returns; the tables that it does
  not visit are unchanged.\<close>

theorem dp_pipeline_terminates:
  assumes "dp_ok P dp" "nf_ok nf" "dp_port dp (in_port (nf_match nf)) = Some p"
  shows "\<exists>dp' nf' fwd ts. dp_recv_netflow dp nf = Inr (dp', nf', fwd) \<and>
    of_pipeline (dp_flows dp) 0 (entering nf) Map.empty ts (dp_flows dp') nf' fwd \<and>
    sorted_wrt (<) ts \<and> length ts \<le> MAX_TABLES \<and> (\<forall>t. t \<notin> set ts \<longrightarrow> dp_flows dp' t = dp_flows dp t)"
proof -
  obtain dp' nf' fwd ts where run: "dp_recv_netflow dp nf = Inr (dp', nf', fwd)"
      "of_pipeline (dp_flows dp) 0 (entering nf) Map.empty ts (dp_flows dp') nf' fwd" "\<forall>s \<in> set ts. unat s < MAX_TABLES"
    using recv_refines [OF assms] by blast
  then show ?thesis
    using of_pipeline_tables [OF run(2)] table_ids_bounded [OF _ run(3)] by blast
qed

text \<open>C17: A switch sends a flow nowhere but where an installed entry says.  When every entry outputs
  only to ports of a set, the output ports of a flow after its arrival are those it came with and
  ports of the set; its packet and byte counts and its time are untouched, and it is passed on
  only when it has an output port.\<close>

theorem dp_outputs_installed:
  assumes "dp_ok P dp" "nf_ok nf" "dp_recv_netflow dp nf = Inr (dp', nf', fwd)"
  shows "set (out_ports nf') \<subseteq> set (out_ports nf) \<union> P \<and> (fwd \<longrightarrow> out_ports nf' \<noteq> []) \<and>
    pkt_cnt nf' = pkt_cnt nf \<and> byte_cnt nf' = byte_cnt nf \<and> start_time nf' = start_time nf"
proof (cases "dp_port dp (in_port (nf_match nf))")
  case None
  then show ?thesis
    using assms(3) by (auto simp: dp_recv_netflow_def Let_def)
next
  case (Some p)
  then show ?thesis
    using recv_refines [OF assms(1,2) Some] assms(3) by (auto simp: nf_volume_def)
qed

subsection \<open>Flow modifications\<close>

text \<open>What each kind of message does to the entries of its table.\<close>

definition flow_mod_spec :: "of_object_id \<Rightarrow> flow \<Rightarrow> u64 \<Rightarrow> flow set \<Rightarrow> flow set" where
  "flow_mod_spec oid f time F =
     (case oid of
        OF_FLOW_ADD \<Rightarrow> insert (f\<lparr>f_remove_at := f_hard_timeout f * 1000000 + time, f_last_used := time\<rparr>) F
      | OF_FLOW_MODIFY \<Rightarrow> (\<lambda>g. if covers f g then g\<lparr>f_insts := f_insts f\<rparr> else g) `
          {g \<in> F. \<not> (covers f g \<and> flow_expired g time)}
      | OF_FLOW_MODIFY_STRICT \<Rightarrow> (\<lambda>g. if same_entry f g then g\<lparr>f_insts := f_insts f\<rparr> else g) `
          {g \<in> F. \<not> (same_entry f g \<and> flow_expired g time)}
      | OF_FLOW_DELETE \<Rightarrow> {g \<in> F. \<not> covers f g}
      | OF_FLOW_DELETE_STRICT \<Rightarrow> {g \<in> F. \<not> same_entry f g}
      | _ \<Rightarrow> F)"

text \<open>A modification that a switch can take: the key lies inside the mask, the instructions execute,
  and an added entry has a match of its own.\<close>

definition flow_mod_valid :: "u32 set \<Rightarrow> datapath \<Rightarrow> of_object_id \<Rightarrow> flow \<Rightarrow> bool" where
  "flow_mod_valid P dp oid f \<longleftrightarrow> flow_ok f \<and> insts_ok P (f_insts f) \<and>
     (oid = OF_FLOW_ADD \<longrightarrow> (\<forall>g \<in> dp_flows dp (f_table_id f). \<not> (f_mask g = f_mask f \<and> f_key g = f_key f)))"

lemma flow_mod_spec_insts:
  "insts_ok P (f_insts f) \<Longrightarrow> \<forall>g \<in> F. insts_ok P (f_insts g) \<Longrightarrow>
     \<forall>g \<in> flow_mod_spec oid f time F. insts_ok P (f_insts g)"
  by (cases oid) (auto simp: flow_mod_spec_def)

lemma flow_mod_ops:
  assumes "ft_inv ft" "flow_ok f"
  shows "ft_inv (modify_flow ft f s time)" "ft_inv (delete_flow ft f time s)"
    "table_flows (modify_flow ft f False time) = flow_mod_spec OF_FLOW_MODIFY f time (table_flows ft)"
    "table_flows (modify_flow ft f True time) = flow_mod_spec OF_FLOW_MODIFY_STRICT f time (table_flows ft)"
    "table_flows (delete_flow ft f time False) = flow_mod_spec OF_FLOW_DELETE f time (table_flows ft)"
    "table_flows (delete_flow ft f time True) = flow_mod_spec OF_FLOW_DELETE_STRICT f time (table_flows ft)"
  using strict_correct [OF assms(1), of f time] non_strict_correct [OF assms(1) flow_okD(2) [OF assms(2)], of time]
  by (cases s; simp add: flow_mod_spec_def flow_add_instructions_def)+

lemma flow_mod_step:
  assumes "dp_ok P dp" "of_body obj = Flow_Modify fm"
    and "unpack_flow_mod nd (snd mem) fm (flow_new (fst mem)) = Inr (f, ok)"
    and "flow_mod_valid P dp (object_id obj) f" "unat (f_table_id f) < MAX_TABLES"
  shows "\<exists>dp'. dp_handle_flow_mod nd mem dp obj time = Inr dp' \<and> dp_ok P dp' \<and> dp_base dp' = dp_base dp \<and>
    dp_flows dp' = (dp_flows dp)(f_table_id f := flow_mod_spec (object_id obj) f time (dp_flows dp (f_table_id f)))"
proof -
  let ?t = "f_table_id f"
  let ?ft = "dp_tables dp ! unat ?t"
  note t = dp_okD [OF assms(1,5)]
  note ops = flow_mod_ops [OF t(2), of f]
  have ok: "flow_ok f" "insts_ok P (f_insts f)"
    using assms(4) by (simp_all add: flow_mod_valid_def)
  have wr: "dp_ok P (set_table dp ?t ft) \<and> dp_base (set_table dp ?t ft) = dp_base dp \<and>
      dp_flows (set_table dp ?t ft) = (dp_flows dp)(?t := flow_mod_spec (object_id obj) f time (dp_flows dp ?t))"
    if "ft_inv ft" "table_flows ft = flow_mod_spec (object_id obj) f time (table_flows ?ft)" for ft
    using dp_ok_set_table [OF assms(1) that(1)] dp_flows_set_table [OF t(1)] flow_mod_spec_insts [OF ok(2) t(3)] that(2) t(4)
    by simp
  have add: "ft_inv (add_flow ?ft f time)"
      "table_flows (add_flow ?ft f time) = flow_mod_spec OF_FLOW_ADD f time (table_flows ?ft)"
    if "object_id obj = OF_FLOW_ADD"
    using add_flow_correct [OF t(2) ok(1)] assms(4) that t(4) by (simp_all add: flow_mod_valid_def flow_mod_spec_def)
  have same: "(dp_flows dp)(?t := flow_mod_spec oid f time (dp_flows dp ?t)) = dp_flows dp"
    if "oid \<notin> {OF_FLOW_ADD, OF_FLOW_MODIFY, OF_FLOW_MODIFY_STRICT, OF_FLOW_DELETE, OF_FLOW_DELETE_STRICT}" for oid
    using that by (cases oid) (simp_all add: flow_mod_spec_def)
  have handler: "dp_handle_flow_mod nd mem dp obj time =
      (case object_id obj of
         OF_FLOW_ADD \<Rightarrow> Inr (set_table dp ?t (add_flow ?ft f time))
       | OF_FLOW_MODIFY \<Rightarrow> Inr (set_table dp ?t (modify_flow ?ft f False time))
       | OF_FLOW_MODIFY_STRICT \<Rightarrow> Inr (set_table dp ?t (modify_flow ?ft f True time))
       | OF_FLOW_DELETE \<Rightarrow> Inr (set_table dp ?t (delete_flow ?ft f time False))
       | OF_FLOW_DELETE_STRICT \<Rightarrow> Inr (set_table dp ?t (delete_flow ?ft f time True))
       | _ \<Rightarrow> Inr dp)"
    using assms(2,3) t(1) by (simp add: dp_handle_flow_mod_def flow_modify_of_def arr_get_def)
  show ?thesis
    using wr add ops(1,2) ops(3-6) ok(1) same assms(1) by (cases "object_id obj") (simp_all add: handler)
qed


subsection \<open>Reachable switches\<close>

lemma dp_ok_stats_tables:
  assumes "stats_tables req time fts arr = Inr (fts', arr')"
    and "\<forall>ft \<in> set fts. ft_inv ft \<and> (\<forall>f \<in> table_flows ft. insts_ok P (f_insts f))"
  shows "length fts' = length fts \<and> (\<forall>ft \<in> set fts'. ft_inv ft \<and> (\<forall>f \<in> table_flows ft. insts_ok P (f_insts f)))"
  using assms
proof (induction fts arbitrary: arr fts' arr')
  case (Cons ft fts)
  then obtain ft1 arr1 fts1 where "flow_table_stats ft req arr time = Inr (ft1, arr1)"
      "stats_tables req time fts arr1 = Inr (fts1, arr')" "fts' = ft1 # fts1"
    by auto
  then show ?case
    using Cons.IH [of arr1 fts1 arr'] Cons.prems(2) ft_inv_stats [of ft req arr time ft1 arr1] by auto
qed simp

lemma dp_ok_stats:
  assumes "dp_ok P dp" "dp_get_stats_flows dp req arr time = Inr (dp', arr')"
  shows "dp_ok P dp' \<and> dp_base dp' = dp_base dp"
proof (cases "req_table_id req = OFPTT_ALL")
  case True
  then show ?thesis
    using assms dp_ok_stats_tables by (fastforce simp: dp_get_stats_flows_def dp_ok_def)
next
  case False
  then obtain ft where ft: "unat (req_table_id req) < length (dp_tables dp)"
      "flow_table_stats (dp_tables dp ! unat (req_table_id req)) req arr time = Inr (ft, arr')"
      "dp' = set_table dp (req_table_id req) ft"
    using assms(2) by (auto simp: dp_get_stats_flows_def)
  have "ft_inv (dp_tables dp ! unat (req_table_id req))"
      "\<forall>f \<in> table_flows (dp_tables dp ! unat (req_table_id req)). insts_ok P (f_insts f)"
    using assms(1) ft(1) by (auto simp: dp_ok_def)
  then show ?thesis
    using ft_inv_stats [OF _ ft(2)] dp_ok_set_table [OF assms(1), of ft "req_table_id req"] ft(3) by (simp add: subset_iff)
qed

text \<open>The messages a controller may send: any message but flow modifications that the switch cannot
  take.\<close>

definition msg_valid ::
  "(bytes \<Rightarrow> of_object option) \<Rightarrow> bool \<Rightarrow> stack_mem \<Rightarrow> u32 set \<Rightarrow> datapath \<Rightarrow> bytes \<Rightarrow> bool" where
  "msg_valid parse nd mem P dp msg \<longleftrightarrow>
     (case parse msg of
        None \<Rightarrow> True
      | Some obj \<Rightarrow>
          (case of_body obj of
             Flow_Modify fm \<Rightarrow>
               (case unpack_flow_mod nd (mem_action mem) fm (flow_new (mem_flow mem)) of
                  Inl _ \<Rightarrow> True
                | Inr (f, _) \<Rightarrow> flow_mod_valid P dp (object_id obj) f)
           | _ \<Rightarrow> True))"

lemma flow_mod_keeps_ok:
  assumes "dp_ok P dp" "dp_handle_flow_mod nd (mem_flow mem, mem_action mem) dp obj time = Inr dp'"
    "parse msg = Some obj" "msg_valid parse nd mem P dp msg"
  shows "dp_ok P dp' \<and> dp_base dp' = dp_base dp"
proof -
  obtain fm f ok where fm: "of_body obj = Flow_Modify fm"
      "unpack_flow_mod nd (mem_action mem) fm (flow_new (mem_flow mem)) = Inr (f, ok)"
      "unat (f_table_id f) < MAX_TABLES"
    using assms(1,2) by (auto simp: dp_handle_flow_mod_def flow_modify_of_def dp_ok_def split: of_body.splits)
  then have "flow_mod_valid P dp (object_id obj) f"
    using assms(3,4) by (simp add: msg_valid_def)
  then show ?thesis
    using flow_mod_step [OF assms(1) fm(1), of nd "(mem_flow mem, mem_action mem)" f ok time] fm assms(2) by auto
qed

lemma control_keeps_ok:
  assumes "dp_ok P dp" "msg_valid parse nd mem P dp msg"
    "dp_control_handle_control_msg parse nd mem dp msg nf time = Inr (dp', nf', ret)"
  shows "dp_ok P dp' \<and> dp_base dp' = dp_base dp"
proof (cases "parse msg")
  case (Some obj)
  show ?thesis
    using assms Some flow_mod_keeps_ok [OF assms(1) _ Some assms(2)] dp_ok_stats [OF assms(1)]
    by (auto simp: dp_control_handle_control_msg_def dp_handle_flow_stats_req_def
        dp_handle_aggregate_stats_req_def Let_def split: if_splits)
qed (use assms in \<open>auto simp: dp_control_handle_control_msg_def split: if_splits\<close>)

text \<open>The life of a switch: it is created, gets ports, receives flows and control messages.\<close>

inductive dp_reachable ::
  "(bytes \<Rightarrow> of_object option) \<Rightarrow> bool \<Rightarrow> u32 set \<Rightarrow> datapath \<Rightarrow> bool" for parse nd P where
  create: "dp_reachable parse nd P (fst (dp_new u d))"
| add_port: "dp_reachable parse nd P dp \<Longrightarrow> dp_add_port dp pid eth_addr speed curr_speed = Inr dp' \<Longrightarrow>
    dp_reachable parse nd P dp'"
| arrive: "dp_reachable parse nd P dp \<Longrightarrow> nf_ok nf \<Longrightarrow> dp_recv_netflow dp nf = Inr (dp', nf', fwd) \<Longrightarrow>
    dp_reachable parse nd P dp'"
| send: "dp_reachable parse nd P dp \<Longrightarrow> dp_reachable parse nd P (dp_send_netflow dp nf out_port)"
| control: "dp_reachable parse nd P dp \<Longrightarrow> msg_valid parse nd mem P dp msg \<Longrightarrow>
    dp_control_handle_control_msg parse nd mem dp msg nf time = Inr (dp', nf', ret) \<Longrightarrow>
    dp_reachable parse nd P dp'"

lemma dp_ok_base [simp]: "dp_ok P (dp\<lparr>dp_base := n\<rparr>) = dp_ok P dp"
  by (simp add: dp_ok_def)

lemma recv_keeps_ok:
  assumes "dp_ok P dp" "nf_ok nf" "dp_recv_netflow dp nf = Inr (dp', nf', fwd)"
  shows "dp_ok P dp'"
proof (cases "dp_port dp (in_port (nf_match nf))")
  case None
  then show ?thesis
    using assms by (simp add: dp_recv_netflow_def Let_def)
next
  case (Some p)
  then show ?thesis
    using recv_refines [OF assms(1,2) Some] assms(3) by auto
qed

lemma reachable_ok: "dp_reachable parse nd P dp \<Longrightarrow> dp_ok P dp"
proof (induction rule: dp_reachable.induct)
  case (create u d)
  then show ?case
    by (auto simp: dp_ok_def dp_new_def split_beta)
next
  case (add_port dp pid eth_addr speed curr_speed dp')
  then show ?case
    by (auto simp: dp_add_port_def)
next
  case (arrive dp nf dp' nf' fwd)
  then show ?case
    using recv_keeps_ok by blast
next
  case (send dp nf out_port)
  then show ?case
    by (simp add: dp_send_netflow_def)
next
  case (control dp mem msg nf time dp' nf' ret)
  then show ?case
    using control_keeps_ok by blast
qed


subsection \<open>An example switch\<close>

text \<open>A switch with ports 1 and 2 and one entry, which sends every flow to port 2.\<close>

definition out_flow :: flow where
  "out_flow = blank_flow\<lparr>f_insts := add_apply_actions instruction_set_zero (inst_apply_actions [action_output 2])\<rparr>"

definition example_dp :: datapath where
  "example_dp = set_table ((fst (dp_new 0 7))\<lparr>dp_base := (fst (node_init 0 DATAPATH))
     \<lparr>ports := [port_new 1 (replicate 6 1) 1000000 1000000, port_new 2 (replicate 6 2) 1000000 1000000]\<rparr>\<rparr>) 0
     (add_flow (flow_table_new 0) out_flow 5)"

lemma out_flow_ok: "flow_ok out_flow" "insts_ok {2} (f_insts out_flow)"
proof -
  show "flow_ok out_flow"
    using flow_ok_examples(1) by (simp add: out_flow_def flow_ok_def)
  show "insts_ok {2} (f_insts out_flow)"
    by (simp add: out_flow_def insts_ok_def acts_ok_def act_ok_def act_ports_def action_output_def
        instruction_is_active_def add_apply_actions_def inst_apply_actions_def instruction_set_zero_def instruction_types)
qed

lemma example_dp_facts:
  "dp_ok {2} example_dp" "dp_port example_dp 0 = None" "dp_port example_dp 1 \<noteq> None"
  "dp_flows example_dp 0 = {out_flow\<lparr>f_remove_at := 5, f_last_used := 5\<rparr>}"
proof -
  have out: "f_hard_timeout out_flow = 0"
    by (simp add: out_flow_def blank_flow_def flow_new_def init_instruction_set_def)
  note add = add_flow_correct [OF ft_inv_new out_flow_ok(1), of 0 5]
  have new: "dp_ok {2} (fst (dp_new 0 7))"
    by (auto simp: dp_ok_def dp_new_def split_beta)
  then show "dp_ok {2} example_dp"
    using add out_flow_ok(2) unfolding example_dp_def by (intro dp_ok_set_table) auto
  show "dp_flows example_dp 0 = {out_flow\<lparr>f_remove_at := 5, f_last_used := 5\<rparr>}"
    using add new out unfolding example_dp_def
    by (subst dp_flows_set_table) (simp_all add: dp_ok_def MAX_TABLES_def)
  show "dp_port example_dp 0 = None" "dp_port example_dp 1 \<noteq> None"
    by (simp_all add: example_dp_def dp_port_def node_port_def HASH_FIND_def port_new_def)
qed

definition example_nf :: netflow where
  "example_nf = netflow_init\<lparr>nf_match := zero_key\<lparr>in_port := 1\<rparr>, pkt_cnt := 10, byte_cnt := 1000\<rparr>"

lemma example_nf_facts [simp]: "nf_ok example_nf" "in_port (nf_match example_nf) = 1" "out_ports example_nf = []" "pkt_cnt example_nf = 10"
  by (simp_all add: example_nf_def netflow_init_def nf_ok_def tags_ok_def wf_key_def zero_key_def MAX_STACK_SIZE_def
      ETH_LEN_def IPV6_LEN_def)

lemma example_in_port: "\<exists>p. dp_port example_dp (in_port (nf_match example_nf)) = Some p"
  using example_dp_facts(3) by simp

theorem dp_recv_netflow_refines_witness:
  "\<exists>dp' nf' fwd ts. dp_recv_netflow example_dp example_nf = Inr (dp', nf', fwd) \<and>
    of_pipeline (dp_flows example_dp) 0 (entering example_nf) Map.empty ts (dp_flows dp') nf' fwd \<and> dp_ok {2} dp'"
  using dp_recv_netflow_refines [OF example_dp_facts(1) example_nf_facts(1)] example_in_port by metis

theorem dp_pipeline_terminates_witness:
  "\<exists>dp' nf' fwd ts. dp_recv_netflow example_dp example_nf = Inr (dp', nf', fwd) \<and>
    of_pipeline (dp_flows example_dp) 0 (entering example_nf) Map.empty ts (dp_flows dp') nf' fwd \<and> length ts \<le> MAX_TABLES"
  using dp_pipeline_terminates [OF example_dp_facts(1) example_nf_facts(1)] example_in_port by metis

theorem dp_outputs_installed_witness:
  "\<exists>dp' nf' fwd. dp_recv_netflow example_dp example_nf = Inr (dp', nf', fwd) \<and> set (out_ports nf') \<subseteq> {2} \<and>
    pkt_cnt nf' = 10"
proof -
  obtain dp' nf' fwd where "dp_recv_netflow example_dp example_nf = Inr (dp', nf', fwd)"
    using recv_refines [OF example_dp_facts(1) example_nf_facts(1)] example_in_port by metis
  then show ?thesis
    using dp_outputs_installed [OF example_dp_facts(1) example_nf_facts(1), of dp' nf' fwd]
    by auto
qed

text \<open>The witness deletes the entries of table 0 with a match of any packet.\<close>

definition delete_all :: of_object where
  "delete_all = \<lparr>object_id = OF_FLOW_DELETE, of_xid = 1, of_body = Flow_Modify
     \<lparr>fm_table_id = 0, fm_idle_timeout = 0, fm_hard_timeout = 0, fm_flags = 0, fm_cookie = 0, fm_priority = 0,
      fm_match = Some \<lparr>match_fields = zero_fields, match_masks = zero_fields\<rparr>, fm_instructions = Some []\<rparr>\<rparr>"



subsection \<open>Flooding, statistics and replies\<close>

lemma dp_create_flood_ports:
  "out_ports (dp_create_flood dp nf) =
     out_ports nf @ filter (\<lambda>p. p \<noteq> in_port (nf_match nf)) (map port_id (dp_ports dp))"
proof -
  have "out_ports (fold (\<lambda>p nf. if port_id p \<noteq> in_port (nf_match nf) then netflow_add_out_port nf (port_id p) else nf) ps nf) =
      out_ports nf @ filter (\<lambda>p. p \<noteq> in_port (nf_match nf)) (map port_id ps)" for ps
    by (induction ps arbitrary: nf) (simp_all add: netflow_add_out_port_def LL_APPEND_def)
  then show ?thesis
    by (simp add: dp_create_flood_def)
qed

text \<open>The replies about all ports name every port, in the order of the table, while they fit a
  message.\<close>

lemma entries_append_room:
  assumes "(length es + Suc k) * len \<le> OF_WIRE_BUFFER_MAX_LENGTH"
  shows "entries_append len es e = Some (es @ [e])"
  using order_trans [OF mult_le_mono1 assms, of "length es + 1"] by (simp add: entries_append_def)

lemma port_stats_loop_all:
  "(length es + length ps) * PORT_STATS_ENTRY_LEN \<le> OF_WIRE_BUFFER_MAX_LENGTH \<Longrightarrow>
     port_stats_loop ps es = es @ map port_stats_entry ps"
proof (induction ps arbitrary: es)
  case (Cons p ps)
  have "port_stats_loop (p # ps) es = port_stats_loop ps (es @ [port_stats_entry p])"
    using entries_append_room [of es "length ps"] Cons.prems by (simp add: port_stats_loop_def)
  then show ?case
    using Cons.IH [of "es @ [port_stats_entry p]"] Cons.prems by simp
qed (simp add: port_stats_loop_def)

lemma port_desc_loop_all:
  "(length es + length ps) * PORT_DESC_LEN \<le> OF_WIRE_BUFFER_MAX_LENGTH \<Longrightarrow>
     port_desc_loop ps es = Some (es @ map port_desc ps)"
proof (induction ps arbitrary: es)
  case (Cons p ps)
  then show ?case
    using entries_append_room [of es "length ps"] by simp
qed simp

text \<open>A request for the statistics of all ports is answered with one entry per port, in order,
  that carries the port's counters, and a port description with one description per port, as
  long as there are at most 584 ports; a request for one port is answered with that port's entry,
  and one for a port that the switch does not have dereferences NULL.\<close>

theorem port_replies_exact:
  fixes dp :: datapath and xid :: u32
  assumes "length (dp_ports dp) \<le> 584"
  shows "dp_handle_port_stats_req nd dp \<lparr>object_id = OF_PORT_STATS_REQUEST, of_xid = xid, of_body = Port_Stats_Request OFPP_ANY\<rparr> =
      Inr (Port_Stats_Reply xid (map port_stats_entry (dp_ports dp))) \<and>
    dp_handle_port_desc nd dp \<lparr>object_id = OF_PORT_DESC_STATS_REQUEST, of_xid = xid, of_body = No_Body\<rparr> =
      Inr (Some (Port_Desc_Reply xid (map port_desc (dp_ports dp)))) \<and>
    (pid \<noteq> OFPP_ANY \<longrightarrow>
      dp_handle_port_stats_req nd dp \<lparr>object_id = OF_PORT_STATS_REQUEST, of_xid = xid, of_body = Port_Stats_Request pid\<rparr> =
        (case dp_port dp pid of None \<Rightarrow> Inl Null_Deref | Some p \<Rightarrow> Inr (Port_Stats_Reply xid [port_stats_entry p])))"
proof -
  have "port_stats_loop (dp_ports dp) [] = map port_stats_entry (dp_ports dp)"
      "port_desc_loop (dp_ports dp) [] = Some (map port_desc (dp_ports dp))"
    using port_stats_loop_all [of "[]" "dp_ports dp"] port_desc_loop_all [of "[]" "dp_ports dp"] assms
    by (simp_all add: PORT_STATS_ENTRY_LEN_def PORT_DESC_LEN_def OF_WIRE_BUFFER_MAX_LENGTH_def)
  moreover have "port_stats_loop [p] [] = [port_stats_entry p]" for p
    using port_stats_loop_all [of "[]" "[p]"] by (simp add: PORT_STATS_ENTRY_LEN_def OF_WIRE_BUFFER_MAX_LENGTH_def)
  ultimately show ?thesis
    using assms
    by (auto simp: dp_handle_port_stats_req_def dp_handle_port_desc_def port_stats_request_of_def loci_assert_def
        entries_set_def PORT_STATS_ENTRY_LEN_def PORT_DESC_LEN_def OF_WIRE_BUFFER_MAX_LENGTH_def split: option.splits)
qed

theorem port_replies_exact_witness:
  "dp_handle_port_desc True example_dp \<lparr>object_id = OF_PORT_DESC_STATS_REQUEST, of_xid = 4, of_body = No_Body\<rparr> =
     Inr (Some (Port_Desc_Reply 4 (map port_desc (dp_ports example_dp))))"
  using port_replies_exact [of example_dp True 4] by (simp add: example_dp_def dp_ports_def)

text \<open>With 585 ports the list fits its buffer and the message does not.\<close>

lemma port_stats_overflow:
  assumes "length (dp_ports dp) = 585"
  shows "dp_handle_port_stats_req True dp \<lparr>object_id = OF_PORT_STATS_REQUEST, of_xid = xid, of_body = Port_Stats_Request OFPP_ANY\<rparr> =
    Inl Out_Of_Bounds"
  using port_stats_loop_all [of "[]" "dp_ports dp"] assms
  by (simp add: dp_handle_port_stats_req_def port_stats_request_of_def entries_set_def PORT_STATS_ENTRY_LEN_def
      OF_WIRE_BUFFER_MAX_LENGTH_def access_error_def)

text \<open>A debug build aborts on a features request, which is handled as a port description.\<close>

lemma features_request_aborts:
  "dp_handle_port_desc False dp \<lparr>object_id = OF_FEATURES_REQUEST, of_xid = xid, of_body = No_Body\<rparr> = Inl Abort"
  by (simp add: dp_handle_port_desc_def loci_assert_def)

text \<open>A request for flow statistics is answered as if it asked for all flows of table 0.\<close>

lemma flow_stats_ignores_request:
  "dp_handle_flow_stats_req mem dp \<lparr>object_id = oid, of_xid = xid, of_body = Stats_Request sr\<rparr> time =
   dp_handle_flow_stats_req mem' dp \<lparr>object_id = oid, of_xid = xid, of_body = Stats_Request sr'\<rparr> time"
  if "snd mem = snd mem'"
  using that
  by (cases "dp_get_stats_flows dp zero_req ([], 1) time")
    (simp_all add: dp_handle_flow_stats_req_def stats_request_of_def split_beta Let_def)

text \<open>The mask of a write-metadata instruction is ignored.\<close>

lemma metadata_mask_ignored:
  assumes "instruction_is_active is INSTRUCTION_WRITE_METADATA" "\<not> instruction_is_active is INSTRUCTION_APPLY_ACTIONS"
  shows "\<exists>t nf' as'. execute_instructions is 0 nf as = Inr (t, nf', as') \<and> metadata (nf_match nf') = wm_metadata (write_meta is)"
  using assms by (simp add: execute_instructions_def Let_def upd_match_def)

end
