(* ===== verification/Arp_Table.thy ===== *)
theory Arp_Table
  imports Containers Flow
begin

section \<open>ARP tables (net/arp\_table)\<close>

text \<open>
  The table of a host or router from IPv4 addresses to the link addresses it has learnt.  An entry
  is added without a look at what the table holds, so an address may have two entries; a lookup then
  returns the one added last, as long as the table has not grown in between (see the theory of the
  containers).
\<close>

subsection \<open>Definitions\<close>

definition ARP_REQUEST :: u16 where "ARP_REQUEST = 1"
definition ARP_REPLY :: u16 where "ARP_REPLY = 2"

record arp_table_entry =
  ae_ip :: u32
  ae_eth_addr :: bytes
  ae_iface :: u32

record arp_table =
  at_entries :: "arp_table_entry list"

definition arp_table_init :: arp_table where
  "arp_table_init = \<lparr>at_entries = []\<rparr>"

definition arp_table_add_entry :: "arp_table \<Rightarrow> arp_table_entry \<Rightarrow> arp_table" where
  "arp_table_add_entry at e = at\<lparr>at_entries := HASH_ADD (at_entries at) e\<rparr>"

definition arp_table_clean :: "arp_table \<Rightarrow> arp_table" where
  "arp_table_clean at = at\<lparr>at_entries := foldl (HASH_DEL ae_ip) (at_entries at) (map ae_ip (at_entries at))\<rparr>"

definition arp_table_lookup :: "arp_table \<Rightarrow> u32 \<Rightarrow> arp_table_entry option" where
  "arp_table_lookup at ip = HASH_FIND ae_ip (at_entries at) ip"

definition arp_table_entry_new :: "u32 \<Rightarrow> bytes \<Rightarrow> u32 \<Rightarrow> arp_table_entry" where
  "arp_table_entry_new ip eth_addr iface =
     \<lparr>ae_ip = ip, ae_eth_addr = take ETH_LEN eth_addr, ae_iface = iface\<rparr>"

subsection \<open>Lookups\<close>

lemma arp_table_lookup_init [simp]: "arp_table_lookup arp_table_init ip = None"
  by (simp add: arp_table_lookup_def arp_table_init_def HASH_FIND_def)

lemma arp_table_lookup_add [simp]:
  "arp_table_lookup (arp_table_add_entry at e) ip = (if ae_ip e = ip then Some e else arp_table_lookup at ip)"
  by (simp add: arp_table_lookup_def arp_table_add_entry_def HASH_FIND_def HASH_ADD_def)

lemma arp_table_entry_new_simps [simp]:
  "ae_ip (arp_table_entry_new ip eth iface) = ip"
  "ae_eth_addr (arp_table_entry_new ip eth iface) = take ETH_LEN eth"
  "ae_iface (arp_table_entry_new ip eth iface) = iface"
  by (simp_all add: arp_table_entry_new_def)

lemma arp_table_lookup_ip: "arp_table_lookup at ip = Some e \<Longrightarrow> ae_ip e = ip \<and> e \<in> set (at_entries at)"
  unfolding arp_table_lookup_def HASH_FIND_def find_Some_iff by (metis nth_mem set_rev)

text \<open>The cleaned table is empty, duplicates included: every step deletes one entry of the key.\<close>

lemma foldl_HASH_DEL_empty: "foldl (HASH_DEL key) t (map key t) = []"
proof -
  have "mset (map key (foldl (HASH_DEL key) t ks)) = mset (map key t) - mset ks" if "mset ks \<subseteq># mset (map key t)" for ks
    using that
  proof (induction ks arbitrary: t)
    case (Cons k ks)
    then have "k \<in> set (map key t)"
      by (metis list.set_intros(1) mset_subset_eqD set_mset_mset)
    then obtain x where x: "find (\<lambda>e. key e = k) (rev t) = Some x"
      by (cases "find (\<lambda>e. key e = k) (rev t)") (auto simp: find_None_iff)
    then have "key x = k"
      by (auto simp: find_Some_iff)
    moreover have "mset t = add_mset x (mset (HASH_DEL key t k))"
      using mset_ll_remove [OF x] by (simp add: HASH_DEL_def)
    ultimately have m: "mset (map key t) = add_mset k (mset (map key (HASH_DEL key t k)))"
      by simp
    then show ?case
      using Cons.IH [of "HASH_DEL key t k"] Cons.prems by simp
  qed simp
  from this [of "map key t"] show ?thesis
    by simp
qed

lemma arp_table_clean_empty: "at_entries (arp_table_clean at) = []"
  by (simp add: arp_table_clean_def foldl_HASH_DEL_empty)

end
