(* ===== verification/Patricia.thy ===== *)
theory Patricia
  imports Prelude "HOL-Library.Sublist"
begin

section \<open>Patricia tries\<close>

text \<open>
  The trie behind the routing tables, from the bundled \<open>patricia.c\<close>: its nodes test one bit of an
  address each, its inner nodes may carry no prefix, and a lookup creates the node of a prefix.  A
  pointer to a node is a zipper: the subtree at the node and the path of its parents.  The theory
  shows that a lookup adds exactly its prefix to the prefixes of the trie and that a search returns
  the longest stored prefix of an address.
\<close>

subsection \<open>Definitions\<close>

text \<open>A prefix: its address as bytes in network order and its length in bits.  Reference counts only
  manage memory and are left out.\<close>

record prefix_t =
  pfx_add :: bytes
  pfx_bitlen :: nat

definition New_Prefix :: "bytes \<Rightarrow> nat \<Rightarrow> prefix_t" where
  "New_Prefix dest bitlen = \<lparr>pfx_add = dest, pfx_bitlen = bitlen\<rparr>"

definition BIT_TEST :: "u8 \<Rightarrow> u8 \<Rightarrow> bool" where
  "BIT_TEST f b \<longleftrightarrow> f AND b \<noteq> 0"

definition addr_bit :: "bytes \<Rightarrow> nat \<Rightarrow> bool" where
  "addr_bit addr b = BIT_TEST (addr ! (b div 8)) (drop_bit (b mod 8) 0x80)"

definition comp_with_mask :: "bytes \<Rightarrow> bytes \<Rightarrow> nat \<Rightarrow> bool" where
  "comp_with_mask addr dest m \<longleftrightarrow>
     take (m div 8) addr = take (m div 8) dest \<and>
     (let n = m div 8; k = push_bit (8 - m mod 8) (- 1) in
      m mod 8 = 0 \<or> addr ! n AND k = dest ! n AND k)"

text \<open>\<open>Null\<close> is the NULL pointer; the parent pointers are the frames of a path.\<close>

datatype 'a ptree = Null | Node nat "prefix_t option" "'a option" "'a ptree" "'a ptree"

datatype 'a frame =
    Left_Of nat "prefix_t option" "'a option" "'a ptree"
  | Right_Of nat "prefix_t option" "'a option" "'a ptree"

type_synonym 'a pptr = "'a frame list \<times> 'a ptree"

fun plug1 :: "'a frame \<Rightarrow> 'a ptree \<Rightarrow> 'a ptree" where
  "plug1 (Left_Of b p d r) t = Node b p d t r"
| "plug1 (Right_Of b p d l) t = Node b p d l t"

fun plug :: "'a frame list \<Rightarrow> 'a ptree \<Rightarrow> 'a ptree" where
  "plug [] t = t"
| "plug (fr # path) t = plug path (plug1 fr t)"

fun frame_bit :: "'a frame \<Rightarrow> nat" where
  "frame_bit (Left_Of b p d r) = b"
| "frame_bit (Right_Of b p d l) = b"

definition PATRICIA_MAXBITS :: nat where "PATRICIA_MAXBITS = 128"

text \<open>The search for the best match: the nodes with a prefix on the way go to an array.\<close>

fun best_walk :: "bytes \<Rightarrow> nat \<Rightarrow> 'a ptree \<Rightarrow> 'a ptree list \<Rightarrow> ('a ptree list \<times> 'a ptree) res" where
  "best_walk addr bitlen Null stack = Inr (stack, Null)"
| "best_walk addr bitlen (Node b p d l r) stack =
     (if b < bitlen then
        if p \<noteq> None \<and> length stack = PATRICIA_MAXBITS + 1 then Inl Out_Of_Bounds
        else best_walk addr bitlen (if addr_bit addr b then r else l)
               (if p \<noteq> None then Node b p d l r # stack else stack)
      else Inr (stack, Node b p d l r))"

fun node_prefix :: "'a ptree \<Rightarrow> prefix_t option" where
  "node_prefix Null = None"
| "node_prefix (Node b p d l r) = p"

fun node_data :: "'a ptree \<Rightarrow> 'a option" where
  "node_data Null = None"
| "node_data (Node b p d l r) = d"

fun pop_best :: "bytes \<Rightarrow> 'a ptree list \<Rightarrow> 'a ptree option" where
  "pop_best addr [] = None"
| "pop_best addr (node # stack) =
     (case node_prefix node of
        None \<Rightarrow> pop_best addr stack
      | Some x \<Rightarrow>
          if comp_with_mask (pfx_add x) addr (pfx_bitlen x) then Some node else pop_best addr stack)"

definition patricia_search_best2 :: "'a ptree \<Rightarrow> prefix_t \<Rightarrow> bool \<Rightarrow> 'a ptree option res" where
  "patricia_search_best2 head pfx inclusive =
     rbind (best_walk (pfx_add pfx) (pfx_bitlen pfx) head []) (\<lambda>(stack, node).
       if inclusive \<and> node_prefix node \<noteq> None then
         if length stack = PATRICIA_MAXBITS + 1 then Inl Out_Of_Bounds
         else Inr (pop_best (pfx_add pfx) (node # stack))
       else Inr (pop_best (pfx_add pfx) stack))"

definition patricia_search_best :: "'a ptree \<Rightarrow> prefix_t \<Rightarrow> 'a ptree option res" where
  "patricia_search_best head pfx = patricia_search_best2 head pfx True"

fun exact_walk :: "bytes \<Rightarrow> nat \<Rightarrow> 'a ptree \<Rightarrow> 'a ptree" where
  "exact_walk addr bitlen Null = Null"
| "exact_walk addr bitlen (Node b p d l r) =
     (if b < bitlen then exact_walk addr bitlen (if addr_bit addr b then r else l) else Node b p d l r)"

definition patricia_search_exact :: "nat \<Rightarrow> 'a ptree \<Rightarrow> prefix_t \<Rightarrow> 'a ptree option res" where
  "patricia_search_exact maxbits head pfx =
     (if pfx_bitlen pfx > maxbits then Inl Abort
      else case exact_walk (pfx_add pfx) (pfx_bitlen pfx) head of
        Null \<Rightarrow> Inr None
      | Node b p d l r \<Rightarrow>
          (case p of
             None \<Rightarrow> Inr None
           | Some x \<Rightarrow>
               if b > pfx_bitlen pfx then Inr None
               else if b \<noteq> pfx_bitlen x then Inl Abort
               else if comp_with_mask (pfx_add x) (pfx_add pfx) (pfx_bitlen pfx)
               then Inr (Some (Node b p d l r)) else Inr None))"

text \<open>The lookup goes down to a node with a prefix, finds the first bit that differs, goes up to the
  node below which the new one belongs, and links it there.\<close>

fun descend :: "bytes \<Rightarrow> nat \<Rightarrow> nat \<Rightarrow> 'a frame list \<Rightarrow> 'a ptree \<Rightarrow> 'a pptr" where
  "descend addr bitlen maxbits path Null = (path, Null)"
| "descend addr bitlen maxbits path (Node b p d l r) =
     (if b < bitlen \<or> p = None then
        if b < maxbits \<and> addr_bit addr b then
          if r = Null then (path, Node b p d l r) else descend addr bitlen maxbits (Right_Of b p d l # path) r
        else
          if l = Null then (path, Node b p d l r) else descend addr bitlen maxbits (Left_Of b p d r # path) l
      else (path, Node b p d l r))"

definition first_bit :: "u8 \<Rightarrow> nat" where
  "first_bit r = (case find (\<lambda>j. BIT_TEST r (drop_bit j 0x80)) [0..<8] of None \<Rightarrow> 8 | Some j \<Rightarrow> j)"

function differ_loop :: "bytes \<Rightarrow> bytes \<Rightarrow> nat \<Rightarrow> nat \<Rightarrow> nat \<Rightarrow> nat" where
  "differ_loop addr test_addr check_bit i differ_bit =
     (if i * 8 < check_bit then
        if addr ! i XOR test_addr ! i = 0
        then differ_loop addr test_addr check_bit (i + 1) ((i + 1) * 8)
        else i * 8 + first_bit (addr ! i XOR test_addr ! i)
      else differ_bit)"
  by pat_completeness auto
termination
  by (relation "measure (\<lambda>(addr, test_addr, check_bit, i, differ_bit). check_bit - i)") auto

declare differ_loop.simps [simp del]

fun climb :: "nat \<Rightarrow> 'a frame list \<Rightarrow> 'a ptree \<Rightarrow> 'a pptr" where
  "climb differ_bit [] node = ([], node)"
| "climb differ_bit (fr # path) node =
     (if frame_bit fr \<ge> differ_bit then climb differ_bit path (plug1 fr node) else (fr # path, node))"

definition link_node :: "nat \<Rightarrow> prefix_t \<Rightarrow> bytes \<Rightarrow> nat \<Rightarrow> 'a pptr \<Rightarrow> 'a pptr res" where
  "link_node maxbits pfx test_addr differ_bit at =
     (case at of
        (path, Null) \<Rightarrow> Inl Null_Deref
      | (path, Node b p d l r) \<Rightarrow>
          let addr = pfx_add pfx; bitlen = pfx_bitlen pfx; node = Node b p d l r;
              new_node = Node bitlen (Some pfx) None Null Null in
          if differ_bit = bitlen \<and> b = bitlen then
            (case p of
               Some _ \<Rightarrow> Inr (path, node)
             | None \<Rightarrow> if d = None then Inr (path, Node b (Some pfx) d l r) else Inl Abort)
          else if b = differ_bit then
            if b < maxbits \<and> addr_bit addr b
            then if r = Null then Inr (Right_Of b p d l # path, new_node) else Inl Abort
            else if l = Null then Inr (Left_Of b p d r # path, new_node) else Inl Abort
          else if bitlen = differ_bit then
            if bitlen < maxbits \<and> addr_bit test_addr bitlen
            then Inr (path, Node bitlen (Some pfx) None Null node)
            else Inr (path, Node bitlen (Some pfx) None node Null)
          else
            if differ_bit < maxbits \<and> addr_bit addr differ_bit
            then Inr (Right_Of differ_bit None None node # path, new_node)
            else Inr (Left_Of differ_bit None None node # path, new_node))"

definition patricia_lookup :: "nat \<Rightarrow> 'a ptree \<Rightarrow> prefix_t \<Rightarrow> 'a pptr res" where
  "patricia_lookup maxbits head pfx =
     (if head = Null then Inr ([], Node (pfx_bitlen pfx) (Some pfx) None Null Null)
      else
        let bitlen = pfx_bitlen pfx; (path, node) = descend (pfx_add pfx) bitlen maxbits [] head in
        case node of
          Null \<Rightarrow> Inl Null_Deref
        | Node b p d l r \<Rightarrow>
            (case p of
               None \<Rightarrow> Inl Abort
             | Some x \<Rightarrow>
                 let test_addr = pfx_add x;
                     check_bit = (if b < bitlen then b else bitlen);
                     differ_bit = min (differ_loop (pfx_add pfx) test_addr check_bit 0 0) check_bit
                 in link_node maxbits pfx test_addr differ_bit (climb differ_bit path node)))"

text \<open>A write of the data of the node a pointer refers to.\<close>

fun set_data :: "'a option \<Rightarrow> 'a ptree \<Rightarrow> 'a ptree" where
  "set_data v Null = Null"
| "set_data v (Node b p d l r) = Node b p v l r"

subsection \<open>Bits of addresses\<close>

lemma BIT_TEST_bit: "j < 8 \<Longrightarrow> BIT_TEST f (drop_bit j 0x80) \<longleftrightarrow> bit f (7 - j)"
proof -
  assume "j < 8"
  have "drop_bit j (0x80 :: u8) = push_bit (7 - j) 1"
  proof (rule bit_word_eqI)
    fix n assume "n < LENGTH(8)"
    have e: "(0x80 :: u8) = push_bit 7 1"
      by simp
    show "bit (drop_bit j (0x80 :: u8)) n = bit (push_bit (7 - j) (1 :: u8)) n"
      using \<open>j < 8\<close> \<open>n < LENGTH(8)\<close> unfolding bit_drop_bit_eq e
      by (auto simp: bit_simps simp del: push_bit_of_1 push_bit_numeral)
  qed
  then show ?thesis
    by (simp add: BIT_TEST_def and_exp_eq_0_iff_not_bit push_bit_eq_mult)
qed

lemma addr_bit_eq: "addr_bit addr b = bit (addr ! (b div 8)) (7 - b mod 8)"
  by (simp add: addr_bit_def BIT_TEST_bit)

lemma byte_eq_bits: "x = y \<longleftrightarrow> (\<forall>j < 8. bit x (7 - j) = bit y (7 - j))" for x y :: u8
proof
  assume bits: "\<forall>j < 8. bit x (7 - j) = bit y (7 - j)"
  show "x = y"
  proof (rule bit_word_eqI)
    fix n assume "n < LENGTH(8)"
    then show "bit x n = bit y n"
      using bits [rule_format, of "7 - n"] by simp
  qed
qed simp

definition same_bits :: "bytes \<Rightarrow> bytes \<Rightarrow> nat \<Rightarrow> bool" where
  "same_bits a t m \<longleftrightarrow> (\<forall>k < m. addr_bit a k = addr_bit t k)"

lemma same_bits_bytes: "same_bits a t (8 * n) \<longleftrightarrow> (\<forall>i < n. a ! i = t ! i)"
proof -
  have "same_bits a t (8 * n) \<longleftrightarrow> (\<forall>i < n. \<forall>j < 8. addr_bit a (8 * i + j) = addr_bit t (8 * i + j))"
  proof
    assume eq: "\<forall>i < n. \<forall>j < 8. addr_bit a (8 * i + j) = addr_bit t (8 * i + j)"
    show "same_bits a t (8 * n)"
      unfolding same_bits_def
    proof (intro allI impI)
      fix k assume "k < 8 * n"
      then have "k div 8 < n" "k mod 8 < 8"
        by auto
      then have "addr_bit a (8 * (k div 8) + k mod 8) = addr_bit t (8 * (k div 8) + k mod 8)"
        using eq by blast
      then show "addr_bit a k = addr_bit t k"
        by simp
    qed
  qed (auto simp: same_bits_def)
  then show ?thesis
    by (simp add: addr_bit_eq byte_eq_bits)
qed

lemma same_bits_split: "same_bits a t m \<longleftrightarrow> same_bits a t (8 * (m div 8)) \<and>
    (\<forall>j < m mod 8. addr_bit a (8 * (m div 8) + j) = addr_bit t (8 * (m div 8) + j))"
proof -
  have "(\<forall>k < q + r. P k) \<longleftrightarrow> (\<forall>k < q. P k) \<and> (\<forall>j < r. P (q + j))" for q r :: nat and P
    by (metis add_less_cancel_left le_add_diff_inverse linorder_not_less trans_less_add1)
  from this [of "8 * (m div 8)" "m mod 8" "\<lambda>k. addr_bit a k = addr_bit t k"] show ?thesis
    by (simp add: same_bits_def)
qed

lemma high_bits_eq:
  fixes x y :: u8
  assumes "0 < r" "r < 8"
  shows "x AND push_bit (8 - r) (- 1) = y AND push_bit (8 - r) (- 1) \<longleftrightarrow> (\<forall>j < r. bit x (7 - j) = bit y (7 - j))"
proof
  assume eq: "x AND push_bit (8 - r) (- 1) = y AND push_bit (8 - r) (- 1)"
  show "\<forall>j < r. bit x (7 - j) = bit y (7 - j)"
  proof (intro allI impI)
    fix j assume "j < r"
    then show "bit x (7 - j) = bit y (7 - j)"
      using arg_cong [OF eq, of "\<lambda>w. bit w (7 - j)"] assms by (auto simp: bit_simps)
  qed
next
  assume bits: "\<forall>j < r. bit x (7 - j) = bit y (7 - j)"
  show "x AND push_bit (8 - r) (- 1) = y AND push_bit (8 - r) (- 1)"
  proof (rule bit_word_eqI)
    fix n assume "n < LENGTH(8)"
    then show "bit (x AND push_bit (8 - r) (- 1)) n = bit (y AND push_bit (8 - r) (- 1)) n"
      using bits [rule_format, of "7 - n"] assms by (auto simp: bit_simps)
  qed
qed

lemma comp_with_mask_bits:
  assumes "m \<le> 8 * length a" "length t = length a"
  shows "comp_with_mask a t m \<longleftrightarrow> same_bits a t m"
proof -
  have "take (m div 8) a = take (m div 8) t \<longleftrightarrow> (\<forall>i < m div 8. a ! i = t ! i)"
    using assms by (auto simp: list_eq_iff_nth_eq)
  then have "take (m div 8) a = take (m div 8) t \<longleftrightarrow> same_bits a t (8 * (m div 8))"
    by (simp add: same_bits_bytes)
  moreover have "m mod 8 \<noteq> 0 \<Longrightarrow> a ! (m div 8) AND push_bit (8 - m mod 8) (- 1) = t ! (m div 8) AND push_bit (8 - m mod 8) (- 1) \<longleftrightarrow>
      (\<forall>j < m mod 8. addr_bit a (8 * (m div 8) + j) = addr_bit t (8 * (m div 8) + j))"
  proof -
    assume "m mod 8 \<noteq> 0"
    have "j < m mod 8 \<Longrightarrow> addr_bit u (8 * (m div 8) + j) = bit (u ! (m div 8)) (7 - j)" for j u
    proof -
      assume "j < m mod 8"
      then have "j < 8"
        by (meson less_trans mod_less_divisor zero_less_numeral)
      then show "addr_bit u (8 * (m div 8) + j) = bit (u ! (m div 8)) (7 - j)"
        by (simp add: addr_bit_eq)
    qed
    then show ?thesis
      using high_bits_eq [of "m mod 8"] \<open>m mod 8 \<noteq> 0\<close> by simp
  qed
  ultimately show ?thesis
    unfolding comp_with_mask_def Let_def same_bits_split [of a t m] by (cases "m mod 8 = 0") simp_all
qed

lemma first_bit_spec:
  assumes "r \<noteq> 0"
  shows "first_bit r < 8" "bit r (7 - first_bit r)" "\<forall>j < first_bit r. \<not> bit r (7 - j)"
proof -
  obtain j where j: "j < 8" "bit r (7 - j)"
    using assms byte_eq_bits [of r 0] by auto
  have "find (\<lambda>j. BIT_TEST r (drop_bit j 0x80)) [0..<8] \<noteq> None"
    using j BIT_TEST_bit [OF j(1), of r] unfolding find_None_iff by force
  then obtain i where i: "find (\<lambda>j. BIT_TEST r (drop_bit j 0x80)) [0..<8] = Some i"
    by blast
  then have first: "first_bit r = i"
    by (simp add: first_bit_def)
  have "i < 8" "BIT_TEST r (drop_bit i 0x80)" "\<forall>j < i. \<not> BIT_TEST r (drop_bit j 0x80)"
    using i by (auto simp: find_Some_iff)
  then show "first_bit r < 8" "bit r (7 - first_bit r)" "\<forall>j < first_bit r. \<not> bit r (7 - j)"
    using BIT_TEST_bit first by auto
qed

lemma same_bits_mono: "same_bits a t m \<Longrightarrow> n \<le> m \<Longrightarrow> same_bits a t n"
  by (simp add: same_bits_def)

lemma same_bits_Suc: "same_bits a t (Suc m) \<longleftrightarrow> same_bits a t m \<and> addr_bit a m = addr_bit t m"
  by (auto simp: same_bits_def less_Suc_eq)

lemma differ_byte:
  assumes "same_bits a t (8 * i)" "a ! i XOR t ! i \<noteq> 0"
  defines "d \<equiv> 8 * i + first_bit (a ! i XOR t ! i)"
  shows "same_bits a t d" "addr_bit a d \<noteq> addr_bit t d"
proof -
  let ?r = "a ! i XOR t ! i"
  note fb = first_bit_spec [OF assms(2)]
  have bit: "addr_bit u (8 * i + j) = bit (u ! i) (7 - j)" if "j < 8" for u j
    using that by (simp add: addr_bit_eq)
  have diff: "bit ?r (7 - j) \<longleftrightarrow> addr_bit a (8 * i + j) \<noteq> addr_bit t (8 * i + j)" if "j < 8" for j
    using that by (simp add: bit bit_xor_iff)
  show "addr_bit a d \<noteq> addr_bit t d"
    using diff [OF fb(1)] fb(2) by (simp add: d_def)
  have "addr_bit a k = addr_bit t k" if "k < d" for k
  proof (cases "k < 8 * i")
    case True
    then show ?thesis
      using assms(1) by (simp add: same_bits_def)
  next
    case False
    then have "k = 8 * i + (k - 8 * i)" "k - 8 * i < first_bit ?r"
      using that unfolding d_def by linarith+
    then obtain j where "k = 8 * i + j" "j < first_bit ?r"
      by blast
    then show ?thesis
      using diff [of j] fb(1,3) by simp
  qed
  then show "same_bits a t d"
    by (simp add: same_bits_def)
qed

lemma xor_zero_eq: "x XOR y = 0 \<Longrightarrow> x = y" for x y :: u8
proof (rule bit_word_eqI)
  fix n assume "x XOR y = 0"
  then have "\<not> bit (x XOR y) n"
    by simp
  then show "bit x n = bit y n"
    by (simp add: bit_xor_iff)
qed

lemma differ_loop_spec:
  fixes check :: nat
  assumes "same_bits a t (8 * i)"
  defines "d \<equiv> min (differ_loop a t check i (8 * i)) check"
  shows "same_bits a t d \<and> d \<le> check \<and> (d < check \<longrightarrow> addr_bit a d \<noteq> addr_bit t d)"
  using assms(1) unfolding d_def
proof (induction "check - i" arbitrary: i rule: less_induct)
  case less
  show ?case
  proof (cases "i * 8 < check")
    case True
    show ?thesis
    proof (cases "a ! i XOR t ! i = 0")
      case eq: True
      then have "a ! i = t ! i"
        by (rule xor_zero_eq)
      then have "same_bits a t (8 * (i + 1))"
        using less.prems unfolding same_bits_bytes by (auto simp: less_Suc_eq)
      then show ?thesis
        using less.hyps [of "i + 1"] True eq by (simp add: differ_loop.simps [of a t check i] mult.commute)
    next
      case False
      let ?d = "8 * i + first_bit (a ! i XOR t ! i)"
      have "differ_loop a t check i (8 * i) = ?d"
        using True False by (simp add: differ_loop.simps [of a t check i])
      then show ?thesis
        using differ_byte [OF less.prems False] same_bits_mono [OF differ_byte(1) [OF less.prems False], of check]
        by (cases "?d < check") simp_all
    qed
  next
    case False
    then show ?thesis
      using same_bits_mono [OF less.prems, of check] less.prems by (simp add: differ_loop.simps [of a t check i] min_def)
  qed
qed

subsection \<open>Keys and entries\<close>

text \<open>The key of a prefix is the list of its bits; a trie stores the data of some keys.\<close>

definition key :: "prefix_t \<Rightarrow> bool list" where
  "key x = map (addr_bit (pfx_add x)) [0..<pfx_bitlen x]"

definition pfx_ok :: "nat \<Rightarrow> prefix_t \<Rightarrow> bool" where
  "pfx_ok M x \<longleftrightarrow> pfx_bitlen x \<le> M \<and> 8 * length (pfx_add x) = M"

lemma length_key [simp]: "length (key x) = pfx_bitlen x"
  by (simp add: key_def)

lemma nth_key: "i < pfx_bitlen x \<Longrightarrow> key x ! i = addr_bit (pfx_add x) i"
  by (simp add: key_def)

lemma take_key_eq:
  "m \<le> pfx_bitlen x \<Longrightarrow> m \<le> pfx_bitlen y \<Longrightarrow>
     take m (key x) = take m (key y) \<longleftrightarrow> same_bits (pfx_add x) (pfx_add y) m"
  by (auto simp: list_eq_iff_nth_eq nth_key same_bits_def)

fun entries :: "'a ptree \<Rightarrow> (bool list \<times> 'a option) list" where
  "entries Null = []"
| "entries (Node b p d l r) = (case p of None \<Rightarrow> [] | Some x \<Rightarrow> [(key x, d)]) @ entries l @ entries r"

text \<open>Every key below a node extends the bits above it; a node without prefix has two children.\<close>

fun node_ok :: "nat \<Rightarrow> bool list \<Rightarrow> prefix_t option \<Rightarrow> 'a option \<Rightarrow> bool" where
  "node_ok M c (Some x) d \<longleftrightarrow> pfx_ok M x \<and> key x = c"
| "node_ok M c None d \<longleftrightarrow> d = None"

fun ptree_ok :: "nat \<Rightarrow> bool list \<Rightarrow> 'a ptree \<Rightarrow> bool" where
  "ptree_ok M c Null = True"
| "ptree_ok M c (Node b p d l r) =
     (\<exists>c'. length c' = b \<and> prefix c c' \<and> node_ok M c' p d \<and> (p = None \<longrightarrow> l \<noteq> Null \<and> r \<noteq> Null) \<and>
       ptree_ok M (c' @ [False]) l \<and> ptree_ok M (c' @ [True]) r)"

fun at_root :: "nat \<Rightarrow> bool list \<Rightarrow> bool list \<Rightarrow> 'a ptree \<Rightarrow> bool" where
  "at_root M c c' Null = False"
| "at_root M c c' (Node b p d l r) =
     (length c' = b \<and> prefix c c' \<and> node_ok M c' p d \<and> (p = None \<longrightarrow> l \<noteq> Null \<and> r \<noteq> Null) \<and>
       ptree_ok M (c' @ [False]) l \<and> ptree_ok M (c' @ [True]) r)"

lemma ptree_ok_root: "ptree_ok M c t \<longleftrightarrow> t = Null \<or> (\<exists>c'. at_root M c c' t)"
  by (cases t) auto

lemma at_root_ok: "at_root M c c' t \<Longrightarrow> ptree_ok M c t \<and> t \<noteq> Null \<and> prefix c c'"
  by (cases t) auto

lemma entries_extend: "ptree_ok M c t \<Longrightarrow> (k, d) \<in> set (entries t) \<Longrightarrow> prefix c k \<and> length k \<le> M"
proof (induction t arbitrary: c)
  case (Node b p d' l r)
  then obtain c' where c': "prefix c c'" "node_ok M c' p d'" "ptree_ok M (c' @ [False]) l" "ptree_ok M (c' @ [True]) r"
    by auto
  consider x where "p = Some x" "k = key x" | "(k, d) \<in> set (entries l)" | "(k, d) \<in> set (entries r)"
    using Node.prems(2) by (auto split: option.splits)
  then show ?case
  proof cases
    case 1
    then show ?thesis
      using c' by (auto simp: pfx_ok_def)
  next
    case 2
    then show ?thesis
      using Node.IH(1) [OF c'(3)] c'(1) by (meson append_prefixD prefix_order.trans)
  next
    case 3
    then show ?thesis
      using Node.IH(2) [OF c'(4)] c'(1) by (meson append_prefixD prefix_order.trans)
  qed
qed simp

lemma entries_side: "ptree_ok M (c @ [s]) t \<Longrightarrow> (k, d) \<in> set (entries t) \<Longrightarrow> length c < length k \<and> k ! length c = s \<and> prefix c k"
  using entries_extend [of M "c @ [s]" t k d] by (auto simp: prefix_def nth_append)

lemma entries_nonempty: "ptree_ok M c t \<Longrightarrow> t \<noteq> Null \<Longrightarrow> entries t \<noteq> []"
proof (induction t arbitrary: c)
  case (Node b p d l r)
  then show ?case
    by (cases p) auto
qed simp

lemma distinct_entries: "ptree_ok M c t \<Longrightarrow> distinct (map fst (entries t))"
proof (induction t arbitrary: c)
  case (Node b p d l r)
  then obtain c' where c': "node_ok M c' p d" "ptree_ok M (c' @ [False]) l" "ptree_ok M (c' @ [True]) r"
    by auto
  have l: "length c' < length k \<and> \<not> k ! length c'" if "k \<in> fst ` set (entries l)" for k
    using entries_side [OF c'(2)] that by fastforce
  have r: "length c' < length k \<and> k ! length c'" if "k \<in> fst ` set (entries r)" for k
    using entries_side [OF c'(3)] that by fastforce
  have "p = Some x \<Longrightarrow> length (key x) = length c'" for x
    using c'(1) by auto
  then show ?case
    using Node.IH(1) [OF c'(2)] Node.IH(2) [OF c'(3)] l r
    by (auto split: option.splits dest!: l r)
qed simp

subsection \<open>Pointers into a trie\<close>

text \<open>A path is well formed with the bits that lead to its hole.\<close>

fun path_ok :: "nat \<Rightarrow> 'a frame list \<Rightarrow> bool list \<Rightarrow> bool" where
  "path_ok M [] c = (c = [])"
| "path_ok M (Left_Of b p d r # path) c =
     (\<exists>c' c0. c = c' @ [False] \<and> length c' = b \<and> prefix c0 c' \<and> node_ok M c' p d \<and> (p = None \<longrightarrow> r \<noteq> Null) \<and>
       ptree_ok M (c' @ [True]) r \<and> path_ok M path c0)"
| "path_ok M (Right_Of b p d l # path) c =
     (\<exists>c' c0. c = c' @ [True] \<and> length c' = b \<and> prefix c0 c' \<and> node_ok M c' p d \<and> (p = None \<longrightarrow> l \<noteq> Null) \<and>
       ptree_ok M (c' @ [False]) l \<and> path_ok M path c0)"

fun frame_entries :: "'a frame \<Rightarrow> (bool list \<times> 'a option) list" where
  "frame_entries (Left_Of b p d r) = (case p of None \<Rightarrow> [] | Some x \<Rightarrow> [(key x, d)]) @ entries r"
| "frame_entries (Right_Of b p d l) = (case p of None \<Rightarrow> [] | Some x \<Rightarrow> [(key x, d)]) @ entries l"

lemma entries_plug1: "mset (entries (plug1 fr t)) = mset (frame_entries fr) + mset (entries t)"
  by (cases fr) auto

lemma entries_plug: "mset (entries (plug path t)) = mset (concat (map frame_entries path)) + mset (entries t)"
  by (induction path arbitrary: t) (simp_all add: entries_plug1)

text \<open>A frame put back on a tree is a tree whose root has the bits above the hole.\<close>

lemma plug1_root:
  assumes "path_ok M (fr # path) c" "at_root M c c1 t"
  shows "\<exists>c' c0. path_ok M path c0 \<and> at_root M c0 c' (plug1 fr t) \<and> length c' = frame_bit fr \<and>
    (\<exists>s. c = c' @ [s] \<and> (s \<longleftrightarrow> (\<exists>b p d l. fr = Right_Of b p d l)))"
  using assms at_root_ok [OF assms(2)] by (cases fr) auto

lemma plug_ok:
  assumes "path_ok M path c" "at_root M c c1 t"
  shows "ptree_ok M [] (plug path t)"
  using assms
proof (induction path arbitrary: c c1 t)
  case Nil
  then show ?case
    using at_root_ok by auto
next
  case (Cons fr path)
  then show ?case
    using plug1_root by (metis plug.simps(2))
qed

definition turn :: "nat \<Rightarrow> bytes \<Rightarrow> nat \<Rightarrow> bool" where
  "turn M addr b \<longleftrightarrow> b < M \<and> addr_bit addr b"

text \<open>The bits above the hole are those the address took.\<close>

definition follows :: "nat \<Rightarrow> bytes \<Rightarrow> 'a frame list \<Rightarrow> bool" where
  "follows M addr path \<longleftrightarrow>
     (\<forall>fr \<in> set path. (\<exists>b p d l. fr = Right_Of b p d l) \<longleftrightarrow> turn M addr (frame_bit fr))"

fun child :: "bool \<Rightarrow> 'a ptree \<Rightarrow> 'a ptree" where
  "child s Null = Null"
| "child s (Node b p d l r) = (if s then r else l)"

fun node_bit :: "'a ptree \<Rightarrow> nat" where
  "node_bit Null = 0"
| "node_bit (Node b p d l r) = b"

lemma descend_ok:
  assumes "path_ok M path c" "at_root M c c1 t" "follows M addr path"
  shows "\<exists>path' t' c' c1'. descend addr n M path t = (path', t') \<and> path_ok M path' c' \<and> at_root M c' c1' t' \<and>
    follows M addr path' \<and> plug path' t' = plug path t \<and> node_prefix t' \<noteq> None \<and>
    (n \<le> length c1' \<or> child (turn M addr (length c1')) t' = Null)"
  using assms
proof (induction t arbitrary: path c c1)
  case (Node b p d l r)
  note root = Node.prems(2)
  have b: "length c1 = b"
    using root by simp
  have stop: ?case if "descend addr n M path (Node b p d l r) = (path, Node b p d l r)" "p \<noteq> None"
      "n \<le> b \<or> child (turn M addr b) (Node b p d l r) = Null"
    using Node.prems b that by (metis node_prefix.simps(2))
  show ?case
  proof (cases "b < n \<or> p = None")
    case False
    then show ?thesis
      by (intro stop) auto
  next
    case go: True
    show ?thesis
    proof (cases "turn M addr b")
      case right: True
      show ?thesis
      proof (cases "r = Null")
        case True
        then show ?thesis
          using root go right by (intro stop) (auto simp: turn_def)
      next
        case False
        have "ptree_ok M (c1 @ [True]) r"
          using root by simp
        then obtain c2 where c2: "at_root M (c1 @ [True]) c2 r"
          using False ptree_ok_root by blast
        have "path_ok M (Right_Of b p d l # path) (c1 @ [True])"
          using root Node.prems(1) by auto
        moreover have "follows M addr (Right_Of b p d l # path)"
          using Node.prems(3) right by (simp add: follows_def)
        moreover have "descend addr n M path (Node b p d l r) = descend addr n M (Right_Of b p d l # path) r"
          using go right False by (simp add: turn_def)
        ultimately show ?thesis
          using Node.IH(2) [OF _ c2, of "Right_Of b p d l # path"] by simp
      qed
    next
      case left: False
      show ?thesis
      proof (cases "l = Null")
        case True
        then show ?thesis
          using root go left by (intro stop) (auto simp: turn_def)
      next
        case False
        have "ptree_ok M (c1 @ [False]) l"
          using root by simp
        then obtain c2 where c2: "at_root M (c1 @ [False]) c2 l"
          using False ptree_ok_root by blast
        have "path_ok M (Left_Of b p d r # path) (c1 @ [False])"
          using root Node.prems(1) by auto
        moreover have "follows M addr (Left_Of b p d r # path)"
          using Node.prems(3) left by (simp add: follows_def)
        moreover have "descend addr n M path (Node b p d l r) = descend addr n M (Left_Of b p d r # path) l"
          using go left False by (auto simp: turn_def)
        ultimately show ?thesis
          using Node.IH(1) [OF _ c2, of "Left_Of b p d r # path"] by simp
      qed
    qed
  qed
qed simp

lemma climb_ok:
  assumes "path_ok M path c" "at_root M c c1 t" "follows M addr path" "prefix c1 nk" "e \<le> length c1"
  shows "\<exists>path' t' c' c1'. climb e path t = (path', t') \<and> path_ok M path' c' \<and> at_root M c' c1' t' \<and>
    plug path' t' = plug path t \<and> prefix c1' nk \<and> e \<le> length c1' \<and> length c' \<le> e \<and>
    (t' = t \<and> c1' = c1 \<or> length c1' < length nk \<and> nk ! length c1' = turn M addr (length c1'))"
proof -
  have "\<exists>path' t' c' c1'. climb e path t = (path', t') \<and> path_ok M path' c' \<and> at_root M c' c1' t' \<and>
    plug path' t' = plug path t \<and> prefix c1' nk \<and> e \<le> length c1' \<and> length c' \<le> e \<and>
    (t' = t0 \<and> c1' = c0 \<or> length c1' < length nk \<and> nk ! length c1' = turn M addr (length c1'))"
    if "t = t0 \<and> c1 = c0 \<or> length c1 < length nk \<and> nk ! length c1 = turn M addr (length c1)" for t0 c0
    using assms that
  proof (induction path arbitrary: c c1 t)
    case Nil
    then show ?case
      by auto
  next
    case (Cons fr path)
    obtain c' c00 s where fr: "path_ok M path c00" "at_root M c00 c' (plug1 fr t)" "length c' = frame_bit fr"
        "c = c' @ [s]" "s \<longleftrightarrow> (\<exists>b p d l. fr = Right_Of b p d l)"
      using plug1_root [OF Cons.prems(1,2)] by blast
    have "prefix c nk"
      using at_root_ok [OF Cons.prems(2)] Cons.prems(4) prefix_order.trans by blast
    then have nk: "length c' < length nk" "nk ! length c' = s" "prefix c' nk"
      using fr(4) by (auto simp: prefix_def nth_append)
    have s: "s = turn M addr (length c')"
      using Cons.prems(3) fr(3,5) by (simp add: follows_def)
    show ?case
    proof (cases "frame_bit fr \<ge> e")
      case True
      have "follows M addr path"
        using Cons.prems(3) by (simp add: follows_def)
      then show ?thesis
        using Cons.IH [OF fr(1,2) _ nk(3)] True nk s fr(3) by simp
    next
      case False
      then show ?thesis
        using Cons.prems fr(3,4) by (subst climb.simps) (metis Suc_leI length_append_singleton linorder_not_less)
    qed
  qed
  then show ?thesis
    by blast
qed

subsection \<open>Lookup\<close>

text \<open>A pointer to the node of a key.\<close>

definition points_to :: "nat \<Rightarrow> bool list \<Rightarrow> 'a pptr \<Rightarrow> bool" where
  "points_to M k ptr \<longleftrightarrow> (\<exists>c. path_ok M (fst ptr) c \<and> at_root M c k (snd ptr)) \<and> node_prefix (snd ptr) \<noteq> None"

lemma at_root_weaken: "at_root M c c1 t \<Longrightarrow> prefix c' c1 \<Longrightarrow> at_root M c' c1 t"
  by (cases t) auto

lemma prefix_take_snoc: "i < length k \<Longrightarrow> prefix (take i k @ [k ! i]) k"
  by (metis take_Suc_conv_app_nth take_is_prefix)

lemma prefix_take_of:
  "prefix c nk \<Longrightarrow> length c \<le> e \<Longrightarrow> take e k = take e nk \<Longrightarrow> prefix c (take e k)"
  by (auto simp: prefix_def)

definition new_leaf :: "prefix_t \<Rightarrow> 'a ptree" where
  "new_leaf pfx = Node (pfx_bitlen pfx) (Some pfx) None Null Null"

lemma new_leaf_root: "pfx_ok M pfx \<Longrightarrow> prefix c (key pfx) \<Longrightarrow> at_root M c (key pfx) (new_leaf pfx)"
  by (simp add: new_leaf_def)

text \<open>The outcome of linking: a pointer to the key, and the entries of before, with an entry
  without data for the key when it had none.\<close>

definition linked :: "nat \<Rightarrow> bool list \<Rightarrow> 'a ptree \<Rightarrow> 'a pptr \<Rightarrow> bool" where
  "linked M k old ptr \<longleftrightarrow> points_to M k ptr \<and>
     (let new = plug (fst ptr) (snd ptr) in
      mset (entries new) = mset (entries old) \<or>
      node_data (snd ptr) = None \<and> mset (entries new) = add_mset (k, None) (mset (entries old)))"

lemma linked_leaf:
  assumes "path_ok M path c" "pfx_ok M pfx" "prefix c (key pfx)"
    and "mset (concat (map frame_entries path)) = mset (entries old)"
  shows "linked M (key pfx) old (path, new_leaf pfx)"
  using assms new_leaf_root [OF assms(2,3)]
  by (auto simp: linked_def points_to_def entries_plug new_leaf_def Let_def)

lemma link_below:
  assumes "path_ok M path c" "at_root M c c1 (Node b p d l r)" "pfx_ok M pfx"
    and "prefix (c1 @ [s]) (key pfx)" "child s (Node b p d l r) = Null"
  shows "linked M (key pfx) (plug path (Node b p d l r))
    ((if s then Right_Of b p d l else Left_Of b p d r) # path, new_leaf pfx)"
proof (rule linked_leaf [OF _ assms(3,4)])
  show "path_ok M ((if s then Right_Of b p d l else Left_Of b p d r) # path) (c1 @ [s])"
    using assms(1,2,5) by (cases s) auto
  show "mset (concat (map frame_entries ((if s then Right_Of b p d l else Left_Of b p d r) # path))) =
      mset (entries (plug path (Node b p d l r)))"
    using assms(5) by (cases s) (simp_all add: entries_plug)
qed

lemma link_above:
  assumes "path_ok M path c" "at_root M c c1 t" "pfx_ok M pfx" "prefix c (key pfx)" "prefix (key pfx @ [s]) c1"
  shows "linked M (key pfx) (plug path t)
    (path, Node (pfx_bitlen pfx) (Some pfx) None (if s then Null else t) (if s then t else Null))"
proof -
  have "ptree_ok M (key pfx @ [s]) t"
    using at_root_ok [OF at_root_weaken [OF assms(2,5)]] by blast
  then show ?thesis
    using assms by (cases s) (auto simp: linked_def points_to_def entries_plug Let_def)
qed

lemma link_glue:
  assumes "path_ok M path c" "at_root M c c1 t" "pfx_ok M pfx" "prefix c g"
    and "prefix (g @ [s]) (key pfx)" "prefix (g @ [\<not> s]) c1"
  shows "linked M (key pfx) (plug path t)
    ((if s then Right_Of (length g) None None t else Left_Of (length g) None None t) # path, new_leaf pfx)"
proof (rule linked_leaf [OF _ assms(3,5)])
  have "ptree_ok M (g @ [\<not> s]) t" "t \<noteq> Null"
    using at_root_ok [OF at_root_weaken [OF assms(2,6)]] by blast+
  then show "path_ok M ((if s then Right_Of (length g) None None t else Left_Of (length g) None None t) # path) (g @ [s])"
    using assms(1,4) by (cases s) auto
  show "mset (concat (map frame_entries ((if s then Right_Of (length g) None None t else Left_Of (length g) None None t) # path))) =
      mset (entries (plug path t))"
    by (simp add: entries_plug)
qed

lemma link_node_ok:
  assumes path: "path_ok M path c" and root: "at_root M c c1 t"
    and pfx: "pfx_ok M pfx" "pfx_ok M x" "prefix c1 (key x)"
    and e: "e \<le> length c1" "length c \<le> e" "e \<le> pfx_bitlen pfx" "take e (key pfx) = take e (key x)"
    and differ: "e < pfx_bitlen pfx \<Longrightarrow> e < pfx_bitlen x \<Longrightarrow> key pfx ! e \<noteq> key x ! e"
    and stop: "length c1 = pfx_bitlen x \<and> (pfx_bitlen pfx \<le> length c1 \<or> child (turn M (pfx_add pfx) (length c1)) t = Null) \<or>
      length c1 < pfx_bitlen x \<and> key x ! length c1 = turn M (pfx_add pfx) (length c1)"
  shows "\<exists>ptr. link_node M pfx (pfx_add x) e (path, t) = Inr ptr \<and> linked M (key pfx) (plug path t) ptr"
proof -
  let ?n = "pfx_bitlen pfx" and ?k = "key pfx" and ?nk = "key x"
  obtain b p d l r where t: "t = Node b p d l r" "length c1 = b" "node_ok M c1 p d"
    using root by (cases t) auto
  have nk: "b \<le> pfx_bitlen x" "c1 = take b ?nk"
    using pfx(3) t(2) prefix_length_le [OF pfx(3)] by (auto simp: prefix_def)
  have turn: "i < ?n \<Longrightarrow> turn M (pfx_add pfx) i = ?k ! i" "i < pfx_bitlen x \<Longrightarrow> turn M (pfx_add x) i = ?nk ! i" for i
    using pfx(1,2) by (auto simp: turn_def nth_key pfx_ok_def)
  have "prefix c ?nk"
    using at_root_ok [OF root] pfx(3) prefix_order.trans by blast
  then have c: "prefix c (take e ?k)" "prefix c ?k"
    using prefix_take_of e(2,4) take_is_prefix prefix_order.trans by blast+
  consider (same) "e = ?n" "b = ?n" | (below) "b = e" "e < ?n" | (above) "e = ?n" "?n < b" | (glue) "e < b" "e < ?n"
    using e(1,3) t(2) by linarith
  then show ?thesis
  proof cases
    case same
    then have "c1 = ?k"
      using nk e(4) by simp
    then show ?thesis
      using same t path root pfx(1)
      by (cases p) (auto simp: link_node_def linked_def points_to_def entries_plug Let_def)
  next
    case below
    have ch: "child (turn M (pfx_add pfx) b) t = Null"
      using stop differ below turn(1) [of e] t(2) by auto
    have pre: "prefix (c1 @ [turn M (pfx_add pfx) b]) ?k"
      using prefix_take_snoc [of e ?k] below nk(2) e(4) turn(1) [of e] by simp
    have "link_node M pfx (pfx_add x) e (path, t) =
        Inr ((if turn M (pfx_add pfx) b then Right_Of b p d l else Left_Of b p d r) # path, new_leaf pfx)"
      using ch below t(1) by (auto simp: link_node_def Let_def turn_def new_leaf_def split: if_splits)
    then show ?thesis
      using link_below [OF path root [unfolded t(1)] pfx(1) pre ch [unfolded t(1)]] t(1) by blast
  next
    case above
    have k: "?k = take ?n ?nk"
      using above e(4) by simp
    have pre: "prefix (?k @ [?nk ! ?n]) c1"
      using prefix_take_snoc [of ?n c1] above nk t(2) k by simp
    have "link_node M pfx (pfx_add x) e (path, t) =
        Inr (path, Node ?n (Some pfx) None (if ?nk ! ?n then Null else t) (if ?nk ! ?n then t else Null))"
      using above t(1) turn(2) [of ?n] nk(1) by (simp add: link_node_def Let_def turn_def)
    then show ?thesis
      using link_above [OF path root pfx(1) c(2) pre] by blast
  next
    case glue
    have ne: "?nk ! e = (\<not> ?k ! e)"
      using differ glue nk(1) by auto
    have pre: "prefix (take e ?k @ [?k ! e]) ?k"
      using prefix_take_snoc [of e ?k] glue by simp
    have pre': "prefix (take e ?k @ [\<not> ?k ! e]) c1"
      using prefix_take_snoc [of e c1] glue nk t(2) e(4) ne by simp
    have "link_node M pfx (pfx_add x) e (path, t) =
        Inr ((if ?k ! e then Right_Of (length (take e ?k)) None None t else Left_Of (length (take e ?k)) None None t) # path, new_leaf pfx)"
      using glue t(1) turn(1) [of e] by (simp add: link_node_def Let_def turn_def new_leaf_def)
    then show ?thesis
      using link_glue [OF path root pfx(1) c(1) pre pre'] by blast
  qed
qed

lemma patricia_lookup_linked:
  assumes "ptree_ok M [] t" "pfx_ok M pfx"
  shows "\<exists>ptr. patricia_lookup M t pfx = Inr ptr \<and> linked M (key pfx) t ptr"
proof (cases "t = Null")
  case True
  then show ?thesis
    using linked_leaf [of M "[]" "[]" pfx Null] assms(2) by (simp add: patricia_lookup_def new_leaf_def)
next
  case False
  then obtain c1 where "at_root M [] c1 t"
    using assms(1) ptree_ok_root by blast
  from descend_ok [of M "[]" "[]", OF _ this, of "pfx_add pfx" "pfx_bitlen pfx"]
  obtain path node c ck where down: "descend (pfx_add pfx) (pfx_bitlen pfx) M [] t = (path, node)" "path_ok M path c"
      "at_root M c ck node" "follows M (pfx_add pfx) path" "plug path node = t" "node_prefix node \<noteq> None"
      "pfx_bitlen pfx \<le> length ck \<or> child (turn M (pfx_add pfx) (length ck)) node = Null"
    by (auto simp: follows_def)
  obtain b x d l r where node: "node = Node b (Some x) d l r"
    using down(3,6) by (cases node) auto
  then have x: "pfx_ok M x" "key x = ck" "b = pfx_bitlen x" "length ck = b"
    using down(3) by auto
  define check where "check = (if b < pfx_bitlen pfx then b else pfx_bitlen pfx)"
  define e where "e = min (differ_loop (pfx_add pfx) (pfx_add x) check 0 0) check"
  have e: "same_bits (pfx_add pfx) (pfx_add x) e" "e \<le> check"
      "e < check \<Longrightarrow> addr_bit (pfx_add pfx) e \<noteq> addr_bit (pfx_add x) e"
    using differ_loop_spec [of "pfx_add pfx" "pfx_add x" 0 check] unfolding e_def by (simp_all add: same_bits_def)
  have le: "e \<le> pfx_bitlen pfx" "e \<le> pfx_bitlen x"
    using e(2) x(3) by (auto simp: check_def split: if_splits)
  obtain path' t' c' c1' where up: "climb e path node = (path', t')" "path_ok M path' c'" "at_root M c' c1' t'"
      "plug path' t' = plug path node" "prefix c1' ck" "e \<le> length c1'" "length c' \<le> e"
      "t' = node \<and> c1' = ck \<or> length c1' < length ck \<and> ck ! length c1' = turn M (pfx_add pfx) (length c1')"
    using climb_ok [OF down(2,3,4), of ck e] le x by auto
  have "take e (key pfx) = take e (key x)"
    using take_key_eq e(1) le by simp
  moreover have "key pfx ! e \<noteq> key x ! e" if "e < pfx_bitlen pfx" "e < pfx_bitlen x"
    using e(3) that x(3) by (auto simp: nth_key check_def split: if_splits)
  ultimately obtain ptr where "link_node M pfx (pfx_add x) e (path', t') = Inr ptr" "linked M (key pfx) (plug path' t') ptr"
    using link_node_ok [OF up(2,3) assms(2) x(1), of e] up(5-8) down(7) le x by auto
  then show ?thesis
    using False down(1,5) node up(1,4) by (auto simp: patricia_lookup_def Let_def e_def check_def)
qed

text \<open>What the trie stores for a key.\<close>

definition trie_map :: "'a ptree \<Rightarrow> bool list \<Rightarrow> 'a option option" where
  "trie_map t = map_of (entries t)"

lemma map_of_mset:
  assumes "distinct (map fst xs)" "mset xs = mset ys"
  shows "map_of xs = map_of ys"
proof
  fix k
  have "distinct (map fst ys)"
    using assms by (metis mset_eq_imp_distinct_iff mset_map)
  then show "map_of xs k = map_of ys k"
    using assms by (metis map_of_eq_Some_iff mset_eq_setD not_Some_eq)
qed

lemma linked_write:
  assumes "linked M k old (path, node)" "ptree_ok M [] old"
  shows "ptree_ok M [] (plug path (set_data v node))"
    and "trie_map (plug path (set_data v node)) = (trie_map old)(k \<mapsto> v)"
    and "node_data node = Option.bind (trie_map old k) id"
proof -
  obtain c where c: "path_ok M path c" "at_root M c k node" "node_prefix node \<noteq> None"
    using assms(1) by (auto simp: linked_def points_to_def)
  then obtain b x d l r where node: "node = Node b (Some x) d l r" "key x = k"
    by (cases node) auto
  let ?new = "plug path (set_data v node)" and ?cur = "plug path node"
  have root: "at_root M c k (set_data v node)"
    using c(2) node by simp
  show ok: "ptree_ok M [] ?new"
    by (rule plug_ok [OF c(1) root])
  define rest where "rest = concat (map frame_entries path) @ entries l @ entries r"
  have new: "mset (entries ?new) = mset ((k, v) # rest)" and cur: "mset (entries ?cur) = mset ((k, d) # rest)"
    using node by (simp_all add: entries_plug rest_def)
  have fresh: "k \<notin> fst ` set rest"
    using distinct_entries [OF ok] new by (metis distinct.simps(2) list.set_map list.simps(9) fst_conv mset_eq_imp_distinct_iff mset_map)
  have map_new: "trie_map ?new = (map_of rest)(k \<mapsto> v)"
    unfolding trie_map_def using map_of_mset [OF distinct_entries [OF ok] new] by simp
  have "mset (entries old) = mset ((k, d) # rest) \<or> d = None \<and> mset (entries old) = mset rest"
    using assms(1) node(1) cur by (auto simp: linked_def Let_def)
  then have "trie_map old = (map_of rest)(k \<mapsto> d) \<or> d = None \<and> trie_map old = map_of rest"
    unfolding trie_map_def using map_of_mset [OF distinct_entries [OF assms(2)]] by fastforce
  moreover have "map_of rest k = None"
    using fresh by (simp add: map_of_eq_None_iff)
  ultimately show "trie_map ?new = (trie_map old)(k \<mapsto> v)" "node_data node = Option.bind (trie_map old k) id"
    using map_new node(1) by auto
qed

subsection \<open>Search\<close>

text \<open>The nodes with a prefix that a search for an address passes, the deepest first.\<close>

fun visited :: "bytes \<Rightarrow> nat \<Rightarrow> 'a ptree \<Rightarrow> 'a ptree list" where
  "visited addr n Null = []"
| "visited addr n (Node b p d l r) =
     (if b < n then visited addr n (if addr_bit addr b then r else l) else []) @
     (if p \<noteq> None then [Node b p d l r] else [])"

lemma best_walk_visited:
  assumes "ptree_ok M c t" "length stack \<le> length c" "n \<le> M" "M \<le> PATRICIA_MAXBITS"
  shows "\<exists>stack' node. best_walk addr n t stack = Inr (stack', node) \<and>
    (if node_prefix node \<noteq> None then node # stack' else stack') = visited addr n t @ stack \<and>
    (node_prefix node \<noteq> None \<longrightarrow> length stack' \<le> PATRICIA_MAXBITS)"
  using assms
proof (induction t arbitrary: c stack)
  case (Node b p d l r)
  then obtain c' where c': "length c' = b" "prefix c c'" "node_ok M c' p d"
      "ptree_ok M (c' @ [False]) l" "ptree_ok M (c' @ [True]) r"
    by auto
  have len: "length stack \<le> b"
    using Node.prems(2) c'(1) prefix_length_le [OF c'(2)] by simp
  show ?case
  proof (cases "b < n")
    case True
    let ?s = "if p \<noteq> None then Node b p d l r # stack else stack"
    have "length stack \<noteq> PATRICIA_MAXBITS + 1"
      using len True Node.prems(3,4) by simp
    moreover have "length ?s \<le> length (c' @ [addr_bit addr b])"
      using len c'(1) by simp
    ultimately show ?thesis
      using True Node.IH(1) [OF c'(4), of ?s] Node.IH(2) [OF c'(5), of ?s] Node.prems(3,4)
      by (cases "addr_bit addr b") (cases p; simp)+
  next
    case False
    have "length stack \<le> PATRICIA_MAXBITS" if "p \<noteq> None"
      using that len c'(1,3) Node.prems(4) by (auto simp: pfx_ok_def)
    then show ?thesis
      using False by auto
  qed
qed simp

lemma search_best_visited:
  assumes "ptree_ok M [] t" "pfx_bitlen pfx \<le> M" "M \<le> PATRICIA_MAXBITS"
  shows "patricia_search_best t pfx = Inr (pop_best (pfx_add pfx) (visited (pfx_add pfx) (pfx_bitlen pfx) t))"
proof -
  obtain stack node where "best_walk (pfx_add pfx) (pfx_bitlen pfx) t [] = Inr (stack, node)"
      "(if node_prefix node \<noteq> None then node # stack else stack) = visited (pfx_add pfx) (pfx_bitlen pfx) t"
      "node_prefix node \<noteq> None \<longrightarrow> length stack \<le> PATRICIA_MAXBITS"
    using best_walk_visited [OF assms(1) _ assms(2,3), of "[]" "pfx_add pfx"] by auto
  then show ?thesis
    by (cases "node_prefix node = None")
      (simp_all add: patricia_search_best_def patricia_search_best2_def del: pop_best.simps)
qed

lemma visited_entries:
  assumes "ptree_ok M c t" "node \<in> set (visited addr n t)"
  shows "\<exists>x. node_prefix node = Some x \<and> pfx_ok M x \<and> (key x, node_data node) \<in> set (entries t)"
  using assms
proof (induction t arbitrary: c)
  case (Node b p d l r)
  then show ?case
    by (cases p) (auto split: if_splits)
qed simp

lemma visited_sorted:
  assumes "ptree_ok M c t"
  shows "sorted_wrt (\<lambda>u v. length (key (the (node_prefix v))) < length (key (the (node_prefix u)))) (visited addr n t)"
  using assms
proof (induction t arbitrary: c)
  case (Node b p d l r)
  then obtain c' where c': "length c' = b" "node_ok M c' p d" "ptree_ok M (c' @ [False]) l" "ptree_ok M (c' @ [True]) r"
    by auto
  let ?t = "if addr_bit addr b then r else l"
  have ok: "ptree_ok M (c' @ [addr_bit addr b]) ?t"
    using c' by simp
  have "b < length (key (the (node_prefix u)))" if "u \<in> set (visited addr n ?t)" for u
    using visited_entries [OF ok that] entries_side [OF ok] c'(1) by fastforce
  moreover have "p = Some x \<Longrightarrow> length (key x) = b" for x
    using c'(1,2) by auto
  ultimately show ?case
    using Node.IH(1) [OF c'(3)] Node.IH(2) [OF c'(4)] by (auto simp: sorted_wrt_append)
qed simp

lemma visited_complete:
  assumes "ptree_ok M c t" "(k, d) \<in> set (entries t)" "\<forall>i < length k. k ! i = addr_bit addr i"
  shows "\<exists>node \<in> set (visited addr M t). \<exists>x. node_prefix node = Some x \<and> key x = k \<and> node_data node = d"
  using assms
proof (induction t arbitrary: c)
  case (Node b p d' l r)
  then obtain c' where c': "length c' = b" "node_ok M c' p d'" "ptree_ok M (c' @ [False]) l" "ptree_ok M (c' @ [True]) r"
    by auto
  consider x where "p = Some x" "k = key x" "d = d'" | "(k, d) \<in> set (entries l)" | "(k, d) \<in> set (entries r)"
    using Node.prems(2) by (auto split: option.splits)
  then show ?case
  proof cases
    case 2
    then have "b < length k" "\<not> k ! b" "length k \<le> M"
      using entries_side [OF c'(3) 2] entries_extend [OF c'(3) 2] c'(1) by auto
    then show ?thesis
      using Node.IH(1) [OF c'(3) 2 Node.prems(3)] Node.prems(3) by auto
  next
    case 3
    then have "b < length k" "k ! b" "length k \<le> M"
      using entries_side [OF c'(4) 3] entries_extend [OF c'(4) 3] c'(1) by auto
    then show ?thesis
      using Node.IH(2) [OF c'(4) 3 Node.prems(3)] Node.prems(3) by auto
  qed auto
qed simp

definition node_matches :: "bytes \<Rightarrow> 'a ptree \<Rightarrow> bool" where
  "node_matches addr node =
     (case node_prefix node of None \<Rightarrow> False | Some x \<Rightarrow> comp_with_mask (pfx_add x) addr (pfx_bitlen x))"

lemma pop_best_first: "pop_best addr nodes = find (node_matches addr) nodes"
  by (induction nodes) (auto simp: node_matches_def split: option.splits)

text \<open>The longest key of the trie that is a prefix of an address.\<close>

definition longest_match :: "(bool list \<Rightarrow> 'v option) \<Rightarrow> bool list \<Rightarrow> (bool list \<times> 'v) option \<Rightarrow> bool" where
  "longest_match m a res \<longleftrightarrow>
     (case res of
        None \<Rightarrow> \<forall>k \<in> dom m. \<not> prefix k a
      | Some (k, v) \<Rightarrow> m k = Some v \<and> prefix k a \<and> (\<forall>k' \<in> dom m. prefix k' a \<longrightarrow> length k' \<le> length k))"

lemma prefix_key_bits:
  assumes "length (key y) = M" "length k \<le> M"
  shows "prefix k (key y) \<longleftrightarrow> (\<forall>i < length k. k ! i = addr_bit (pfx_add y) i)"
proof -
  have "prefix k (key y) \<longleftrightarrow> take (length k) (key y) = k"
    by (metis append_eq_conv_conj prefix_def take_is_prefix)
  also have "\<dots> \<longleftrightarrow> (\<forall>i < length k. k ! i = key y ! i)"
    using assms by (auto simp: list_eq_iff_nth_eq)
  finally show ?thesis
    using assms by (simp add: nth_key)
qed

lemma search_best_longest:
  fixes t :: "'a ptree"
  assumes "ptree_ok M [] t" "pfx_ok M y" "pfx_bitlen y = M" "M \<le> PATRICIA_MAXBITS"
  shows "\<exists>res. patricia_search_best t y = Inr (map_option fst res) \<and>
    longest_match (trie_map t) (key y) (map_option (\<lambda>(node, k). (k, node_data node)) res)"
proof -
  let ?vs = "visited (pfx_add y) M t"
  let ?P = "node_matches (pfx_add y)"
  have search: "patricia_search_best t y = Inr (find ?P ?vs)"
    using search_best_visited [OF assms(1) _ assms(4), of y] assms(3) by (simp add: pop_best_first)
  have P: "?P node \<longleftrightarrow> prefix (key x) (key y)" if "node_prefix node = Some x" "pfx_ok M x" for node :: "'a ptree" and x
    using that assms(2,3) prefix_key_bits [of y M "key x"] comp_with_mask_bits [of "pfx_bitlen x" "pfx_add x" "pfx_add y"]
    by (auto simp: node_matches_def pfx_ok_def same_bits_def nth_key)
  have stored: "trie_map t k = Some d \<longleftrightarrow> (k, d) \<in> set (entries t)" for k d
    unfolding trie_map_def using distinct_entries [OF assms(1)] by simp
  have found: "\<exists>node \<in> set ?vs. ?P node \<and> key (the (node_prefix node)) = k" if k: "k \<in> dom (trie_map t)" "prefix k (key y)" for k
  proof -
    obtain d where "trie_map t k = Some d"
      using k(1) by (auto simp: dom_def)
    then have d: "(k, d) \<in> set (entries t)"
      by (simp add: stored)
    have "length k \<le> M"
      using entries_extend [OF assms(1) d] by blast
    then have "\<forall>i < length k. k ! i = addr_bit (pfx_add y) i"
      using k(2) prefix_key_bits assms(3) by simp
    then obtain node x where "node \<in> set ?vs" "node_prefix node = Some x" "key x = k"
      using visited_complete [OF assms(1) d] by blast
    moreover from this have "pfx_ok M x"
      using visited_entries [OF assms(1), of node] by fastforce
    ultimately show ?thesis
      using P k(2) by (intro bexI [of _ node]) simp_all
  qed
  show ?thesis
  proof (cases "find ?P ?vs")
    case None
    then have "\<forall>k \<in> dom (trie_map t). \<not> prefix k (key y)"
      using found unfolding find_None_iff by blast
    then show ?thesis
      using search None by (intro exI [of _ None]) (simp add: longest_match_def)
  next
    case (Some node)
    then obtain i where i: "i < length ?vs" "?vs ! i = node" "?P node" "\<forall>j < i. \<not> ?P (?vs ! j)"
      by (auto simp: find_Some_iff)
    have "node \<in> set ?vs"
      using nth_mem [OF i(1)] i(2) by simp
    then obtain x where x: "node_prefix node = Some x" "pfx_ok M x" "(key x, node_data node) \<in> set (entries t)"
      using visited_entries [OF assms(1)] by blast
    have "length k \<le> length (key x)" if k: "k \<in> dom (trie_map t)" "prefix k (key y)" for k
    proof -
      obtain j where j: "j < length ?vs" "?P (?vs ! j)" "key (the (node_prefix (?vs ! j))) = k"
        using found [OF k] by (fastforce simp: in_set_conv_nth)
      then have "i \<le> j"
        using i(4) by (meson linorder_not_less)
      then show ?thesis
        using sorted_wrt_nth_less [OF visited_sorted [OF assms(1)], of i j "pfx_add y" M] i(2) x(1) j
        by (cases "i = j") auto
    qed
    then show ?thesis
      using search Some P [OF x(1,2)] i(3) x(3) stored
      by (intro exI [of _ "Some (node, key x)"]) (simp add: longest_match_def)
  qed
qed

end
