(* ===== verification/Route_Table.thy ===== *)
theory Route_Table
  imports Patricia Util
begin

section \<open>Routing tables (net/route\_table)\<close>

text \<open>
  The IPv4 routing table of hosts and routers: a trie of prefixes whose nodes hold the entries of a
  prefix in the order they were added, one of which a lookup picks by the hash of the flow.  The
  locale states what the table needs of a store of prefixes; the trie is shown to provide it.  The
  theory shows that a lookup after any sequence of additions returns a member of the entries with
  the longest prefix that covers the address.  The IPv6 table is only ever created and destroyed.
\<close>

subsection \<open>Definitions\<close>

definition ROUTE_UP :: u8 where "ROUTE_UP = 0"
definition ROUTE_GW :: u8 where "ROUTE_GW = 1"
definition ROUTE_HOST :: u8 where "ROUTE_HOST = 2"

record route_entry_v4 =
  re_ip :: u32
  re_netmask :: u32
  re_gateway :: u32
  re_iface :: u32
  re_flags :: u8
  re_metric :: u8

record route_entry_v6 =
  re6_ip :: bytes
  re6_netmask :: bytes
  re6_next_hop :: bytes
  re6_iface :: u32
  re6_metric :: u8

text \<open>The arrays of next hops hang on the nodes of the tries.\<close>

record route_table =
  ipv4_table :: "route_entry_v4 list ptree"
  ipv6_table :: "route_entry_v6 list ptree"

definition route_table_init :: route_table where
  "route_table_init = \<lparr>ipv4_table = Null, ipv6_table = Null\<rparr>"

text \<open>The array of a node, created when the node has none, gets the entry at its end.\<close>

definition push_hop :: "'e list ptree \<Rightarrow> prefix_t \<Rightarrow> 'e \<Rightarrow> 'e list ptree res" where
  "push_hop t pref e =
     rbind (patricia_lookup 32 t pref) (\<lambda>(path, node).
       let next_hops = (case node_data node of None \<Rightarrow> [] | Some hops \<Rightarrow> hops) in
       Inr (plug path (set_data (Some (next_hops @ [e])) node)))"

definition add_ipv4_entry :: "route_table \<Rightarrow> route_entry_v4 \<Rightarrow> route_table res" where
  "add_ipv4_entry rt e =
     (let ip = swap32 (re_ip e);
          bitlen = unat (32 - ntz (re_netmask e));
          pref = New_Prefix (mem32 ip) bitlen in
      rbind (push_hop (ipv4_table rt) pref e) (\<lambda>t. Inr (rt\<lparr>ipv4_table := t\<rparr>)))"

text \<open>The address is passed as it stands in the memory of the host.\<close>

definition ipv4_search_exact :: "route_table \<Rightarrow> u32 \<Rightarrow> u8 \<Rightarrow> route_entry_v4 option res" where
  "ipv4_search_exact rt ip cidr =
     rbind (patricia_search_exact 32 (ipv4_table rt) (New_Prefix (mem32 ip) (unat cidr))) (\<lambda>found.
       case found of
         None \<Rightarrow> Inr None
       | Some node \<Rightarrow>
           rbind (deref (node_data node)) (\<lambda>next_hops.
             Inr (case next_hops of [] \<Rightarrow> None | hop # _ \<Rightarrow> Some hop)))"

definition best_hops :: "'e list ptree \<Rightarrow> prefix_t \<Rightarrow> 'e list option res" where
  "best_hops t pref =
     rbind (patricia_search_best t pref) (\<lambda>found.
       case found of
         None \<Rightarrow> Inr None
       | Some node \<Rightarrow> rbind (deref (node_data node)) (\<lambda>next_hops. Inr (Some next_hops)))"

definition ipv4_lookup :: "route_table \<Rightarrow> u32 \<Rightarrow> u32 \<Rightarrow> route_entry_v4 option res" where
  "ipv4_lookup rt ip hash =
     rbind (best_hops (ipv4_table rt) (New_Prefix (mem32 (swap32 ip)) 32)) (\<lambda>found.
       case found of
         None \<Rightarrow> Inr None
       | Some next_hops \<Rightarrow>
           let n = length next_hops in
           if n = 0 then Inl Div_By_Zero
           else let index = unat hash mod n in
             Inr (if index < n then Some (next_hops ! index) else None))"

subsection \<open>What the table needs of a store of prefixes\<close>

text \<open>Every key keeps a list; a push extends the list of its key, and a search returns the list of
  the longest key that is a prefix of an address.\<close>

definition hops_for :: "bool list \<Rightarrow> (prefix_t \<times> 'e) list \<Rightarrow> 'e list" where
  "hops_for k xs = map snd (filter (\<lambda>(x, e). key x = k) xs)"

definition longest_hops :: "(prefix_t \<times> 'e) list \<Rightarrow> bool list \<Rightarrow> 'e list" where
  "longest_hops xs a =
     (let cs = filter (\<lambda>(x, e). prefix (key x) a) xs in
      map snd (filter (\<lambda>(x, e). \<forall>(x', e') \<in> set cs. length (key x') \<le> length (key x)) cs))"

definition some_list :: "'e list \<Rightarrow> 'e list option" where
  "some_list es = (if es = [] then None else Some es)"

locale prefix_store =
  fixes create :: 't
    and push :: "'t \<Rightarrow> prefix_t \<Rightarrow> 'e \<Rightarrow> 't res"
    and best :: "'t \<Rightarrow> prefix_t \<Rightarrow> 'e list option res"
    and stored :: "'t \<Rightarrow> bool list \<Rightarrow> 'e list option"
    and invar :: "'t \<Rightarrow> bool"
    and width :: nat
  assumes created: "invar create" "stored create k = None"
    and pushed: "invar t \<Longrightarrow> pfx_ok width x \<Longrightarrow>
      \<exists>t'. push t x e = Inr t' \<and> invar t' \<and>
        stored t' = (stored t)(key x \<mapsto> (case stored t (key x) of None \<Rightarrow> [] | Some es \<Rightarrow> es) @ [e])"
    and searched: "invar t \<Longrightarrow> pfx_ok width y \<Longrightarrow> pfx_bitlen y = width \<Longrightarrow>
      \<exists>res. best t y = Inr (map_option snd res) \<and> longest_match (stored t) (key y) res"
begin

lemma push_all:
  assumes "\<And>x e. (x, e) \<in> set xs \<Longrightarrow> pfx_ok width x"
  shows "\<exists>t. rfold (\<lambda>t (x, e). push t x e) create xs = Inr t \<and> invar t \<and>
    (\<forall>k. stored t k = some_list (hops_for k xs))"
  using assms
proof (induction xs rule: rev_induct)
  case Nil
  then show ?case
    using created by (simp add: some_list_def hops_for_def)
next
  case (snoc p xs)
  obtain x e where p: "p = (x, e)" by fastforce
  obtain t where t: "rfold (\<lambda>t (x, e). push t x e) create xs = Inr t" "invar t"
      "\<And>k. stored t k = some_list (hops_for k xs)"
    using snoc by fastforce
  obtain t' where t': "push t x e = Inr t'" "invar t'"
      "stored t' = (stored t)(key x \<mapsto> (case stored t (key x) of None \<Rightarrow> [] | Some es \<Rightarrow> es) @ [e])"
    using pushed [OF t(2), of x e] snoc.prems [of x e] p by auto
  have "stored t' k = some_list (hops_for k (xs @ [p]))" for k
    using t(3) by (auto simp: t'(3) p some_list_def hops_for_def)
  then show ?case
    using t t' p by (simp add: rfold_append)
qed

lemma best_after:
  assumes "\<And>x e. (x, e) \<in> set xs \<Longrightarrow> pfx_ok width x" "pfx_ok width y" "pfx_bitlen y = width"
  shows "\<exists>t. rfold (\<lambda>t (x, e). push t x e) create xs = Inr t \<and>
    best t y = Inr (some_list (longest_hops xs (key y)))"
proof -
  obtain t where t: "rfold (\<lambda>t (x, e). push t x e) create xs = Inr t" "invar t"
      "\<And>k. stored t k = some_list (hops_for k xs)"
    using push_all [of xs] assms(1) by blast
  obtain res where res: "best t y = Inr (map_option snd res)" "longest_match (stored t) (key y) res"
    using searched [OF t(2) assms(2,3)] by blast
  have dom: "k \<in> dom (stored t) \<longleftrightarrow> (\<exists>(x, e) \<in> set xs. key x = k)" for k
    using t(3) by (auto simp: dom_def some_list_def hops_for_def filter_empty_conv)
  have "map_option snd res = some_list (longest_hops xs (key y))"
  proof (cases res)
    case None
    then have "filter (\<lambda>(x, e). prefix (key x) (key y)) xs = []"
      using res(2) dom by (fastforce simp: longest_match_def filter_empty_conv)
    then show ?thesis
      using None by (simp add: longest_hops_def some_list_def)
  next
    case (Some r)
    obtain k v where r: "r = (k, v)" by fastforce
    then have k: "stored t k = Some v" "prefix k (key y)"
        "\<And>k'. k' \<in> dom (stored t) \<Longrightarrow> prefix k' (key y) \<Longrightarrow> length k' \<le> length k"
      using res(2) Some by (auto simp: longest_match_def)
    have same: "key x = k" if "prefix (key x) (key y)" "length (key x) = length k" for x
      using that k(2) by (metis append_eq_append_conv prefix_def)
    obtain x0 e0 where x0: "(x0, e0) \<in> set xs" "key x0 = k"
      using dom [of k] k(1) by auto
    define top where "top = (\<lambda>x. \<forall>(x', e') \<in> set (filter (\<lambda>(x, e). prefix (key x) (key y)) xs). length (key x') \<le> length (key x))"
    have top: "prefix (key x) (key y) \<and> top x \<longleftrightarrow> key x = k" if "(x, e) \<in> set xs" for x e
    proof
      assume l: "prefix (key x) (key y) \<and> top x"
      then have "length k \<le> length (key x)"
        using x0 k(2) unfolding top_def by force
      moreover have "key x \<in> dom (stored t)"
        using dom that by blast
      ultimately show "key x = k"
        using same l k(3) by force
    next
      assume "key x = k"
      moreover have "length (key x') \<le> length k" if "(x', e') \<in> set xs" "prefix (key x') (key y)" for x' e'
        using k(3) that dom by blast
      ultimately show "prefix (key x) (key y) \<and> top x"
        using k(2) by (auto simp: top_def)
    qed
    have "longest_hops xs (key y) = map snd (filter (\<lambda>(x, e). prefix (key x) (key y) \<and> top x) xs)"
      unfolding longest_hops_def top_def Let_def filter_filter by (simp only: case_prod_unfold conj_commute)
    also have "filter (\<lambda>(x, e). prefix (key x) (key y) \<and> top x) xs = filter (\<lambda>(x, e). key x = k) xs"
      using top by (intro filter_cong refl) blast
    finally have "longest_hops xs (key y) = hops_for k xs"
      unfolding hops_for_def .
    then show ?thesis
      using k(1) t(3) Some r by (simp add: some_list_def split: if_splits)
  qed
  then show ?thesis
    using t(1) res(1) by auto
qed

end

subsection \<open>The trie is such a store\<close>

definition hops_of :: "'e list ptree \<Rightarrow> bool list \<Rightarrow> 'e list option" where
  "hops_of t k = Option.bind (trie_map t k) id"

text \<open>Every node with a prefix has an array.\<close>

definition hops_inv :: "'e list ptree \<Rightarrow> bool" where
  "hops_inv t \<longleftrightarrow> ptree_ok 32 [] t \<and> None \<notin> ran (trie_map t)"

lemma hops_of_some: "hops_inv t \<Longrightarrow> trie_map t k = map_option Some (hops_of t k)"
  by (cases "trie_map t k"; cases "the (trie_map t k)") (auto simp: hops_inv_def hops_of_def ran_def)

lemma push_hop_ok:
  assumes "hops_inv t" "pfx_ok 32 x"
  shows "\<exists>t'. push_hop t x e = Inr t' \<and> hops_inv t' \<and>
    hops_of t' = (hops_of t)(key x \<mapsto> (case hops_of t (key x) of None \<Rightarrow> [] | Some es \<Rightarrow> es) @ [e])"
proof -
  have t: "ptree_ok 32 [] t"
    using assms(1) by (simp add: hops_inv_def)
  obtain path node where ptr: "patricia_lookup 32 t x = Inr (path, node)" "linked 32 (key x) t (path, node)"
    using patricia_lookup_linked [OF t assms(2)] by fastforce
  define v where "v = Some ((case hops_of t (key x) of None \<Rightarrow> [] | Some es \<Rightarrow> es) @ [e])"
  have data: "node_data node = hops_of t (key x)"
    using linked_write(3) [OF ptr(2) t] by (simp add: hops_of_def)
  have new: "ptree_ok 32 [] (plug path (set_data v node))"
      "trie_map (plug path (set_data v node)) = (trie_map t)(key x \<mapsto> v)"
    by (fact linked_write [OF ptr(2) t])+
  have "hops_inv (plug path (set_data v node))"
    using assms(1) new by (auto simp: hops_inv_def v_def ran_def)
  then show ?thesis
    using ptr(1) data new(2) by (auto simp: push_hop_def v_def hops_of_def fun_eq_iff)
qed

lemma best_hops_ok:
  assumes "hops_inv t" "pfx_ok 32 y" "pfx_bitlen y = 32"
  shows "\<exists>res. best_hops t y = Inr (map_option snd res) \<and> longest_match (hops_of t) (key y) res"
proof -
  obtain res where res: "patricia_search_best t y = Inr (map_option fst res)"
      "longest_match (trie_map t) (key y) (map_option (\<lambda>(node, k). (k, node_data node)) res)"
    using search_best_longest [of 32 t y] assms by (auto simp: hops_inv_def PATRICIA_MAXBITS_def)
  have dom: "dom (trie_map t) = dom (hops_of t)"
    using hops_of_some [OF assms(1)] by (auto simp: dom_def)
  show ?thesis
  proof (cases res)
    case None
    then show ?thesis
      using res dom by (intro exI [of _ None]) (simp add: best_hops_def longest_match_def)
  next
    case (Some nk)
    obtain node k where nk: "nk = (node, k)" by fastforce
    then have "map_option Some (hops_of t k) = Some (node_data node)"
      using res(2) Some hops_of_some [OF assms(1), of k] by (simp add: longest_match_def)
    then obtain hops where "hops_of t k = Some hops" "node_data node = Some hops"
      by (metis map_option_eq_Some)
    then show ?thesis
      using res dom Some nk by (intro exI [of _ "Some (k, hops)"]) (simp add: best_hops_def longest_match_def deref_def)
  qed
qed

interpretation hop_store: prefix_store Null push_hop best_hops hops_of hops_inv 32
proof
  show "hops_inv Null" "hops_of Null k = None" for k
    by (simp_all add: hops_inv_def hops_of_def trie_map_def)
qed (fact push_hop_ok best_hops_ok)+

subsection \<open>Longest prefix match over addresses\<close>

definition route_len :: "route_entry_v4 \<Rightarrow> nat" where
  "route_len e = 32 - unat (ntz (re_netmask e))"

text \<open>An entry covers an address that agrees with it above the trailing zeros of its mask.\<close>

definition covers :: "route_entry_v4 \<Rightarrow> u32 \<Rightarrow> bool" where
  "covers e ip \<longleftrightarrow> drop_bit (unat (ntz (re_netmask e))) ip = drop_bit (unat (ntz (re_netmask e))) (re_ip e)"

definition best_routes :: "route_entry_v4 list \<Rightarrow> u32 \<Rightarrow> route_entry_v4 list" where
  "best_routes es ip =
     (let cs = filter (\<lambda>e. covers e ip) es in
      filter (\<lambda>e. \<forall>e' \<in> set cs. route_len e' \<le> route_len e) cs)"

definition route_prefix :: "route_entry_v4 \<Rightarrow> prefix_t" where
  "route_prefix e = New_Prefix (put32 (re_ip e)) (route_len e)"

lemma mem32_swap32: "mem32 (swap32 x) = put32 x"
  by (simp add: mem32_def swap32_def) (simp add: put32_def)

lemma unat_ntz_le: "unat (ntz x) \<le> 32"
proof (cases "x = 0")
  case False
  then obtain j where "bit x j"
    using bit_eqI [of x 0] by auto
  then obtain k where k: "bit x k" "\<And>j. j < k \<Longrightarrow> \<not> bit x j"
    using LeastI [of "bit x" j] not_less_Least [of _ "bit x"] by blast
  have "k < 32"
    using bit_imp_le_length [OF k(1)] by simp
  moreover have "ntz x = word_of_nat k"
    by (rule ntz_lowest_bit [OF k])
  ultimately show ?thesis
    by (simp add: unat_of_nat)
qed (simp add: ntz_0)

lemma unat_route_len: "unat (32 - ntz (re_netmask e)) = route_len e"
  using unat_ntz_le [of "re_netmask e"] by (simp add: route_len_def unat_sub word_le_nat_alt)

lemma addr_bit_put32:
  assumes "i < 32"
  shows "addr_bit (put32 ip) i = bit ip (31 - i)"
proof -
  define q r where "q = i div 8" and "r = i mod 8"
  then have i: "i = 8 * q + r" and r: "r < 8"
    by simp_all
  have "addr_bit (put32 ip) i = bit (put32 ip ! q) (7 - r)"
    by (simp add: addr_bit_eq q_def r_def)
  moreover have "31 - i = 8 * (3 - q) + (7 - r)" "7 - r < 8"
    using assms i r by auto
  moreover have "bit (put32 ip ! q) m = bit ip (8 * (3 - q) + m)" if "m < 8" for m
  proof -
    consider "q = 0" | "q = 1" | "q = 2" | "q = 3"
      using assms i by linarith
    then show ?thesis
      by cases (simp_all add: put32_def bit_simps that)
  qed
  ultimately show ?thesis
    by simp
qed

lemma high_bits_agree:
  "drop_bit n ip = drop_bit n x \<longleftrightarrow> (\<forall>j < 32 - n. bit x (n + j) = bit ip (n + j))" for x ip :: u32
proof -
  have none: "\<not> bit y (n + j)" if "\<not> j < 32 - n" for y :: u32 and j
    using that bit_imp_le_length [of y "n + j"] by auto
  have "bit (drop_bit n y) j = bit y (n + j)" for y :: u32 and j
    by (simp add: bit_drop_bit_eq)
  then have "drop_bit n ip = drop_bit n x \<longleftrightarrow> (\<forall>j. bit ip (n + j) = bit x (n + j))"
    using bit_eqI [of "drop_bit n ip" "drop_bit n x"] by metis
  then show ?thesis
    using none by blast
qed

lemma prefix_covers:
  "prefix (key (route_prefix e)) (key (New_Prefix (put32 ip) 32)) \<longleftrightarrow> covers e ip"
proof -
  define n where "n = unat (ntz (re_netmask e))"
  have n: "n \<le> 32" "route_len e = 32 - n"
    by (simp_all add: n_def unat_ntz_le route_len_def)
  have "prefix (key (route_prefix e)) (key (New_Prefix (put32 ip) 32)) \<longleftrightarrow>
      (\<forall>i < 32 - n. bit (re_ip e) (31 - i) = bit ip (31 - i))"
    using n prefix_key_bits [of "New_Prefix (put32 ip) 32" 32 "key (route_prefix e)"]
    by (simp add: route_prefix_def New_Prefix_def nth_key addr_bit_put32)
  also have "\<dots> \<longleftrightarrow> (\<forall>j < 32 - n. bit (re_ip e) (n + j) = bit ip (n + j))" (is "?L \<longleftrightarrow> ?R")
  proof
    assume all: ?L
    show ?R
    proof (intro allI impI)
      fix j assume "j < 32 - n"
      then show "bit (re_ip e) (n + j) = bit ip (n + j)"
        using all [rule_format, of "31 - (n + j)"] by simp
    qed
  next
    assume all: ?R
    show ?L
    proof (intro allI impI)
      fix i assume "i < 32 - n"
      then show "bit (re_ip e) (31 - i) = bit ip (31 - i)"
        using all [rule_format, of "31 - i - n"] by simp
    qed
  qed
  also have "\<dots> \<longleftrightarrow> covers e ip"
    unfolding covers_def n_def [symmetric] by (rule high_bits_agree [symmetric])
  finally show ?thesis .
qed

lemma pfx_ok_put32: "n \<le> 32 \<Longrightarrow> pfx_ok 32 (New_Prefix (put32 ip) n)"
  by (simp add: pfx_ok_def New_Prefix_def)

lemma add_ipv4_entry_push:
  "add_ipv4_entry rt e =
     rbind (push_hop (ipv4_table rt) (route_prefix e) e) (\<lambda>t. Inr (rt\<lparr>ipv4_table := t\<rparr>))"
  by (simp add: add_ipv4_entry_def mem32_swap32 unat_route_len route_prefix_def)

lemma add_all_push:
  "rfold add_ipv4_entry rt es =
     rbind (rfold (\<lambda>t (x, e). push_hop t x e) (ipv4_table rt) (map (\<lambda>e. (route_prefix e, e)) es))
       (\<lambda>t. Inr (rt\<lparr>ipv4_table := t\<rparr>))"
  by (induction es arbitrary: rt) (auto simp: add_ipv4_entry_push rbind_def split: sum.splits)

lemma longest_hops_routes:
  "longest_hops (map (\<lambda>e. (route_prefix e, e)) es) (key (New_Prefix (put32 ip) 32)) = best_routes es ip"
proof -
  have "length (key (route_prefix e)) = route_len e" for e
    by (simp add: route_prefix_def New_Prefix_def)
  then show ?thesis
    unfolding longest_hops_def best_routes_def Let_def
    by (simp add: filter_map comp_def prefix_covers)
qed

lemma best_hops_routes:
  "\<exists>t. rfold add_ipv4_entry route_table_init es = Inr (route_table_init\<lparr>ipv4_table := t\<rparr>) \<and>
    best_hops t (New_Prefix (mem32 (swap32 ip)) 32) = Inr (some_list (best_routes es ip))"
proof -
  have ok: "pfx_ok 32 x" if "(x, e) \<in> set (map (\<lambda>e. (route_prefix e, e)) es)" for x e
    using that by (auto simp: route_prefix_def route_len_def pfx_ok_put32)
  have addr: "pfx_ok 32 (New_Prefix (put32 ip) 32)" "pfx_bitlen (New_Prefix (put32 ip) 32) = 32"
    by (simp_all add: pfx_ok_def New_Prefix_def)
  have "\<exists>t. rfold (\<lambda>t (x, e). push_hop t x e) Null (map (\<lambda>e. (route_prefix e, e)) es) = Inr t \<and>
      best_hops t (New_Prefix (put32 ip) 32) = Inr (some_list (best_routes es ip))"
    unfolding longest_hops_routes [symmetric] by (rule hop_store.best_after [OF _ addr]) (rule ok)
  then obtain t where "rfold (\<lambda>t (x, e). push_hop t x e) Null (map (\<lambda>e. (route_prefix e, e)) es) = Inr t"
      "best_hops t (New_Prefix (put32 ip) 32) = Inr (some_list (best_routes es ip))"
    by blast
  then show ?thesis
    by (intro exI [of _ t]) (simp add: add_all_push route_table_init_def mem32_swap32)
qed

text \<open>The routing tables the code can build: the entries in the order they were added.\<close>

definition table_of :: "route_entry_v4 list \<Rightarrow> route_table \<Rightarrow> bool" where
  "table_of es t \<longleftrightarrow> rfold add_ipv4_entry route_table_init es = Inr t"

lemma table_of_init [simp]: "table_of [] route_table_init"
  by (simp add: table_of_def)

lemma table_of_add:
  assumes "table_of es t"
  shows "\<exists>t'. add_ipv4_entry t e = Inr t' \<and> table_of (es @ [e]) t'"
  using best_hops_routes [of "es @ [e]"] assms by (auto simp: table_of_def rfold_append)

lemma ipv4_lookup_table:
  assumes "table_of es t"
  shows "ipv4_lookup t ip hash =
    (let hops = best_routes es ip in
     Inr (if hops = [] then None else Some (hops ! (unat hash mod length hops))))"
proof -
  obtain t4 where "t = route_table_init\<lparr>ipv4_table := t4\<rparr>"
      "best_hops t4 (New_Prefix (mem32 (swap32 ip)) 32) = Inr (some_list (best_routes es ip))"
    using best_hops_routes [of es ip] assms by (auto simp: table_of_def)
  then show ?thesis
    by (simp add: ipv4_lookup_def some_list_def Let_def)
qed

text \<open>C5: After any entries have been added to an empty routing table, a lookup returns the entry
  the hash selects among those with the longest prefix that covers the address, in the order they
  were added, and none exactly when no entry covers it.  It never fails: no assertion of the trie is
  violated, no node is without entries, and no array is read outside.\<close>

theorem ipv4_lookup_longest_prefix:
  "\<exists>rt. rfold add_ipv4_entry route_table_init es = Inr rt \<and>
    ipv4_lookup rt ip hash =
      (let hops = best_routes es ip in
       Inr (if hops = [] then None else Some (hops ! (unat hash mod length hops))))"
  using best_hops_routes [of es] ipv4_lookup_table [of es] by (metis table_of_def)

text \<open>The exact search takes the address in host order while the table stores it in network order:
  it misses an entry that has just been added.\<close>

lemma search_exact_misses:
  "rbind (add_ipv4_entry route_table_init
      \<lparr>re_ip = 0x0A000000, re_netmask = 0xFF000000, re_gateway = 0, re_iface = 1, re_flags = 0, re_metric = 0\<rparr>)
    (\<lambda>rt. ipv4_search_exact rt 0x0A000000 8) = Inr None"
  by code_simp

end
