(* ===== verification/Legacy_Node.thy ===== *)
theory Legacy_Node
  imports Node Arp_Table Route_Table
begin

section \<open>Hosts and routers in common (net/legacy\_node)\<close>

text \<open>
  What hosts and routers share: ports, an ARP table and a routing table; the handling of ARP, and
  the choice of the output port and of the link address of the next hop.  A function that gets a
  flow by pointer and may return another flow gives back both: the flow it was passed, as it left
  it, and the flow it returns.  When both are the same object they are equal.
\<close>

subsection \<open>Definitions\<close>

record legacy_node =
  base :: node
  at :: arp_table
  rt :: route_table

definition legacy_node_init :: "u64 \<Rightarrow> u16 \<Rightarrow> legacy_node \<times> u64" where
  "legacy_node_init current_uuid ty =
     (let (n, u) = node_init current_uuid ty in
      (\<lparr>base = n, at = arp_table_init, rt = route_table_init\<rparr>, u))"

definition legacy_node_clean :: "legacy_node \<Rightarrow> legacy_node" where
  "legacy_node_clean ln =
     ln\<lparr>base := node_destroy_ports (base ln), at := arp_table_clean (at ln), rt := route_table_init\<rparr>"

definition legacy_node_set_intf_ipv4 :: "legacy_node \<Rightarrow> u32 \<Rightarrow> u32 \<Rightarrow> u32 \<Rightarrow> legacy_node res" where
  "legacy_node_set_intf_ipv4 ln pid addr netmask =
     (case node_port (base ln) pid of
        None \<Rightarrow> Inl Exit_Failure
      | Some p \<Rightarrow>
          let ln = ln\<lparr>base := upd_port (base ln) pid (\<lambda>p. port_add_v4addr p addr netmask)\<rparr>;
              e = \<lparr>re_ip = addr AND netmask, re_netmask = netmask, re_gateway = 0, re_iface = pid,
                   re_flags = 0, re_metric = 0\<rparr> in
          rbind (add_ipv4_entry (rt ln) e) (\<lambda>t. Inr (ln\<lparr>rt := t\<rparr>)))"

definition ip_lookup :: "legacy_node \<Rightarrow> netflow \<Rightarrow> bool \<Rightarrow> (netflow \<times> u32) res" where
  "ip_lookup ln flow ecmp =
     (let ecmp_hash = (if ecmp then netflow_calculate_hash flow else 0) in
      rbind (ipv4_lookup (rt ln) (ipv4_dst (nf_match flow)) ecmp_hash) (\<lambda>re.
        case re of
          Some re \<Rightarrow>
            Inr (netflow_add_out_port flow (re_iface re),
                 if re_gateway re = 0 then ipv4_dst (nf_match flow) else re_gateway re)
        | None \<Rightarrow> Inr (flow, 0)))"

definition bcast_eth_addr :: bytes where
  "bcast_eth_addr = [0xff, 0xff, 0xff, 0xff, 0xff, 0xff]"

text \<open>The request takes the addresses of the ports the flow is to leave by; \<open>None\<close> stands for the
  early return at an unknown port.\<close>

fun arp_request_ports :: "node \<Rightarrow> netflow \<Rightarrow> u32 list \<Rightarrow> netflow option res" where
  "arp_request_ports n arp_req [] = Inr (Some arp_req)"
| "arp_request_ports n arp_req (op # ops) =
     (case node_port n op of
        None \<Rightarrow> Inr None
      | Some p \<Rightarrow>
          rbind (deref (p_ipv4_addr p)) (\<lambda>addr.
            arp_request_ports n
              (netflow_add_out_port
                 (upd_match (\<lambda>m. m\<lparr>eth_src := p_eth_address p, arp_sha := p_eth_address p,
                                   arp_spa := v4_addr addr\<rparr>) arp_req) op) ops))"

definition resolve_mac :: "legacy_node \<Rightarrow> netflow \<Rightarrow> u32 \<Rightarrow> (legacy_node \<times> netflow \<times> netflow option) res" where
  "resolve_mac ln flow ip =
     (case arp_table_lookup (at ln) ip of
        Some ae \<Rightarrow>
          let flow = upd_match (\<lambda>m. m\<lparr>eth_dst := ae_eth_addr ae\<rparr>) flow in Inr (ln, flow, Some flow)
      | None \<Rightarrow>
          let arp_req = upd_match (\<lambda>m. m\<lparr>eth_type := ETH_TYPE_ARP\<rparr>) netflow_new in
          rbind (arp_request_ports (base ln) arp_req (out_ports flow)) (\<lambda>r.
            case r of
              None \<Rightarrow> Inr (ln, flow, None)
            | Some arp_req \<Rightarrow>
                let arp_req = upd_match (\<lambda>m. m\<lparr>eth_dst := bcast_eth_addr, arp_tpa := ip, arp_op := ARP_REQUEST\<rparr>) arp_req;
                    arp_req = arp_req\<lparr>start_time := start_time flow, pkt_cnt := 1, byte_cnt := 56\<rparr> in
                rbind (node_flow_push (base ln) flow) (\<lambda>(n, _).
                  Inr (ln\<lparr>base := n\<rparr>, flow, Some arp_req))))"

definition find_forwarding_ports ::
  "legacy_node \<Rightarrow> netflow \<Rightarrow> bool \<Rightarrow> (legacy_node \<times> netflow \<times> netflow option) res" where
  "find_forwarding_ports ln flow ecmp =
     rbind (ip_lookup ln flow ecmp) (\<lambda>(flow, ip).
       if ip \<noteq> 0 then resolve_mac ln flow ip else Inr (ln, flow, None))"

definition l2_arp_request :: "legacy_node \<Rightarrow> port \<Rightarrow> netflow \<Rightarrow> legacy_node \<times> netflow \<times> netflow option" where
  "l2_arp_request ln p flow =
     (let m = nf_match flow in
      if (case p_ipv4_addr p of None \<Rightarrow> False | Some i \<Rightarrow> arp_tpa m \<noteq> v4_addr i) then (ln, flow, None)
      else
        let ln = (case arp_table_lookup (at ln) (arp_spa m) of
                    None \<Rightarrow> ln\<lparr>at := arp_table_add_entry (at ln)
                                  (arp_table_entry_new (arp_spa m) (eth_src m) (in_port m))\<rparr>
                  | Some _ \<Rightarrow> ln);
            flow = upd_match (\<lambda>m. m\<lparr>arp_sha := p_eth_address p, arp_tha := eth_src m, eth_dst := eth_src m,
                     eth_src := p_eth_address p, arp_spa := arp_tpa m, arp_tpa := arp_spa m, arp_op := ARP_REPLY\<rparr>) flow;
            flow = netflow_add_out_port flow (in_port (nf_match flow))
        in (ln, flow, Some flow))"

text \<open>The reply is overwritten with zeros, which is what \<open>netflow_init\<close> does to a flow.\<close>

definition l2_arp_reply :: "legacy_node \<Rightarrow> netflow \<Rightarrow> (legacy_node \<times> netflow \<times> netflow option) res" where
  "l2_arp_reply ln flow =
     (let m = nf_match flow;
          time = start_time flow;
          e = arp_table_entry_new (arp_spa m) (arp_sha m) (in_port m);
          ln = ln\<lparr>at := arp_table_add_entry (at ln) e\<rparr> in
      if \<not> node_is_buffer_empty (base ln) then
        rbind (node_flow_pop (base ln)) (\<lambda>(n, flow).
          Inr (ln\<lparr>base := n\<rparr>, netflow_init,
               Some (upd_match (\<lambda>m. m\<lparr>eth_dst := ae_eth_addr e\<rparr>) (flow\<lparr>start_time := time\<rparr>))))
      else Inr (ln, netflow_init, None))"

definition l2_recv_netflow :: "legacy_node \<Rightarrow> netflow \<Rightarrow> (legacy_node \<times> netflow \<times> netflow option) res" where
  "l2_recv_netflow ln flow =
     (let m = nf_match flow in
      case node_port (base ln) (in_port m) of
        None \<Rightarrow> Inr (ln, flow, None)
      | Some p \<Rightarrow>
          if p_eth_address p \<noteq> eth_dst m \<and> bcast_eth_addr \<noteq> eth_dst m then Inr (ln, flow, None)
          else if eth_type m = ETH_TYPE_ARP then
            if arp_op m = ARP_REQUEST then Inr (l2_arp_request ln p flow)
            else if arp_op m = ARP_REPLY then l2_arp_reply ln flow
            else Inr (ln, flow, Some flow)
          else Inr (ln, flow, Some flow))"

definition is_l3_destination :: "legacy_node \<Rightarrow> netflow \<Rightarrow> bool" where
  "is_l3_destination ln flow =
     (let m = nf_match flow in
      case node_port (base ln) (in_port m) of
        None \<Rightarrow> False
      | Some p \<Rightarrow>
          (case p_ipv4_addr p of
             Some i \<Rightarrow>
               if ipv4_dst m \<noteq> 0 then v4_addr i = ipv4_dst m
               else (case p_ipv6_addr p of None \<Rightarrow> False | Some i6 \<Rightarrow> v6_addr i6 = ipv6_dst m)
           | None \<Rightarrow> (case p_ipv6_addr p of None \<Rightarrow> False | Some i6 \<Rightarrow> v6_addr i6 = ipv6_dst m)))"

subsection \<open>The next hop\<close>

text \<open>What a node with the routes \<open>es\<close> finds for a flow: the interface and the address of the next
  hop.\<close>

definition next_hop :: "route_entry_v4 list \<Rightarrow> netflow \<Rightarrow> bool \<Rightarrow> (u32 \<times> u32) option" where
  "next_hop es flow ecmp =
     (let dst = ipv4_dst (nf_match flow); hops = best_routes es dst in
      if hops = [] then None
      else let re = hops ! (unat (if ecmp then netflow_calculate_hash flow else 0) mod length hops) in
        Some (re_iface re, if re_gateway re = 0 then dst else re_gateway re))"

lemma ip_lookup_next_hop:
  assumes "table_of es (rt ln)"
  shows "ip_lookup ln flow ecmp =
    Inr (case next_hop es flow ecmp of
           None \<Rightarrow> (flow, 0)
         | Some (iface, ip) \<Rightarrow> (netflow_add_out_port flow iface, ip))"
  unfolding ip_lookup_def Let_def ipv4_lookup_table [OF assms] by (simp add: next_hop_def Let_def)

text \<open>The request for the link address of \<open>ip\<close> that leaves by the port \<open>p\<close>.\<close>

definition arp_request :: "port \<Rightarrow> ipv4_info \<Rightarrow> u32 \<Rightarrow> u32 \<Rightarrow> u64 \<Rightarrow> netflow" where
  "arp_request p i iface ip time =
     netflow_init\<lparr>pkt_cnt := 1, byte_cnt := 56, start_time := time, out_ports := [iface],
       nf_match := zero_key\<lparr>eth_type := ETH_TYPE_ARP, eth_src := p_eth_address p, eth_dst := bcast_eth_addr,
         arp_op := ARP_REQUEST, arp_sha := p_eth_address p, arp_spa := v4_addr i, arp_tpa := ip\<rparr>\<rparr>"

lemma forward_known:
  assumes "table_of es (rt ln)" "next_hop es flow ecmp = Some (iface, ip)" "ip \<noteq> 0"
    and "arp_table_lookup (at ln) ip = Some ae"
  shows "find_forwarding_ports ln flow ecmp =
    (let f = upd_match (\<lambda>m. m\<lparr>eth_dst := ae_eth_addr ae\<rparr>) (netflow_add_out_port flow iface) in Inr (ln, f, Some f))"
  using assms by (simp add: find_forwarding_ports_def ip_lookup_next_hop resolve_mac_def Let_def)

lemma forward_unknown:
  assumes "table_of es (rt ln)" "next_hop es flow ecmp = Some (iface, ip)" "ip \<noteq> 0"
    and "arp_table_lookup (at ln) ip = None" "out_ports flow = []"
    and "node_port (base ln) iface = Some p" "p_ipv4_addr p = Some i"
    and "node_flow_push (base ln) (netflow_add_out_port flow iface) = Inr (n, ok)"
  shows "find_forwarding_ports ln flow ecmp =
    Inr (ln\<lparr>base := n\<rparr>, netflow_add_out_port flow iface, Some (arp_request p i iface ip (start_time flow)))"
  using assms by (simp add: find_forwarding_ports_def ip_lookup_next_hop resolve_mac_def Let_def netflow_add_out_port_def
      LL_APPEND_def arp_request_def netflow_new_def netflow_init_def upd_match_def)

lemma forward_none:
  assumes "table_of es (rt ln)" "next_hop es flow ecmp = None"
  shows "find_forwarding_ports ln flow ecmp = Inr (ln, flow, None)"
  using assms by (simp add: find_forwarding_ports_def ip_lookup_next_hop)

subsection \<open>Answering and learning\<close>

text \<open>A reply that reaches a port of the node while flows wait.\<close>

lemma l2_reply_releases:
  assumes "node_port (base ln) (in_port (nf_match rep)) = Some p" "eth_dst (nf_match rep) = p_eth_address p"
    and "eth_type (nf_match rep) = ETH_TYPE_ARP" "arp_op (nf_match rep) = ARP_REPLY"
    and "buff_inv (base ln)" "waiting (base ln) = flow # rest"
  shows "\<exists>n. l2_recv_netflow ln rep =
      Inr (ln\<lparr>base := n, at := arp_table_add_entry (at ln)
             (arp_table_entry_new (arp_spa (nf_match rep)) (arp_sha (nf_match rep)) (in_port (nf_match rep)))\<rparr>,
           netflow_init,
           Some (upd_match (\<lambda>m. m\<lparr>eth_dst := take ETH_LEN (arp_sha (nf_match rep))\<rparr>) (flow\<lparr>start_time := start_time rep\<rparr>))) \<and>
    buff_inv n \<and> waiting n = rest \<and> (\<forall>q. node_port n q = node_port (base ln) q)"
proof -
  obtain n where n: "node_flow_pop (base ln) = Inr (n, flow)" "buff_inv n" "waiting n = rest"
    using waiting_flows.pop_top [OF assms(5,6)] by blast
  moreover have "node_port n q = node_port (base ln) q" for q
    by (rule node_flow_pop_port [OF n(1)])
  ultimately have n: "node_flow_pop (base ln) = Inr (n, flow)" "buff_inv n" "waiting n = rest"
      "\<forall>q. node_port n q = node_port (base ln) q"
    by blast+
  have "\<not> node_is_buffer_empty (base ln)"
    using waiting_flows.is_empty [OF assms(5)] assms(6) by simp
  then show ?thesis
    using assms(1-4) n
    by (intro exI [of _ n]) (simp add: l2_recv_netflow_def l2_arp_reply_def Let_def ARP_REQUEST_def ARP_REPLY_def)
qed

text \<open>A request for the address of a port, sent to it or to all, is answered by the port it
  arrives at: the answer goes back to the asker with the addresses swapped, and the asker's link
  address is learnt when it is not yet known.  Every other entry of the table stays, and so do the
  routes, the ports and the waiting flows.\<close>

theorem arp_request_answered:
  assumes "node_port (base ln) (in_port (nf_match req)) = Some p" "p_ipv4_addr p = Some i"
    and "eth_type (nf_match req) = ETH_TYPE_ARP" "arp_op (nf_match req) = ARP_REQUEST"
    and "arp_tpa (nf_match req) = v4_addr i" "eth_dst (nf_match req) \<in> {bcast_eth_addr, p_eth_address p}"
  shows "\<exists>ln' ans. l2_recv_netflow ln req = Inr (ln', ans, Some ans) \<and>
    eth_dst (nf_match ans) = eth_src (nf_match req) \<and> arp_tha (nf_match ans) = eth_src (nf_match req) \<and>
    eth_src (nf_match ans) = p_eth_address p \<and> arp_sha (nf_match ans) = p_eth_address p \<and>
    arp_spa (nf_match ans) = v4_addr i \<and> arp_tpa (nf_match ans) = arp_spa (nf_match req) \<and>
    arp_op (nf_match ans) = ARP_REPLY \<and> out_ports ans = out_ports req @ [in_port (nf_match req)] \<and>
    base ln' = base ln \<and> rt ln' = rt ln \<and>
    (\<forall>ip. arp_table_lookup (at ln') ip =
      (if ip = arp_spa (nf_match req) \<and> arp_table_lookup (at ln) ip = None
       then Some (arp_table_entry_new ip (eth_src (nf_match req)) (in_port (nf_match req)))
       else arp_table_lookup (at ln) ip))"
  using assms
  by (auto simp: l2_recv_netflow_def l2_arp_request_def Let_def upd_match_def netflow_add_out_port_def LL_APPEND_def
      split: option.splits)

text \<open>A node with one port at 10.0.0.1.\<close>

definition example_port :: port where
  "example_port = port_add_v4addr (port_new 1 [0, 0, 0, 0, 0, 1] 1000000 1000000) 0x0A000001 0xFF000000"

definition example_node :: legacy_node where
  "example_node = \<lparr>base = (fst (node_init 0 ROUTER))\<lparr>ports := [example_port]\<rparr>, at = arp_table_init, rt = route_table_init\<rparr>"

lemma example_node_port: "node_port (base example_node) 1 = Some example_port"
  by (simp add: example_node_def node_port_def HASH_FIND_def example_port_def port_add_v4addr_def port_new_def)

theorem arp_request_answered_witness:
  "\<exists>ln' ans. l2_recv_netflow example_node
      (netflow_init\<lparr>nf_match := zero_key\<lparr>in_port := 1, eth_type := ETH_TYPE_ARP, arp_op := ARP_REQUEST,
         arp_tpa := 0x0A000001, arp_spa := 0x0A000002, eth_src := [0, 0, 0, 0, 0, 2], eth_dst := bcast_eth_addr\<rparr>\<rparr>) =
      Inr (ln', ans, Some ans) \<and> arp_tpa (nf_match ans) = 0x0A000002"
  using arp_request_answered [of example_node "netflow_init\<lparr>nf_match := zero_key\<lparr>in_port := 1,
      eth_type := ETH_TYPE_ARP, arp_op := ARP_REQUEST, arp_tpa := 0x0A000001, arp_spa := 0x0A000002,
      eth_src := [0, 0, 0, 0, 0, 2], eth_dst := bcast_eth_addr\<rparr>\<rparr>" example_port
      "\<lparr>v4_addr = 0x0A000001, v4_netmask = 0xFF000000, v4_bcast = None\<rparr>"]
  by (simp add: example_node_port) (simp add: example_port_def port_add_v4addr_def, blast)

end
