(* ===== verification/App.thy ===== *)
theory App
  imports Netflow
begin

section \<open>Applications (net/app)\<close>

text \<open>
  The applications of a host: ping and a UDP source.  The argument of an execution is a block of
  memory, read with its bounds in the order of the host.  An application of another type is created
  with unset function pointers: \<^term>\<open>None\<close> below.
\<close>

subsection \<open>Definitions\<close>

definition PINGV4 :: u16 where "PINGV4 = 1"
definition UDP :: u16 where "UDP = 17"
definition PINGV6 :: u16 where "PINGV6 = 58"

text \<open>An execution has an address, by which the events refer to it.\<close>

record exec =
  ex_addr :: nat
  ex_id :: u64
  ex_type :: u32
  exec_cnt :: u32
  ex_start_time :: u64
  ex_args :: bytes

datatype app_functions = Raw_Udp | Ping

record app =
  app_type :: u16
  app_functions :: "app_functions option"

record raw_udp_args =
  udp_rate :: u64
  udp_ip_dst :: u32
  udp_dst_port :: u16
  udp_src_port :: u16

definition app_creator :: "u16 \<Rightarrow> app" where
  "app_creator ty =
     \<lparr>app_type = ty,
      app_functions = (if ty = UDP then Some Raw_Udp else if ty = PINGV4 then Some Ping else None)\<rparr>"

definition app_new_exec :: "nat \<Rightarrow> u64 \<Rightarrow> u32 \<Rightarrow> u32 \<Rightarrow> u64 \<Rightarrow> bytes \<Rightarrow> nat \<Rightarrow> exec res" where
  "app_new_exec p eid ty execs_num start args arg_size =
     (if length args < arg_size then Inl Out_Of_Bounds
      else Inr \<lparr>ex_addr = p, ex_id = eid, ex_type = ty, exec_cnt = execs_num, ex_start_time = start,
                ex_args = take arg_size args\<rparr>)"

text \<open>Reads in the order of the host.\<close>

definition rm16 :: "bytes \<Rightarrow> nat \<Rightarrow> u16 res" where
  "rm16 buf i = rbind (rd16 buf i) (\<lambda>x. Inr (swap16 x))"

definition rm32 :: "bytes \<Rightarrow> nat \<Rightarrow> u32 res" where
  "rm32 buf i = rbind (rd32 buf i) (\<lambda>x. Inr (swap32 x))"

definition rm64 :: "bytes \<Rightarrow> nat \<Rightarrow> u64 res" where
  "rm64 buf i =
     rbind (rm32 buf i) (\<lambda>lo. rbind (rm32 buf (i + 4)) (\<lambda>hi. Inr (ucast lo OR push_bit 32 (ucast hi))))"

text \<open>A handler gives back the flow and whether there is an answer to send.\<close>

definition ping_handle_netflow :: "netflow \<Rightarrow> netflow \<times> int" where
  "ping_handle_netflow flow =
     (let ty = icmpv4_type (nf_match flow) in
      if ty = ECHO then
        (upd_match (\<lambda>m. m\<lparr>icmpv4_type := ECHO_REPLY, ipv4_dst := ipv4_src m\<rparr>) flow, 1)
      else (flow, 0))"

definition ping_request :: "u64 \<Rightarrow> netflow \<Rightarrow> u32 \<Rightarrow> netflow" where
  "ping_request start flow ip_dst =
     (let flow = upd_match (\<lambda>m. m\<lparr>eth_type := ETH_TYPE_IP, ip_proto := IP_PROTO_ICMPV4, ipv4_dst := ip_dst,
                   icmpv4_type := ECHO, icmpv4_code := 0\<rparr>) flow in
      flow\<lparr>pkt_cnt := 1, byte_cnt := 64,
           icmp_info := \<lparr>echo_id = 0x42, echo_seq = 0,
             echo_data = mem64 start @ drop 8 (echo_data (icmp_info flow))\<rparr>,
           start_time := start\<rparr>)"

definition ping_start :: "u64 \<Rightarrow> bytes \<Rightarrow> netflow res" where
  "ping_start start args = rbind (rm32 args 0) (\<lambda>ip. Inr (ping_request start netflow_new ip))"

definition raw_udp_handle_netflow :: "netflow \<Rightarrow> netflow \<times> int" where
  "raw_udp_handle_netflow flow = (flow, 0)"

definition raw_udp_flow :: "u64 \<Rightarrow> netflow \<Rightarrow> raw_udp_args \<Rightarrow> netflow" where
  "raw_udp_flow start flow args =
     (let pkt_size = 1470 + 34;
          cnt = udp_rate args div (pkt_size * 8);
          flow = upd_match (\<lambda>m. m\<lparr>eth_type := ETH_TYPE_IP, ip_proto := IP_PROTO_UDP, ipv4_dst := udp_ip_dst args,
                   udp_src := udp_src_port args, udp_dst := udp_dst_port args\<rparr>) flow in
      flow\<lparr>pkt_cnt := cnt, byte_cnt := cnt * pkt_size, start_time := start\<rparr>)"

definition raw_udp_start :: "u64 \<Rightarrow> bytes \<Rightarrow> netflow res" where
  "raw_udp_start start args =
     rbind (rm64 args 0) (\<lambda>rate. rbind (rm32 args 8) (\<lambda>ip. rbind (rm16 args 12) (\<lambda>dport.
       rbind (rm16 args 14) (\<lambda>sport.
         Inr (raw_udp_flow start netflow_new
           \<lparr>udp_rate = rate, udp_ip_dst = ip, udp_dst_port = dport, udp_src_port = sport\<rparr>)))))"

text \<open>Calls through the function pointers of an application.\<close>

definition app_start_fn :: "app \<Rightarrow> u64 \<Rightarrow> bytes \<Rightarrow> netflow res" where
  "app_start_fn a start args =
     (case app_functions a of
        None \<Rightarrow> Inl Uninitialised
      | Some Raw_Udp \<Rightarrow> raw_udp_start start args
      | Some Ping \<Rightarrow> ping_start start args)"

definition app_handle_fn :: "app \<Rightarrow> netflow \<Rightarrow> (netflow \<times> int) res" where
  "app_handle_fn a flow =
     (case app_functions a of
        None \<Rightarrow> Inl Uninitialised
      | Some Raw_Udp \<Rightarrow> Inr (raw_udp_handle_netflow flow)
      | Some Ping \<Rightarrow> Inr (ping_handle_netflow flow))"

subsection \<open>Arguments written and read\<close>

lemma rm32_mem32: "length pre = i \<Longrightarrow> rm32 (pre @ mem32 x @ post) i = Inr x"
proof -
  assume "length pre = i"
  moreover have "mem32 x = put32 (swap32 x)"
    by (simp add: mem32_def swap32_def) (simp add: put32_def)
  ultimately show ?thesis
    by (simp add: rm32_def rd32_put32)
qed

lemma rm16_mem16: "length pre = i \<Longrightarrow> rm16 (pre @ mem16 x @ post) i = Inr x"
proof -
  assume "length pre = i"
  moreover have "mem16 x = put16 (swap16 x)"
    by (simp add: mem16_def swap16_def) (simp add: put16_def)
  ultimately show ?thesis
    by (simp add: rm16_def rd16_put16)
qed

lemma mem64_halves: "mem64 x = mem32 (ucast x) @ mem32 (ucast (drop_bit 32 x))"
  by (simp add: mem64_def mem32_def put32_def upt_rec, intro conjI; rule bit_word_eqI)
    (auto simp: bit_simps)

lemma halves_join: "ucast (ucast x :: u32) OR push_bit 32 (ucast (ucast (drop_bit 32 x) :: u32)) = x" for x :: u64
  by (rule bit_word_eqI) (auto simp: bit_simps)

lemma rm64_mem64: "length pre = i \<Longrightarrow> rm64 (pre @ mem64 x @ post) i = Inr x"
  using rm32_mem32 [of pre i "ucast x" "mem32 (ucast (drop_bit 32 x)) @ post"]
    rm32_mem32 [of "pre @ mem32 (ucast x)" "i + 4" "ucast (drop_bit 32 x)" post]
  by (simp add: rm64_def mem64_halves halves_join mem32_def)

text \<open>The flow of a UDP source carries whole packets and never more bits than its rate.\<close>

lemma raw_udp_start_exact:
  "raw_udp_start start (mem64 rate @ mem32 ip @ mem16 dport @ mem16 sport) =
     Inr (raw_udp_flow start netflow_new
       \<lparr>udp_rate = rate, udp_ip_dst = ip, udp_dst_port = dport, udp_src_port = sport\<rparr>)"
proof -
  have len: "length (mem64 rate) = 8" "length (mem32 ip) = 4" "length (mem16 dport) = 2"
    by (simp_all add: mem64_def mem32_def mem16_def)
  show ?thesis
    using rm64_mem64 [of "[]" 0 rate "mem32 ip @ mem16 dport @ mem16 sport"]
      rm32_mem32 [of "mem64 rate" 8 ip "mem16 dport @ mem16 sport"]
      rm16_mem16 [of "mem64 rate @ mem32 ip" 12 dport "mem16 sport"]
      rm16_mem16 [of "mem64 rate @ mem32 ip @ mem16 dport" 14 sport "[]"] len
    by (simp add: raw_udp_start_def)
qed

lemma raw_udp_rate_bound:
  "unat (byte_cnt (raw_udp_flow start nf args)) * 8 \<le> unat (udp_rate args) \<and>
   byte_cnt (raw_udp_flow start nf args) = pkt_cnt (raw_udp_flow start nf args) * 1504"
proof -
  have "unat (udp_rate args div 12032 * 1504) = unat (udp_rate args) div 12032 * 1504"
  proof -
    have "unat (udp_rate args) < 2 ^ 64"
      using unsigned_less [of "udp_rate args", where 'a = nat] by simp
    then have "unat (udp_rate args) div 12032 * 1504 < 2 ^ 64"
      by simp
    then show ?thesis
      by (simp add: unat_word_ariths unat_div)
  qed
  moreover have "unat (udp_rate args) div 12032 * 1504 * 8 \<le> unat (udp_rate args)"
    by simp
  ultimately show ?thesis
    by (simp add: raw_udp_flow_def Let_def)
qed

end
