(* ===== verification/Host.thy ===== *)
theory Host
  imports Legacy_Node App
begin

section \<open>Hosts (net/host)\<close>

text \<open>
  A host: a legacy node with applications and their executions.  The tables of applications and
  executions are searched by the first two bytes of a type and by the identifier of an execution.
\<close>

subsection \<open>Definitions\<close>

record host =
  ep :: legacy_node
  apps :: "app list"
  execs :: "exec list"

definition host_new :: "u64 \<Rightarrow> host \<times> u64" where
  "host_new current_uuid =
     (let (ln, u) = legacy_node_init current_uuid HOST in (\<lparr>ep = ln, apps = [], execs = []\<rparr>, u))"

definition host_destroy :: "host \<Rightarrow> host" where
  "host_destroy h =
     h\<lparr>ep := legacy_node_clean (ep h),
       apps := foldl (HASH_DEL app_type) (apps h) (map app_type (apps h)),
       execs := foldl (HASH_DEL ex_id) (execs h) (map ex_id (execs h))\<rparr>"

definition host_add_port :: "host \<Rightarrow> u32 \<Rightarrow> bytes \<Rightarrow> u32 \<Rightarrow> u32 \<Rightarrow> host res" where
  "host_add_port h pid eth_addr speed curr_speed =
     rbind (node_add_port (base (ep h)) pid eth_addr speed curr_speed) (\<lambda>n.
       Inr (h\<lparr>ep := (ep h)\<lparr>base := n\<rparr>\<rparr>))"

definition host_set_intf_ipv4 :: "host \<Rightarrow> u32 \<Rightarrow> u32 \<Rightarrow> u32 \<Rightarrow> host res" where
  "host_set_intf_ipv4 h pid addr netmask =
     rbind (legacy_node_set_intf_ipv4 (ep h) pid addr netmask) (\<lambda>ln. Inr (h\<lparr>ep := ln\<rparr>))"

text \<open>The source addresses of a flow are those of its output ports, the last one wins.\<close>

fun set_source :: "node \<Rightarrow> u32 list \<Rightarrow> netflow \<Rightarrow> netflow res" where
  "set_source n [] f = Inr f"
| "set_source n (op # ops) f =
     rbind (deref (node_port n op)) (\<lambda>p.
       rbind (deref (p_ipv4_addr p)) (\<lambda>addr.
         set_source n ops (upd_match (\<lambda>m. m\<lparr>ipv4_src := v4_addr addr, eth_src := p_eth_address p\<rparr>) f)))"

text \<open>The answer of an application.  The loop goes over the output ports of the flow that was
  received, whichever flow is returned.\<close>

definition host_answer :: "host \<Rightarrow> netflow \<Rightarrow> (host \<times> netflow option) res" where
  "host_answer h nf =
     rbind (find_forwarding_ports (ep h) nf False) (\<lambda>(ln, flow, f).
       case f of
         None \<Rightarrow> Inr (h\<lparr>ep := ln\<rparr>, None)
       | Some f \<Rightarrow> rbind (set_source (base ln) (out_ports flow) f) (\<lambda>f. Inr (h\<lparr>ep := ln\<rparr>, Some f)))"

definition host_recv_netflow :: "host \<Rightarrow> netflow \<Rightarrow> (host \<times> netflow option) res" where
  "host_recv_netflow h flow =
     (let ety = eth_type (nf_match flow) in
      rbind (l2_recv_netflow (ep h) flow) (\<lambda>(ln, flow, nf).
        let h = h\<lparr>ep := ln\<rparr> in
        case nf of
          None \<Rightarrow> Inr (h, None)
        | Some nf \<Rightarrow>
            if ety = ETH_TYPE_IP \<or> ety = ETH_TYPE_IPV6 then
              if is_l3_destination (ep h) nf then
                (case HASH_FIND app_type (apps h) (ucast (ip_proto (nf_match flow))) of
                   None \<Rightarrow> Inr (h, None)
                 | Some app \<Rightarrow>
                     rbind (app_handle_fn app nf) (\<lambda>(nf, answer).
                       if answer \<noteq> 0 then host_answer h nf else Inr (h, None)))
              else Inr (h, None)
            else if ety = ETH_TYPE_ARP then
              let new_eth_type = eth_type (nf_match nf) in
              if new_eth_type = ETH_TYPE_IP \<or> new_eth_type = ETH_TYPE_IPV6 then
                rbind (set_source (base (ep h)) (out_ports nf) nf) (\<lambda>nf. Inr (h, Some nf))
              else Inr (h, Some nf)
            else Inr (h, None)))"

definition host_send_netflow :: "host \<Rightarrow> netflow \<Rightarrow> u32 \<Rightarrow> host" where
  "host_send_netflow h flow out_port =
     h\<lparr>ep := (ep h)\<lparr>base := node_update_port_stats (base (ep h)) flow out_port\<rparr>\<rparr>"

definition host_add_app :: "host \<Rightarrow> u16 \<Rightarrow> host" where
  "host_add_app h ty = h\<lparr>apps := HASH_ADD (apps h) (app_creator ty)\<rparr>"

definition host_add_app_exec ::
  "host \<Rightarrow> nat \<Rightarrow> u64 \<Rightarrow> u32 \<Rightarrow> u32 \<Rightarrow> u64 \<Rightarrow> bytes \<Rightarrow> nat \<Rightarrow> host res" where
  "host_add_app_exec h p eid ty execs_num start args arg_size =
     (case HASH_FIND app_type (apps h) (ucast ty) of
        None \<Rightarrow> Inr h
      | Some app \<Rightarrow>
          rbind (app_new_exec p eid ty execs_num start args arg_size) (\<lambda>exec.
            Inr (h\<lparr>execs := HASH_ADD (execs h) exec\<rparr>)))"

text \<open>The execution is written through its pointer: it is returned with its count decremented.\<close>

definition host_execute_app :: "host \<Rightarrow> exec \<Rightarrow> (host \<times> exec \<times> netflow option) res" where
  "host_execute_app h exec =
     (case HASH_FIND app_type (apps h) (ucast (ex_type exec)) of
        None \<Rightarrow> Inr (h, exec, None)
      | Some app \<Rightarrow>
          rbind (app_start_fn app (ex_start_time exec) (ex_args exec)) (\<lambda>flow.
            let flow = flow\<lparr>exec_id := ex_id exec\<rparr>;
                exec = exec\<lparr>exec_cnt := exec_cnt exec - 1\<rparr> in
            rbind (find_forwarding_ports (ep h) flow False) (\<lambda>(ln, _, flow).
              let h = h\<lparr>ep := ln\<rparr> in
              case flow of
                None \<Rightarrow> Inr (h, exec, None)
              | Some flow \<Rightarrow>
                  rbind (set_source (base ln) (out_ports flow) flow) (\<lambda>flow. Inr (h, exec, Some flow)))))"

definition host_set_default_gw :: "host \<Rightarrow> u32 \<Rightarrow> u32 \<Rightarrow> host res" where
  "host_set_default_gw h ip port =
     rbind (add_ipv4_entry (rt (ep h))
         \<lparr>re_ip = 0, re_netmask = 0, re_gateway = ip, re_iface = port, re_flags = 0, re_metric = 0\<rparr>) (\<lambda>t.
       Inr (h\<lparr>ep := (ep h)\<lparr>rt := t\<rparr>\<rparr>))"

definition host_set_name :: "host \<Rightarrow> string option \<Rightarrow> host \<times> bool" where
  "host_set_name h name =
     (let (n, ok) = node_set_name (base (ep h)) name in (h\<lparr>ep := (ep h)\<lparr>base := n\<rparr>\<rparr>, ok))"

definition host_name :: "host \<Rightarrow> string" where
  "host_name h = node_name (base (ep h))"

definition host_port :: "host \<Rightarrow> u32 \<Rightarrow> port option" where
  "host_port h pid = node_port (base (ep h)) pid"

definition host_uuid :: "host \<Rightarrow> u64" where
  "host_uuid h = uuid (base (ep h))"

definition host_apps :: "host \<Rightarrow> app list" where
  "host_apps h = apps h"

definition host_execs :: "host \<Rightarrow> exec list" where
  "host_execs h = execs h"

subsection \<open>A ping\<close>

text \<open>A host that stands at a port with an address, knows a direct route to its peer, has no flow
  waiting and runs ping.\<close>

definition pinger :: "host \<Rightarrow> u32 \<Rightarrow> port \<Rightarrow> u32 \<Rightarrow> u32 \<Rightarrow> route_entry_v4 list \<Rightarrow> bool" where
  "pinger h pid p ip peer es \<longleftrightarrow>
     node_port (base (ep h)) pid = Some p \<and> (\<exists>i. p_ipv4_addr p = Some i \<and> v4_addr i = ip) \<and>
     length (p_eth_address p) = ETH_LEN \<and> ip \<noteq> 0 \<and> peer \<noteq> 0 \<and> ip \<noteq> peer \<and>
     table_of es (rt (ep h)) \<and>
     (\<exists>re rest. best_routes es peer = re # rest \<and> re_iface re = pid \<and> re_gateway re = 0) \<and>
     buff_inv (base (ep h)) \<and> waiting (base (ep h)) = [] \<and>
     HASH_FIND app_type (apps h) PINGV4 = Some (app_creator PINGV4)"

text \<open>What the network does to a flow between two hosts on one link: it arrives later, at the port of
  the peer, and its output ports have been used up.\<close>

definition deliver :: "u32 \<Rightarrow> u64 \<Rightarrow> netflow \<Rightarrow> netflow" where
  "deliver pid time nf = upd_match (\<lambda>m. m\<lparr>in_port := pid\<rparr>) (nf\<lparr>out_ports := [], start_time := time\<rparr>)"

lemma pinger_next_hop:
  assumes "pinger h pid p ip peer es" "ipv4_dst (nf_match flow) = peer"
  shows "next_hop es flow False = Some (pid, peer)"
proof -
  obtain re rest where "best_routes es peer = re # rest" "re_iface re = pid" "re_gateway re = 0"
    using assms(1) by (auto simp: pinger_def)
  then show ?thesis
    using assms(2) by (simp add: next_hop_def Let_def)
qed

lemma set_source_one:
  "node_port n pid = Some p \<Longrightarrow> p_ipv4_addr p = Some i \<Longrightarrow>
     set_source n [pid] f = Inr (upd_match (\<lambda>m. m\<lparr>ipv4_src := v4_addr i, eth_src := p_eth_address p\<rparr>) f)"
  by simp

definition ping_flow :: "exec \<Rightarrow> u32 \<Rightarrow> netflow" where
  "ping_flow x peer = (ping_request (ex_start_time x) netflow_new peer)\<lparr>exec_id := ex_id x\<rparr>"

lemma ping_flow_fields [simp]:
  "ipv4_dst (nf_match (ping_flow x peer)) = peer" "out_ports (ping_flow x peer) = []"
  "eth_type (nf_match (ping_flow x peer)) = ETH_TYPE_IP" "ip_proto (nf_match (ping_flow x peer)) = IP_PROTO_ICMPV4"
  "icmpv4_type (nf_match (ping_flow x peer)) = ECHO"
  by (simp_all add: ping_flow_def ping_request_def netflow_new_def netflow_init_def upd_match_def Let_def)

text \<open>The start of a ping to an unknown link address sends a request and keeps the flow.\<close>

lemma ping_starts:
  assumes h: "pinger h pid p ip peer es" and "arp_table_lookup (at (ep h)) peer = None"
    and "ucast (ex_type x) = PINGV4" "ex_args x = mem32 peer"
  shows "\<exists>n i. host_execute_app h x =
      Inr (h\<lparr>ep := (ep h)\<lparr>base := n\<rparr>\<rparr>, x\<lparr>exec_cnt := exec_cnt x - 1\<rparr>,
        Some (upd_match (\<lambda>m. m\<lparr>ipv4_src := ip\<rparr>) (arp_request p i pid peer (start_time (ping_flow x peer))))) \<and>
    p_ipv4_addr p = Some i \<and> v4_addr i = ip \<and> buff_inv n \<and> waiting n = [(ping_flow x peer)\<lparr>out_ports := [pid]\<rparr>] \<and>
    (\<forall>q. node_port n q = node_port (base (ep h)) q)"
proof -
  obtain i where p: "node_port (base (ep h)) pid = Some p" "p_ipv4_addr p = Some i" "v4_addr i = ip" "peer \<noteq> 0"
      "table_of es (rt (ep h))" "buff_inv (base (ep h))" "waiting (base (ep h)) = []"
    using h by (auto simp: pinger_def)
  have start: "app_start_fn (app_creator PINGV4) (ex_start_time x) (ex_args x) =
      Inr (ping_request (ex_start_time x) netflow_new peer)"
    using rm32_mem32 [of "[]" 0 peer "[]"] assms(4)
    by (simp add: app_start_fn_def app_creator_def ping_start_def PINGV4_def UDP_def)
  have app: "HASH_FIND app_type (apps h) PINGV4 = Some (app_creator PINGV4)"
    using h by (simp add: pinger_def)
  have add: "netflow_add_out_port (ping_flow x peer) pid = (ping_flow x peer)\<lparr>out_ports := [pid]\<rparr>"
    by (simp add: netflow_add_out_port_def LL_APPEND_def)
  obtain n where n: "node_flow_push (base (ep h)) ((ping_flow x peer)\<lparr>out_ports := [pid]\<rparr>) = Inr (n, True)"
      "buff_inv n" "waiting n = [(ping_flow x peer)\<lparr>out_ports := [pid]\<rparr>]"
    using waiting_flows.push_room [OF p(6), of "(ping_flow x peer)\<lparr>out_ports := [pid]\<rparr>"] p(7) by auto
  have fwd: "find_forwarding_ports (ep h) (ping_flow x peer) False =
      Inr ((ep h)\<lparr>base := n\<rparr>, (ping_flow x peer)\<lparr>out_ports := [pid]\<rparr>,
           Some (arp_request p i pid peer (start_time (ping_flow x peer))))"
    using forward_unknown [OF p(5) pinger_next_hop [OF h] p(4) assms(2) _ p(1,2), of "ping_flow x peer" n True] n(1) add by simp
  have port: "node_port n q = node_port (base (ep h)) q" for q
    by (rule node_flow_push_port [OF n(1)])
  have "host_execute_app h x = Inr (h\<lparr>ep := (ep h)\<lparr>base := n\<rparr>\<rparr>, x\<lparr>exec_cnt := exec_cnt x - 1\<rparr>,
      Some (upd_match (\<lambda>m. m\<lparr>ipv4_src := ip\<rparr>) (arp_request p i pid peer (start_time (ping_flow x peer)))))"
    unfolding host_execute_app_def assms(3) app option.case start rbind_simps Let_def ping_flow_def [symmetric] fwd
    using p(1-3) by (simp add: port arp_request_def upd_match_def)
  then show ?thesis
    using p(2,3) n(2,3) port by blast
qed

text \<open>A host answers an ARP request that reaches its port.\<close>

lemma host_answers_arp:
  assumes "node_port (base (ep h)) (in_port (nf_match req)) = Some p" "p_ipv4_addr p = Some i"
    and "eth_type (nf_match req) = ETH_TYPE_ARP" "arp_op (nf_match req) = ARP_REQUEST"
    and "arp_tpa (nf_match req) = v4_addr i" "eth_dst (nf_match req) = bcast_eth_addr"
    and "arp_table_lookup (at (ep h)) (arp_spa (nf_match req)) = None"
  shows "\<exists>ans. host_recv_netflow h req =
      Inr (h\<lparr>ep := (ep h)\<lparr>at := arp_table_add_entry (at (ep h))
        (arp_table_entry_new (arp_spa (nf_match req)) (eth_src (nf_match req)) (in_port (nf_match req)))\<rparr>\<rparr>, Some ans) \<and>
    eth_type (nf_match ans) = ETH_TYPE_ARP \<and> arp_op (nf_match ans) = ARP_REPLY \<and>
    eth_dst (nf_match ans) = eth_src (nf_match req) \<and> arp_sha (nf_match ans) = p_eth_address p \<and>
    arp_spa (nf_match ans) = v4_addr i \<and> out_ports ans = out_ports req @ [in_port (nf_match req)]"
  using assms
  by (simp add: host_recv_netflow_def l2_recv_netflow_def l2_arp_request_def Let_def upd_match_def
      netflow_add_out_port_def LL_APPEND_def eth_types)

text \<open>The reply releases the flow that waits, with the addresses of the host as its source.\<close>

lemma host_reply_releases:
  assumes "node_port (base (ep h)) (in_port (nf_match rep)) = Some p" "p_ipv4_addr p = Some i"
    and "eth_dst (nf_match rep) = p_eth_address p" "eth_type (nf_match rep) = ETH_TYPE_ARP" "arp_op (nf_match rep) = ARP_REPLY"
    and "buff_inv (base (ep h))" "waiting (base (ep h)) = flow # rest"
    and "eth_type (nf_match flow) = ETH_TYPE_IP" "out_ports flow = [in_port (nf_match rep)]"
  shows "\<exists>n. host_recv_netflow h rep =
      Inr (h\<lparr>ep := (ep h)\<lparr>base := n, at := arp_table_add_entry (at (ep h))
             (arp_table_entry_new (arp_spa (nf_match rep)) (arp_sha (nf_match rep)) (in_port (nf_match rep)))\<rparr>\<rparr>,
           Some (upd_match (\<lambda>m. m\<lparr>eth_dst := take ETH_LEN (arp_sha (nf_match rep)), ipv4_src := v4_addr i, eth_src := p_eth_address p\<rparr>)
             (flow\<lparr>start_time := start_time rep\<rparr>))) \<and>
    buff_inv n \<and> waiting n = rest \<and> (\<forall>q. node_port n q = node_port (base (ep h)) q)"
proof -
  obtain n where n: "l2_recv_netflow (ep h) rep =
      Inr ((ep h)\<lparr>base := n, at := arp_table_add_entry (at (ep h))
             (arp_table_entry_new (arp_spa (nf_match rep)) (arp_sha (nf_match rep)) (in_port (nf_match rep)))\<rparr>,
           netflow_init,
           Some (upd_match (\<lambda>m. m\<lparr>eth_dst := take ETH_LEN (arp_sha (nf_match rep))\<rparr>) (flow\<lparr>start_time := start_time rep\<rparr>)))"
      "buff_inv n" "waiting n = rest" "\<forall>q. node_port n q = node_port (base (ep h)) q"
    using l2_reply_releases [OF assms(1,3-7)] by blast
  show ?thesis
    using n(2-4) assms(1,2,4,8,9)
    by (intro exI [of _ n]) (simp add: host_recv_netflow_def n(1) Let_def eth_types upd_match_def)
qed

text \<open>An echo request for the host is answered directly when the link address of its sender is
  known.\<close>

lemma host_answers_echo:
  assumes h: "pinger h pid p ip peer es" and "arp_table_lookup (at (ep h)) peer = Some ae"
    and "in_port (nf_match req) = pid" "eth_type (nf_match req) = ETH_TYPE_IP" "ip_proto (nf_match req) = IP_PROTO_ICMPV4"
    and "icmpv4_type (nf_match req) = ECHO" "eth_dst (nf_match req) = p_eth_address p"
    and "ipv4_dst (nf_match req) = ip" "ipv4_src (nf_match req) = peer" "out_ports req = []"
  shows "\<exists>ans. host_recv_netflow h req = Inr (h, Some ans) \<and>
    ans = upd_match (\<lambda>m. m\<lparr>icmpv4_type := ECHO_REPLY, ipv4_dst := peer, eth_dst := ae_eth_addr ae, ipv4_src := ip,
      eth_src := p_eth_address p\<rparr>) (req\<lparr>out_ports := [pid]\<rparr>)"
proof -
  obtain i where p: "node_port (base (ep h)) pid = Some p" "p_ipv4_addr p = Some i" "v4_addr i = ip" "ip \<noteq> 0" "peer \<noteq> 0"
      "table_of es (rt (ep h))" "HASH_FIND app_type (apps h) PINGV4 = Some (app_creator PINGV4)"
    using h by (auto simp: pinger_def)
  define rep where "rep = upd_match (\<lambda>m. m\<lparr>icmpv4_type := ECHO_REPLY, ipv4_dst := peer\<rparr>) req"
  have l2: "l2_recv_netflow (ep h) req = Inr (ep h, req, Some req)"
    using p(1) assms(3,4,7) by (simp add: l2_recv_netflow_def Let_def eth_types)
  have l3: "is_l3_destination (ep h) req"
    using p assms(3,8) by (simp add: is_l3_destination_def Let_def)
  have handle: "app_handle_fn (app_creator PINGV4) req = Inr (rep, 1)"
    using assms(6,9) by (simp add: app_handle_fn_def app_creator_def PINGV4_def UDP_def ping_handle_netflow_def rep_def upd_match_def)
  have dst: "ipv4_dst (nf_match rep) = peer" and out: "out_ports rep = []"
    using assms(10) by (simp_all add: rep_def upd_match_def)
  have fwd: "find_forwarding_ports (ep h) rep False =
      (let f = upd_match (\<lambda>m. m\<lparr>eth_dst := ae_eth_addr ae\<rparr>) (netflow_add_out_port rep pid) in Inr (ep h, f, Some f))"
    by (rule forward_known [OF p(6) pinger_next_hop [OF h dst] p(5) assms(2)])
  have proto: "ucast (ip_proto (nf_match req)) = PINGV4"
    using assms(5) by (simp add: IP_PROTO_ICMPV4_def PINGV4_def)
  have self: "h\<lparr>ep := ep h\<rparr> = h"
    by simp
  show ?thesis
    using p(1-3,7) assms(4) out
    by (simp add: host_recv_netflow_def l2 l3 proto handle host_answer_def fwd Let_def self)
      (simp add: upd_match_def netflow_add_out_port_def LL_APPEND_def rep_def assms(10))
qed

text \<open>An echo reply for the host ends there.\<close>

lemma host_takes_reply:
  assumes h: "pinger h pid p ip peer es"
    and "in_port (nf_match rep) = pid" "eth_type (nf_match rep) = ETH_TYPE_IP" "ip_proto (nf_match rep) = IP_PROTO_ICMPV4"
    and "icmpv4_type (nf_match rep) = ECHO_REPLY" "eth_dst (nf_match rep) = p_eth_address p" "ipv4_dst (nf_match rep) = ip"
  shows "host_recv_netflow h rep = Inr (h, None)"
proof -
  obtain i where p: "node_port (base (ep h)) pid = Some p" "p_ipv4_addr p = Some i" "v4_addr i = ip" "ip \<noteq> 0"
      "HASH_FIND app_type (apps h) PINGV4 = Some (app_creator PINGV4)"
    using h by (auto simp: pinger_def)
  have "l2_recv_netflow (ep h) rep = Inr (ep h, rep, Some rep)"
    using p(1) assms(2,3,6) by (simp add: l2_recv_netflow_def Let_def eth_types)
  moreover have "is_l3_destination (ep h) rep"
    using p assms(2,7) by (simp add: is_l3_destination_def Let_def)
  moreover have "app_handle_fn (app_creator PINGV4) rep = Inr (rep, 0)"
    using assms(5) by (simp add: app_handle_fn_def app_creator_def PINGV4_def UDP_def ping_handle_netflow_def ECHO_def ECHO_REPLY_def)
  moreover have "ucast (ip_proto (nf_match rep)) = PINGV4"
    using assms(4) by (simp add: IP_PROTO_ICMPV4_def PINGV4_def)
  ultimately show ?thesis
    using p(5) assms(3) by (simp add: host_recv_netflow_def Let_def)
qed

lemma deliver_fields [simp]:
  "in_port (nf_match (deliver pid t nf)) = pid" "out_ports (deliver pid t nf) = []" "start_time (deliver pid t nf) = t"
  "eth_type (nf_match (deliver pid t nf)) = eth_type (nf_match nf)" "eth_dst (nf_match (deliver pid t nf)) = eth_dst (nf_match nf)"
  "eth_src (nf_match (deliver pid t nf)) = eth_src (nf_match nf)" "ip_proto (nf_match (deliver pid t nf)) = ip_proto (nf_match nf)"
  "ipv4_src (nf_match (deliver pid t nf)) = ipv4_src (nf_match nf)" "ipv4_dst (nf_match (deliver pid t nf)) = ipv4_dst (nf_match nf)"
  "icmpv4_type (nf_match (deliver pid t nf)) = icmpv4_type (nf_match nf)" "arp_op (nf_match (deliver pid t nf)) = arp_op (nf_match nf)"
  "arp_spa (nf_match (deliver pid t nf)) = arp_spa (nf_match nf)" "arp_tpa (nf_match (deliver pid t nf)) = arp_tpa (nf_match nf)"
  "arp_sha (nf_match (deliver pid t nf)) = arp_sha (nf_match nf)" "icmp_info (deliver pid t nf) = icmp_info nf"
  "exec_id (deliver pid t nf) = exec_id nf"
  by (simp_all add: deliver_def upd_match_def)

text \<open>C8: A ping between two hosts on one link completes.  From empty ARP tables, the start of the
  application sends a request for the link address of the peer; the peer answers it and learns the
  asker; the answer releases the echo request, which the peer answers with an echo reply that carries
  the same timestamp back; and the reply ends at the host that asked, which keeps no flow waiting.
  The times at which the flows arrive do not matter.\<close>

theorem ping_round_trip:
  assumes a: "pinger a ida pa ipa ipb esa" and b: "pinger b idb pb ipb ipa esb"
    and "arp_table_lookup (at (ep a)) ipb = None" "arp_table_lookup (at (ep b)) ipa = None"
    and "ucast (ex_type x) = PINGV4" "ex_args x = mem32 ipb"
  shows "\<exists>a1 req b1 rep a2 echo ans.
    host_execute_app a x = Inr (a1, x\<lparr>exec_cnt := exec_cnt x - 1\<rparr>, Some req) \<and> out_ports req = [ida] \<and>
    host_recv_netflow b (deliver idb t1 req) = Inr (b1, Some rep) \<and> out_ports rep = [idb] \<and>
    host_recv_netflow a1 (deliver ida t2 rep) = Inr (a2, Some echo) \<and> out_ports echo = [ida] \<and>
    icmpv4_type (nf_match echo) = ECHO \<and> ipv4_dst (nf_match echo) = ipb \<and> ipv4_src (nf_match echo) = ipa \<and>
    host_recv_netflow b1 (deliver idb t3 echo) = Inr (b1, Some ans) \<and> out_ports ans = [idb] \<and>
    icmpv4_type (nf_match ans) = ECHO_REPLY \<and> ipv4_dst (nf_match ans) = ipa \<and> ipv4_src (nf_match ans) = ipb \<and>
    icmp_info ans = icmp_info echo \<and> exec_id ans = ex_id x \<and>
    host_recv_netflow a2 (deliver ida t4 ans) = Inr (a2, None) \<and> waiting (base (ep a2)) = []"
proof -
  obtain n i where start: "host_execute_app a x = Inr (a\<lparr>ep := (ep a)\<lparr>base := n\<rparr>\<rparr>, x\<lparr>exec_cnt := exec_cnt x - 1\<rparr>,
        Some (upd_match (\<lambda>m. m\<lparr>ipv4_src := ipa\<rparr>) (arp_request pa i ida ipb (start_time (ping_flow x ipb)))))"
      "p_ipv4_addr pa = Some i" "v4_addr i = ipa" "buff_inv n" "waiting n = [(ping_flow x ipb)\<lparr>out_ports := [ida]\<rparr>]"
      "\<forall>q. node_port n q = node_port (base (ep a)) q"
    using ping_starts [OF a assms(3,5,6)] by blast
  define req where "req = upd_match (\<lambda>m. m\<lparr>ipv4_src := ipa\<rparr>) (arp_request pa i ida ipb (start_time (ping_flow x ipb)))"
  define a1 where "a1 = a\<lparr>ep := (ep a)\<lparr>base := n\<rparr>\<rparr>"
  have req: "eth_type (nf_match req) = ETH_TYPE_ARP" "arp_op (nf_match req) = ARP_REQUEST" "arp_tpa (nf_match req) = ipb"
      "eth_dst (nf_match req) = bcast_eth_addr" "arp_spa (nf_match req) = ipa" "eth_src (nf_match req) = p_eth_address pa" "out_ports req = [ida]"
    using start(3) by (simp_all add: req_def arp_request_def upd_match_def)
  obtain j where pb: "node_port (base (ep b)) idb = Some pb" "p_ipv4_addr pb = Some j" "v4_addr j = ipb" "length (p_eth_address pb) = ETH_LEN"
    using b by (auto simp: pinger_def)
  have pa: "node_port (base (ep a)) ida = Some pa" "length (p_eth_address pa) = ETH_LEN"
    using a by (auto simp: pinger_def)
  define b1 where "b1 = b\<lparr>ep := (ep b)\<lparr>at := arp_table_add_entry (at (ep b)) (arp_table_entry_new ipa (p_eth_address pa) idb)\<rparr>\<rparr>"
  obtain rep where rep: "host_recv_netflow b (deliver idb t1 req) = Inr (b1, Some rep)"
      "eth_type (nf_match rep) = ETH_TYPE_ARP" "arp_op (nf_match rep) = ARP_REPLY" "eth_dst (nf_match rep) = p_eth_address pa"
      "arp_sha (nf_match rep) = p_eth_address pb" "arp_spa (nf_match rep) = ipb" "out_ports rep = [idb]"
    using host_answers_arp [of b "deliver idb t1 req" pb j] pb assms(4) req by (auto simp: b1_def)
  define echo where "echo = upd_match (\<lambda>m. m\<lparr>eth_dst := p_eth_address pb, ipv4_src := ipa, eth_src := p_eth_address pa\<rparr>)
      ((ping_flow x ipb)\<lparr>out_ports := [ida], start_time := t2\<rparr>)"
  obtain n2 where a2: "host_recv_netflow a1 (deliver ida t2 rep) =
        Inr (a1\<lparr>ep := (ep a1)\<lparr>base := n2, at := arp_table_add_entry (at (ep a1)) (arp_table_entry_new ipb (p_eth_address pb) ida)\<rparr>\<rparr>, Some echo)"
      "buff_inv n2" "waiting n2 = []" "\<forall>q. node_port n2 q = node_port n q"
    using host_reply_releases [of a1 "deliver ida t2 rep" pa i "(ping_flow x ipb)\<lparr>out_ports := [ida]\<rparr>" "[]"] start(2-6) pa(1) pb(4) rep(2-6)
    by (auto simp: a1_def echo_def)
  define a2 where "a2 = a1\<lparr>ep := (ep a1)\<lparr>base := n2, at := arp_table_add_entry (at (ep a1)) (arp_table_entry_new ipb (p_eth_address pb) ida)\<rparr>\<rparr>"
  have echo: "eth_type (nf_match echo) = ETH_TYPE_IP" "ip_proto (nf_match echo) = IP_PROTO_ICMPV4" "icmpv4_type (nf_match echo) = ECHO"
      "eth_dst (nf_match echo) = p_eth_address pb" "ipv4_dst (nf_match echo) = ipb" "ipv4_src (nf_match echo) = ipa" "out_ports echo = [ida]"
      "exec_id echo = ex_id x"
    using ping_flow_fields [of x ipb] by (simp_all add: echo_def upd_match_def) (simp add: ping_flow_def)
  have "pinger b1 idb pb ipb ipa esb"
    using b by (simp add: pinger_def b1_def)
  from host_answers_echo [OF this, of _ "deliver idb t3 echo"]
  obtain ans where ans: "host_recv_netflow b1 (deliver idb t3 echo) = Inr (b1, Some ans)"
      "ans = upd_match (\<lambda>m. m\<lparr>icmpv4_type := ECHO_REPLY, ipv4_dst := ipa, eth_dst := take ETH_LEN (p_eth_address pa), ipv4_src := ipb,
        eth_src := p_eth_address pb\<rparr>) ((deliver idb t3 echo)\<lparr>out_ports := [idb]\<rparr>)"
    using echo by (auto simp: b1_def)
  have "pinger a2 ida pa ipa ipb esa"
    using a a2(2-4) start(6) by (simp add: pinger_def a2_def a1_def)
  then have "host_recv_netflow a2 (deliver ida t4 ans) = Inr (a2, None)"
    by (rule host_takes_reply) (use ans(2) echo pa(2) in \<open>simp_all add: upd_match_def deliver_def\<close>)
  then show ?thesis
    using start(1) req(7) rep(1,7) a2(1,3) echo ans
    unfolding a1_def [symmetric] req_def [symmetric] a2_def [symmetric]
    by (intro exI [of _ a1] exI [of _ req] exI [of _ b1] exI [of _ rep] exI [of _ a2] exI [of _ echo] exI [of _ ans])
      (simp add: upd_match_def, simp add: a2_def)
qed

definition example_link_route :: route_entry_v4 where
  "example_link_route = \<lparr>re_ip = 0x0A000000, re_netmask = 0xFF000000, re_gateway = 0, re_iface = 1, re_flags = 0, re_metric = 0\<rparr>"

definition example_host :: "bytes \<Rightarrow> u32 \<Rightarrow> route_table \<Rightarrow> host" where
  "example_host mac ip t =
     \<lparr>ep = \<lparr>base = (fst (node_init 0 HOST))\<lparr>ports := [port_add_v4addr (port_new 1 mac 1000000 1000000) ip 0xFF000000]\<rparr>,
        at = arp_table_init, rt = t\<rparr>, apps = [app_creator PINGV4], execs = []\<rparr>"

definition example_exec :: exec where
  "example_exec = \<lparr>ex_addr = 0, ex_id = 3, ex_type = 1, exec_cnt = 4, ex_start_time = 9, ex_args = mem32 0x0A000002\<rparr>"

lemma example_pinger:
  assumes "table_of [example_link_route] t" "length mac = ETH_LEN" "drop_bit 24 ip = 0x0A"
    and "drop_bit 24 peer = 0x0A" "ip \<noteq> peer"
  shows "pinger (example_host mac ip t) 1 (port_add_v4addr (port_new 1 mac 1000000 1000000) ip 0xFF000000) ip peer [example_link_route]"
proof -
  have "ntz 0xFF000000 = 24"
    by code_simp
  moreover have "ip \<noteq> 0" "peer \<noteq> 0"
    using assms(3,4) by auto
  ultimately show ?thesis
    using assms
    by (auto simp: pinger_def example_host_def node_port_def HASH_FIND_def port_add_v4addr_def port_new_def ETH_LEN_def
        best_routes_def covers_def example_link_route_def buff_inv_def waiting_def node_init_def BUFFER_MAX_def Let_def
        app_creator_def)
qed

theorem ping_round_trip_witness:
  "\<exists>t a1 req b1 rep a2 echo ans. rfold add_ipv4_entry route_table_init [example_link_route] = Inr t \<and>
    host_execute_app (example_host [0, 0, 0, 0, 0, 1] 0x0A000001 t) example_exec =
      Inr (a1, example_exec\<lparr>exec_cnt := 3\<rparr>, Some req) \<and>
    host_recv_netflow (example_host [0, 0, 0, 0, 0, 2] 0x0A000002 t) (deliver 1 10 req) = Inr (b1, Some rep) \<and>
    host_recv_netflow a1 (deliver 1 11 rep) = Inr (a2, Some echo) \<and>
    host_recv_netflow b1 (deliver 1 12 echo) = Inr (b1, Some ans) \<and>
    icmpv4_type (nf_match ans) = ECHO_REPLY \<and> exec_id ans = 3 \<and>
    host_recv_netflow a2 (deliver 1 13 ans) = Inr (a2, None)"
proof -
  obtain t where t: "add_ipv4_entry route_table_init example_link_route = Inr t" "table_of [example_link_route] t"
    using table_of_add [OF table_of_init, of example_link_route] by auto
  let ?a = "example_host [0, 0, 0, 0, 0, 1] 0x0A000001 t" and ?b = "example_host [0, 0, 0, 0, 0, 2] 0x0A000002 t"
  have h: "arp_table_lookup (at (ep ?a)) 0x0A000002 = None" "arp_table_lookup (at (ep ?b)) 0x0A000001 = None"
      "ucast (ex_type example_exec) = PINGV4" "ex_args example_exec = mem32 0x0A000002"
    by (simp_all add: example_host_def example_exec_def arp_table_init_def arp_table_lookup_def HASH_FIND_def PINGV4_def)
  have p: "pinger ?a 1 (port_add_v4addr (port_new 1 [0, 0, 0, 0, 0, 1] 1000000 1000000) 0x0A000001 0xFF000000) 0x0A000001 0x0A000002
        [example_link_route]"
      "pinger ?b 1 (port_add_v4addr (port_new 1 [0, 0, 0, 0, 0, 2] 1000000 1000000) 0x0A000002 0xFF000000) 0x0A000002 0x0A000001
        [example_link_route]"
    using example_pinger [OF t(2)] by (simp_all add: ETH_LEN_def)
  show ?thesis
    using ping_round_trip [OF p h, of 10 11 12 13] t(1) by (simp add: example_exec_def) blast
qed

end
