(* ===== verification/Routing_Msg.thy ===== *)
theory Routing_Msg
  imports Prelude
begin

section \<open>Messages of the routing daemons (routing\_msg)\<close>

text \<open>
  The messages between the daemons that watch the emulated routers and the simulator, packed in
  network order.  A message is a header, possibly followed by what its type adds; a cast to a longer
  message than the one at hand reads outside it.  \<open>mem\<close> is what a fresh allocation holds.
\<close>

subsection \<open>Definitions\<close>

definition HEADER_LEN :: nat where "HEADER_LEN = 8"

definition ROUTER_ACTIVITY :: u16 where "ROUTER_ACTIVITY = 0"
definition ROUTER_FIB :: u16 where "ROUTER_FIB = 1"
definition BGP_STATE :: u16 where "BGP_STATE = 2"
definition BGP_ANNOUNCE :: u16 where "BGP_ANNOUNCE = 3"

definition BGP_STATE_DOWN :: u8 where "BGP_STATE_DOWN = 0"
definition BGP_STATE_CONNECTED :: u8 where "BGP_STATE_CONNECTED = 1"
definition BGP_STATE_UP :: u8 where "BGP_STATE_UP = 2"

definition BGP_STATE_LEN :: u16 where "BGP_STATE_LEN = of_nat HEADER_LEN + 8"
definition BGP_ANNOUNCE_LEN :: u16 where "BGP_ANNOUNCE_LEN = of_nat HEADER_LEN + 8"

lemmas routing_types = ROUTER_ACTIVITY_def ROUTER_FIB_def BGP_STATE_def BGP_ANNOUNCE_def

record routing_msg =
  rm_type :: u16
  rm_size :: u16
  rm_router_id :: u32

datatype routing_message =
    Header routing_msg
  | Bgp_State routing_msg u32 u8
  | Bgp_Announce routing_msg u32

fun hdr_of :: "routing_message \<Rightarrow> routing_msg" where
  "hdr_of (Header h) = h"
| "hdr_of (Bgp_State h _ _) = h"
| "hdr_of (Bgp_Announce h _) = h"

fun set_hdr :: "routing_msg \<Rightarrow> routing_message \<Rightarrow> routing_message" where
  "set_hdr h (Header _) = Header h"
| "set_hdr h (Bgp_State _ peer state) = Bgp_State h peer state"
| "set_hdr h (Bgp_Announce _ peer) = Bgp_Announce h peer"

definition routing_msg_init :: "u16 \<Rightarrow> u16 \<Rightarrow> u32 \<Rightarrow> routing_msg" where
  "routing_msg_init ty sz rid = \<lparr>rm_type = ty, rm_size = sz, rm_router_id = rid\<rparr>"

definition routing_msg_bgp_state_new :: "u32 \<Rightarrow> u32 \<Rightarrow> u8 \<Rightarrow> routing_message" where
  "routing_msg_bgp_state_new rid peer_rid state =
     Bgp_State (routing_msg_init BGP_STATE BGP_STATE_LEN rid) peer_rid state"

definition routing_msg_bgp_announce_new :: "u32 \<Rightarrow> u32 \<Rightarrow> routing_message" where
  "routing_msg_bgp_announce_new rid peer_rid =
     Bgp_Announce (routing_msg_init BGP_ANNOUNCE BGP_ANNOUNCE_LEN rid) peer_rid"

text \<open>A write of a block of bytes into an allocation.\<close>

definition wr :: "bytes \<Rightarrow> nat \<Rightarrow> bytes \<Rightarrow> bytes res" where
  "wr buf i bs =
     (if i + length bs \<le> length buf then Inr (take i buf @ bs @ drop (i + length bs) buf)
      else Inl Out_Of_Bounds)"

definition alloc :: "bytes \<Rightarrow> nat \<Rightarrow> bytes" where
  "alloc mem n = take n (mem @ replicate n 0)"

definition pack_msg_hdr :: "bytes \<Rightarrow> routing_msg \<Rightarrow> bytes res" where
  "pack_msg_hdr mem msg =
     rbind (wr (alloc mem (unat (rm_size msg))) 0 (put16 (rm_type msg))) (\<lambda>data.
       rbind (wr data 2 (put16 (rm_size msg))) (\<lambda>data. wr data 4 (put32 (rm_router_id msg))))"

definition pack_bgp_state :: "routing_message \<Rightarrow> bytes \<Rightarrow> bytes res" where
  "pack_bgp_state msg data =
     (case msg of
        Bgp_State _ peer state \<Rightarrow>
          rbind (wr data 8 (put32 peer)) (\<lambda>data.
            rbind (wr data 12 [state]) (\<lambda>data. wr data 13 (replicate 3 0)))
      | _ \<Rightarrow> Inl Out_Of_Bounds)"

definition pack_bgp_announce :: "routing_message \<Rightarrow> bytes \<Rightarrow> bytes res" where
  "pack_bgp_announce msg data =
     (case msg of
        Header _ \<Rightarrow> Inl Out_Of_Bounds
      | Bgp_State _ peer _ \<Rightarrow> rbind (wr data 8 (put32 peer)) (\<lambda>data. wr data 12 (replicate 4 0))
      | Bgp_Announce _ peer \<Rightarrow> rbind (wr data 8 (put32 peer)) (\<lambda>data. wr data 12 (replicate 4 0)))"

definition routing_msg_pack :: "bytes \<Rightarrow> routing_message \<Rightarrow> bytes option res" where
  "routing_msg_pack mem msg =
     rbind (pack_msg_hdr mem (hdr_of msg)) (\<lambda>data.
       let ty = rm_type (hdr_of msg) in
       if ty = BGP_STATE then rbind (pack_bgp_state msg data) (\<lambda>data. Inr (Some data))
       else if ty = BGP_ANNOUNCE then rbind (pack_bgp_announce msg data) (\<lambda>data. Inr (Some data))
       else if ty = ROUTER_ACTIVITY then Inr (Some data)
       else Inr None)"

text \<open>The new message; its header is still unset.\<close>

definition unset_hdr :: routing_msg where
  "unset_hdr = \<lparr>rm_type = 0, rm_size = 0, rm_router_id = 0\<rparr>"

definition unpack_bgp_state :: "bytes \<Rightarrow> routing_message res" where
  "unpack_bgp_state data =
     rbind (rd32 data 8) (\<lambda>peer. rbind (rd8 data 12) (\<lambda>state. Inr (Bgp_State unset_hdr peer state)))"

definition unpack_header :: routing_message where
  "unpack_header = Header unset_hdr"

text \<open>The pointer the caller passes is not set on every branch, and then the header is written
  through it.\<close>

definition routing_msg_unpack :: "bytes \<Rightarrow> routing_message res" where
  "routing_msg_unpack data =
     rbind (rd16 data 0) (\<lambda>ty.
       rbind (if ty = BGP_STATE then unpack_bgp_state data
              else if ty = BGP_ANNOUNCE then Inl Uninitialised
              else if ty = ROUTER_ACTIVITY \<or> ty = ROUTER_FIB then Inr unpack_header
              else Inl Uninitialised) (\<lambda>msg.
         rbind (rd16 data 2) (\<lambda>sz. rbind (rd32 data 4) (\<lambda>rid.
           Inr (set_hdr \<lparr>rm_type = ty, rm_size = sz, rm_router_id = rid\<rparr> msg)))))"

subsection \<open>Wire format\<close>

lemma length_alloc [simp]: "length (alloc mem n) = n"
  by (simp add: alloc_def)

lemma wr_append:
  "length pre = i \<Longrightarrow> length bs \<le> length rest \<Longrightarrow>
     wr (pre @ rest) i bs = Inr (pre @ bs @ drop (length bs) rest)"
  by (simp add: wr_def)

lemma pack_msg_hdr_bytes:
  assumes "8 \<le> unat (rm_size h)"
  shows "\<exists>rest. length rest = unat (rm_size h) - 8 \<and>
    pack_msg_hdr mem h = Inr (put16 (rm_type h) @ put16 (rm_size h) @ put32 (rm_router_id h) @ rest)"
proof -
  define r where "r = alloc mem (unat (rm_size h))"
  have r: "length r = unat (rm_size h)"
    by (simp add: r_def)
  have 1: "wr r 0 (put16 (rm_type h)) = Inr (put16 (rm_type h) @ drop 2 r)"
    using wr_append [of "[]" 0 "put16 (rm_type h)" r] r assms by simp
  have 2: "wr (put16 (rm_type h) @ drop 2 r) 2 (put16 (rm_size h)) =
      Inr ((put16 (rm_type h) @ put16 (rm_size h)) @ drop 4 r)"
    using wr_append [of "put16 (rm_type h)" 2 "put16 (rm_size h)" "drop 2 r"] r assms by simp
  have 3: "wr ((put16 (rm_type h) @ put16 (rm_size h)) @ drop 4 r) 4 (put32 (rm_router_id h)) =
      Inr ((put16 (rm_type h) @ put16 (rm_size h)) @ put32 (rm_router_id h) @ drop 8 r)"
    using wr_append [of "put16 (rm_type h) @ put16 (rm_size h)" 4 "put32 (rm_router_id h)" "drop 4 r"] r assms
    by simp
  show ?thesis
    unfolding pack_msg_hdr_def r_def [symmetric] 1 rbind_simps 2 3
    using r by (intro exI [of _ "drop 8 r"]) simp
qed

lemma unpack_hdr_bytes:
  "rd16 (put16 a @ put16 b @ put32 c @ rest) 0 = Inr a"
  "rd16 (put16 a @ put16 b @ put32 c @ rest) 2 = Inr b"
  "rd32 (put16 a @ put16 b @ put32 c @ rest) 4 = Inr c"
  using rd16_put16 [of "[]" 0 a] rd16_put16 [of "put16 a" 2 b] rd32_put32 [of "put16 a @ put16 b" 4 c rest]
  by simp_all

lemma bgp_state_bytes:
  "routing_msg_pack mem (routing_msg_bgp_state_new rid peer state) =
     Inr (Some (put16 BGP_STATE @ put16 16 @ put32 rid @ put32 peer @ [state, 0, 0, 0]))"
proof -
  let ?h = "routing_msg_init BGP_STATE BGP_STATE_LEN rid"
  obtain rest where rest: "length rest = 8" "pack_msg_hdr mem ?h = Inr (put16 BGP_STATE @ put16 16 @ put32 rid @ rest)"
    using pack_msg_hdr_bytes [of ?h mem] by (auto simp: routing_msg_init_def BGP_STATE_LEN_def HEADER_LEN_def)
  let ?hdr = "put16 BGP_STATE @ put16 16 @ put32 rid"
  have "wr (?hdr @ rest) 8 (put32 peer) = Inr ((?hdr @ put32 peer) @ drop 4 rest)"
    using wr_append [of ?hdr 8 "put32 peer" rest] rest(1) by simp
  moreover have "wr ((?hdr @ put32 peer) @ drop 4 rest) 12 [state] = Inr ((?hdr @ put32 peer @ [state]) @ drop 5 rest)"
    using wr_append [of "?hdr @ put32 peer" 12 "[state]" "drop 4 rest"] rest(1) by simp
  moreover have "wr ((?hdr @ put32 peer @ [state]) @ drop 5 rest) 13 (replicate 3 0) =
      Inr ((?hdr @ put32 peer @ [state]) @ replicate 3 0)"
    using wr_append [of "?hdr @ put32 peer @ [state]" 13 "replicate 3 0" "drop 5 rest"] rest(1) by simp
  ultimately show ?thesis
    using rest(2) unfolding routing_msg_pack_def routing_msg_bgp_state_new_def hdr_of.simps rest(2) rbind_simps
    by (simp add: routing_msg_init_def pack_bgp_state_def numeral_eq_Suc)
qed

text \<open>C33: A BGP state message survives packing and unpacking, whatever the new block of memory
  held, and its bytes are the header with the size 16, the peer and the state in network order and
  three bytes of padding.  An activity message does too.\<close>

theorem routing_msg_round_trip:
  "rbind (routing_msg_pack mem (routing_msg_bgp_state_new rid peer state)) (\<lambda>data.
      rbind (deref data) routing_msg_unpack) = Inr (routing_msg_bgp_state_new rid peer state) \<and>
   rbind (routing_msg_pack mem (Header (routing_msg_init ROUTER_ACTIVITY 8 rid))) (\<lambda>data.
      rbind (deref data) routing_msg_unpack) = Inr (Header (routing_msg_init ROUTER_ACTIVITY 8 rid))"
proof
  let ?data = "put16 BGP_STATE @ put16 16 @ put32 rid @ put32 peer @ [state, 0, 0, 0]"
  have "rd32 ?data 8 = Inr peer"
    using rd32_put32 [of "put16 BGP_STATE @ put16 16 @ put32 rid" 8 peer] by simp
  moreover have "rd8 ?data 12 = Inr state"
    by (simp add: rd8_def arr_get_def put16_def put32_def)
  ultimately show "rbind (routing_msg_pack mem (routing_msg_bgp_state_new rid peer state)) (\<lambda>data.
      rbind (deref data) routing_msg_unpack) = Inr (routing_msg_bgp_state_new rid peer state)"
    unfolding bgp_state_bytes
    by (simp add: deref_def routing_msg_unpack_def unpack_bgp_state_def unpack_hdr_bytes routing_msg_bgp_state_new_def
        routing_msg_init_def BGP_STATE_LEN_def HEADER_LEN_def)
next
  obtain rest where "pack_msg_hdr mem (routing_msg_init ROUTER_ACTIVITY 8 rid) =
      Inr (put16 ROUTER_ACTIVITY @ put16 8 @ put32 rid @ rest)"
    using pack_msg_hdr_bytes [of "routing_msg_init ROUTER_ACTIVITY 8 rid" mem] by (auto simp: routing_msg_init_def)
  then have "routing_msg_pack mem (Header (routing_msg_init ROUTER_ACTIVITY 8 rid)) =
      Inr (Some (put16 ROUTER_ACTIVITY @ put16 8 @ put32 rid @ rest))"
    by (simp add: routing_msg_pack_def) (simp add: routing_msg_init_def routing_types)
  moreover have "routing_msg_unpack (put16 ROUTER_ACTIVITY @ put16 8 @ put32 rid @ rest) =
      Inr (Header (routing_msg_init ROUTER_ACTIVITY 8 rid))"
    unfolding routing_msg_unpack_def unpack_hdr_bytes rbind_simps unpack_header_def
    by (simp add: routing_msg_init_def routing_types)
  ultimately show "rbind (routing_msg_pack mem (Header (routing_msg_init ROUTER_ACTIVITY 8 rid))) (\<lambda>data.
      rbind (deref data) routing_msg_unpack) = Inr (Header (routing_msg_init ROUTER_ACTIVITY 8 rid))"
    by (simp only: rbind_simps deref_def option.case)
qed

text \<open>A BGP announcement is packed, and the result is unpacked through an unset pointer.\<close>

lemma announce_unpack_unset:
  "routing_msg_unpack (put16 BGP_ANNOUNCE @ rest) = Inl Uninitialised"
  using rd16_put16 [of "[]" 0 BGP_ANNOUNCE rest] by (simp add: routing_msg_unpack_def routing_types)

text \<open>A FIB message cannot be packed.\<close>

lemma fib_not_packed:
  "8 \<le> unat sz \<Longrightarrow> routing_msg_pack mem (Header (routing_msg_init ROUTER_FIB sz rid)) = Inr None"
  using pack_msg_hdr_bytes [of "routing_msg_init ROUTER_FIB sz rid" mem]
  by (auto simp: routing_msg_pack_def routing_msg_init_def routing_types)

end
