(* ===== verification/Net_Utils.thy ===== *)
theory Net_Utils
  imports Node
begin

section \<open>Commands on interfaces and addresses as text (lib/net\_utils, lib/util)\<close>

text \<open>
  The emulation drives the operating system by commands in network namespaces.  A command that
  \<open>netns_run\<close> waits for and one that \<open>netns_launch\<close> only starts are recorded with their
  namespace, in the order they are issued; what the system makes of them is outside the program.
  IPv4 addresses are written by \<open>inet_ntop\<close> and read by \<open>inet_pton\<close>.
\<close>

subsection \<open>Definitions\<close>

datatype command =
    Netns_Run "string option" string
  | Netns_Launch "string option" string
  | Netns_Add string
  | Netns_Delete string
  | Daemon_Cmd string string u16

definition add_veth_pair :: "string \<Rightarrow> string option \<Rightarrow> string \<Rightarrow> string option \<Rightarrow> command list" where
  "add_veth_pair intf1 rname1 intf2 rname2 =
     (case (rname1, rname2) of
        (Some r1, Some r2) \<Rightarrow>
          [Netns_Run None (''ip link add '' @ intf1 @ '' netns '' @ r1 @ '' type veth peer name '' @ intf2 @ '' netns '' @ r2)]
      | (Some r1, None) \<Rightarrow>
          [Netns_Run None (''ip link add '' @ intf1 @ '' netns '' @ r1 @ '' type veth peer name '' @ intf2)]
      | (None, Some r2) \<Rightarrow>
          [Netns_Run None (''ip link add '' @ intf1 @ '' type veth peer name '' @ intf2 @ '' netns '' @ r2)]
      | (None, None) \<Rightarrow> [Netns_Run None (''ip link add '' @ intf1 @ '' type veth peer name '' @ intf2)])"

definition set_intf_name :: "string option \<Rightarrow> string \<Rightarrow> string \<Rightarrow> command list" where
  "set_intf_name rname new_name old_name = [Netns_Run rname (''ip link set '' @ old_name @ '' name '' @ new_name)]"

definition set_intf_up :: "string option \<Rightarrow> string \<Rightarrow> command list" where
  "set_intf_up rname intf = [Netns_Run rname (''ifconfig '' @ intf @ '' up'')]"

definition set_intf_to_ns :: "string \<Rightarrow> string \<Rightarrow> command list" where
  "set_intf_to_ns rname intf = [Netns_Run None (''ip link set '' @ intf @ '' netns '' @ rname)]"

definition set_intf_ip :: "string option \<Rightarrow> string \<Rightarrow> string \<Rightarrow> string \<Rightarrow> command list" where
  "set_intf_ip rname intf addr msk = [Netns_Run rname (''ifconfig '' @ intf @ '' '' @ addr @ ''/'' @ msk @ '' up'')]"

definition set_intf_to_bridge :: "string \<Rightarrow> string \<Rightarrow> command list" where
  "set_intf_to_bridge intf bridge = [Netns_Launch None (''ovs-vsctl add-port '' @ bridge @ '' '' @ intf)]"

definition delete_intf :: "string \<Rightarrow> command list" where
  "delete_intf iface = [Netns_Launch None (''ip link del '' @ iface)]"

definition create_bridge :: "string \<Rightarrow> command list" where
  "create_bridge bridge =
     [Netns_Run None (''ovs-vsctl add-br '' @ bridge), Netns_Run None (''ip link set dev '' @ bridge @ '' up'')]"

definition setup_veth :: "string option \<Rightarrow> string \<Rightarrow> string \<Rightarrow> string \<Rightarrow> string \<Rightarrow> string \<Rightarrow> command list" where
  "setup_veth rname intf1 intf2 ip msk bridge =
     add_veth_pair intf1 None intf2 rname @ set_intf_to_bridge intf1 bridge @
     set_intf_up None intf1 @ set_intf_ip rname intf2 ip msk"

text \<open>A formatted write into an array of \<open>n\<close> bytes.\<close>

definition sprintf :: "nat \<Rightarrow> string \<Rightarrow> string res" where
  "sprintf n s = (if length s + 1 \<le> n then Inr s else Inl Out_Of_Bounds)"

text \<open>Dotted decimal notation of four bytes in network order.\<close>

definition get_ip_str :: "bytes \<Rightarrow> string" where
  "get_ip_str addr = dec_digits (unat (addr ! 0)) @ ''.'' @ dec_digits (unat (addr ! 1)) @ ''.'' @
     dec_digits (unat (addr ! 2)) @ ''.'' @ dec_digits (unat (addr ! 3))"

fun dec_value :: "string \<Rightarrow> nat \<Rightarrow> nat option" where
  "dec_value [] v = Some v"
| "dec_value (c # cs) v =
     (let d = of_char c :: nat in
      if 48 \<le> d \<and> d \<le> 57 then dec_value cs (10 * v + (d - 48)) else None)"

definition parse_octet :: "string \<Rightarrow> u8 option" where
  "parse_octet s =
     (if s = [] \<or> length s > 1 \<and> hd s = CHR ''0'' then None
      else case dec_value s 0 of None \<Rightarrow> None | Some v \<Rightarrow> if v \<le> 255 then Some (of_nat v) else None)"

fun split_dots :: "string \<Rightarrow> string \<Rightarrow> string list" where
  "split_dots cur [] = [cur]"
| "split_dots cur (c # cs) = (if c = CHR ''.'' then cur # split_dots [] cs else split_dots (cur @ [c]) cs)"

definition get_ip_net :: "string \<Rightarrow> bytes option" where
  "get_ip_net ip =
     (case map parse_octet (split_dots [] ip) of
        [Some a, Some b, Some c, Some d] \<Rightarrow> Some [a, b, c, d]
      | _ \<Rightarrow> None)"

subsection \<open>Addresses survive printing and reading\<close>

lemma dec_digits_digit: "c \<in> set (dec_digits n) \<Longrightarrow> (of_char c :: nat) \<in> {48..57}"
proof (induction n rule: dec_digits.induct)
  case (1 n)
  then show ?case
    by (subst (asm) (2) dec_digits.simps) (auto split: if_splits)
qed

lemma split_dots_digits:
  "CHR ''.'' \<notin> set s \<Longrightarrow> split_dots cur (s @ rest) = split_dots (cur @ s) rest"
  by (induction s arbitrary: cur) auto

lemma dec_digits_no_dot: "CHR ''.'' \<notin> set (dec_digits n)"
  using dec_digits_digit [of "CHR ''.''" n] by auto

lemma dec_value_snoc:
  "dec_value (s @ [c]) v =
     (case dec_value s v of None \<Rightarrow> None | Some w \<Rightarrow> dec_value [c] w)"
  by (induction s arbitrary: v) (auto simp: Let_def)

lemma dec_value_digits: "dec_value (dec_digits n) 0 = Some n"
proof (induction n rule: dec_digits.induct)
  case (1 n)
  show ?case
  proof (cases "n < 10")
    case True
    then show ?thesis
      by (simp add: dec_digits.simps [of n] Let_def)
  next
    case False
    then have "dec_digits n = dec_digits (n div 10) @ [char_of (48 + n mod 10)]"
      by (simp add: dec_digits.simps [of n])
    then show ?thesis
      using 1 [OF False] by (simp add: dec_value_snoc Let_def)
  qed
qed

lemma dec_digits_nonempty: "dec_digits n \<noteq> []"
  by (simp add: dec_digits.simps [of n])

lemma dec_digits_hd: "0 < n \<Longrightarrow> hd (dec_digits n) \<noteq> CHR ''0''"
proof (induction n rule: dec_digits.induct)
  case (1 n)
  show ?case
  proof (cases "n < 10")
    case True
    have "(of_char (char_of (48 + n) :: char) :: nat) \<noteq> of_char CHR ''0''"
      using True 1(2) by simp
    then have "char_of (48 + n) \<noteq> CHR ''0''"
      by metis
    then show ?thesis
      using True by (simp add: dec_digits.simps [of n])
  next
    case False
    then show ?thesis
      using 1 dec_digits_nonempty [of "n div 10"] by (simp add: dec_digits.simps [of n])
  qed
qed

lemma parse_octet_digits: "parse_octet (dec_digits (unat b)) = Some b"
proof -
  have "unat b \<le> 255"
    using unsigned_less [of b, where 'a = nat] by simp
  moreover have "\<not> (length (dec_digits (unat b)) > 1 \<and> hd (dec_digits (unat b)) = CHR ''0'')"
    using dec_digits_hd [of "unat b"] by (cases "unat b = 0") (simp_all add: dec_digits.simps [of 0])
  ultimately show ?thesis
    using dec_digits_nonempty by (simp add: parse_octet_def dec_value_digits)
qed

lemma ip_text: "get_ip_net (get_ip_str (put32 ip)) = Some (put32 ip)"
proof -
  have "split_dots [] (dec_digits a @ ''.'' @ dec_digits b @ ''.'' @ dec_digits c @ ''.'' @ dec_digits d) =
      [dec_digits a, dec_digits b, dec_digits c, dec_digits d]" for a b c d
    using split_dots_digits [OF dec_digits_no_dot, of _ d "[]"]
    by (simp add: split_dots_digits dec_digits_no_dot)
  then show ?thesis
    by (simp add: get_ip_str_def get_ip_net_def put32_def parse_octet_digits)
qed

lemma length_dec_octet: "length (dec_digits (unat b)) \<le> 3" for b :: u8
proof -
  have "unat b < 10 ^ 3"
    using unsigned_less [of b, where 'a = nat] by simp
  then show ?thesis
    by (simp add: dec_digits.simps [of "unat b"] dec_digits.simps [of "unat b div 10"]
        dec_digits.simps [of "unat b div 10 div 10"])
qed

lemma ip_text_fits: "length (get_ip_str addr) \<le> 15"
  using length_dec_octet [of "addr ! 0"] length_dec_octet [of "addr ! 1"] length_dec_octet [of "addr ! 2"]
    length_dec_octet [of "addr ! 3"] by (simp add: get_ip_str_def)

text \<open>An IPv4 address written in dotted decimal notation is read back as the same address, so
  the identifier a router passes to its daemon as text is the one the daemon sees, and the text
  fits into an array of \<open>INET_ADDRSTRLEN\<close> bytes.\<close>

theorem ip_text_round_trip:
  "get_ip_net (get_ip_str (put32 ip)) = Some (put32 ip) \<and> length (get_ip_str (put32 ip)) < 16"
  using ip_text ip_text_fits [of "put32 ip"] by simp

end
