(* ===== verification/Routing_Daemon.thy ===== *)
theory Routing_Daemon
  imports Net_Utils
begin

section \<open>Routing daemons (net/routing)\<close>

text \<open>
  The control of the Quagga and ExaBGP daemons of an emulated router: which commands start, stop and
  configure them.  A configuration file is a name or NULL.  What the operating system answers is an
  argument: the descriptor of the socket to zebra, how often its connection is refused (\<^term>\<open>None\<close>
  for ever), and the name of the helper from the environment.  A command for a daemon is written
  to its port by a forked child, whose failure is ignored.
\<close>

subsection \<open>Definitions\<close>

definition ZEBRA_PORT :: u16 where "ZEBRA_PORT = 2601"
definition RIPD_PORT :: u16 where "RIPD_PORT = 2602"
definition RIPNGD_PORT :: u16 where "RIPNGD_PORT = 2603"
definition OSPFD_PORT :: u16 where "OSPFD_PORT = 2604"
definition BGPD_PORT :: u16 where "BGPD_PORT = 2605"
definition OSPF6D_PORT :: u16 where "OSPF6D_PORT = 2606"
definition ISISD_PORT :: u16 where "ISISD_PORT = 2608"

definition RIP :: u8 where "RIP = 0"
definition RIPNG :: u8 where "RIPNG = 1"
definition OSPF :: u8 where "OSPF = 2"
definition BGP :: u8 where "BGP = 3"
definition OSPF6 :: u8 where "OSPF6 = 4"
definition ISIS :: u8 where "ISIS = 5"

definition MAX_NAMESPACE_ID :: nat where "MAX_NAMESPACE_ID = 32"

record quagga_config =
  zebra_file :: "string option"
  bgpd_file :: "string option"
  ripd_file :: "string option"
  ripngd_file :: "string option"
  ospfd_file :: "string option"
  ospf6d_file :: "string option"
  isis_file :: "string option"

record quagga_daemon =
  q_namespace :: string
  q_config :: quagga_config
  sock_fd :: int
  q_router_id :: u32

record exabgp_daemon =
  x_namespace :: string
  config_file :: "string option"
  ips :: "string list"

datatype routing_daemon = Quagga quagga_daemon | Exabgp exabgp_daemon

definition quagga_daemon_new :: "string \<Rightarrow> quagga_daemon" where
  "quagga_daemon_new ns =
     \<lparr>q_namespace = take (MAX_NAMESPACE_ID - 1) ns,
      q_config = \<lparr>zebra_file = None, bgpd_file = None, ripd_file = None, ripngd_file = None,
        ospfd_file = None, ospf6d_file = None, isis_file = None\<rparr>,
      sock_fd = 0, q_router_id = 0\<rparr>"

definition send_quagga_cmd :: "string \<Rightarrow> string \<Rightarrow> u16 \<Rightarrow> command list" where
  "send_quagga_cmd ns cmd port = [Daemon_Cmd ns cmd port]"

definition send_ripd_cmd :: "string \<Rightarrow> string \<Rightarrow> command list" where
  "send_ripd_cmd ns cmd = send_quagga_cmd ns cmd RIPD_PORT"

definition send_ripngd_cmd :: "string \<Rightarrow> string \<Rightarrow> command list" where
  "send_ripngd_cmd ns cmd = send_quagga_cmd ns cmd RIPNGD_PORT"

definition send_ospfd_cmd :: "string \<Rightarrow> string \<Rightarrow> command list" where
  "send_ospfd_cmd ns cmd = send_quagga_cmd ns cmd OSPFD_PORT"

definition send_bgpd_cmd :: "string \<Rightarrow> string \<Rightarrow> command list" where
  "send_bgpd_cmd ns cmd = send_quagga_cmd ns cmd BGPD_PORT"

definition send_ospf6d_cmd :: "string \<Rightarrow> string \<Rightarrow> command list" where
  "send_ospf6d_cmd ns cmd = send_quagga_cmd ns cmd OSPFD_PORT"

definition send_isisd_cmd :: "string \<Rightarrow> string \<Rightarrow> command list" where
  "send_isisd_cmd ns cmd = send_quagga_cmd ns cmd ISISD_PORT"

text \<open>One daemon with its configuration, if it has one: \<open>sep\<close> is what separates its name from the
  suffix of its pid file.\<close>

definition start_one :: "string \<Rightarrow> string \<Rightarrow> string \<Rightarrow> string \<Rightarrow> string option \<Rightarrow> command list res" where
  "start_one ns sock_location name sep file =
     (case file of
        None \<Rightarrow> Inr []
      | Some f \<Rightarrow>
          rbind (sprintf (MAX_NAMESPACE_ID + 15) (''/tmp/'' @ name @ ns @ sep @ ''pid'')) (\<lambda>pid_file.
            Inr [Netns_Run (Some ns) (name @ '' -d -f '' @ f @ '' -z '' @ sock_location @ '' -i '' @ pid_file)]))"

definition start_quagga ::
  "quagga_daemon \<Rightarrow> string \<Rightarrow> int \<Rightarrow> nat option \<Rightarrow> string option \<Rightarrow> (quagga_daemon \<times> command list) res" where
  "start_quagga d rid_str fd refused helper =
     (let ns = q_namespace d; cfg = q_config d in
      rbind (case get_ip_net rid_str of None \<Rightarrow> Inl Uninitialised | Some bs \<Rightarrow> rd32 bs 0) (\<lambda>rid.
      let d = d\<lparr>q_router_id := rid\<rparr> in
      rbind (sprintf (MAX_NAMESPACE_ID + 15) (''/tmp/zebra'' @ ns @ ''.api'')) (\<lambda>sock_location.
      case zebra_file cfg of
        None \<Rightarrow> Inr (d, [])
      | Some zf \<Rightarrow>
          rbind (start_one ns sock_location ''zebra'' ''.'' (Some zf)) (\<lambda>zebra.
          let d = d\<lparr>sock_fd := fd\<rparr> in
          if fd < 0 then Inr (d, zebra)
          else if refused = None then Inl Diverges
          else
            rbind (start_one ns sock_location ''bgpd'' ''.'' (bgpd_file cfg)) (\<lambda>bgpd.
            rbind (start_one ns sock_location ''ospfd'' ''.'' (ospfd_file cfg)) (\<lambda>ospfd.
            rbind (start_one ns sock_location ''ospf6d'' ''.'' (ospf6d_file cfg)) (\<lambda>ospf6d.
            rbind (start_one ns sock_location ''ripd'' ''.'' (ripd_file cfg)) (\<lambda>ripd.
            rbind (start_one ns sock_location ''ripngd'' ''.'' (ripngd_file cfg)) (\<lambda>ripngd.
            rbind (start_one ns sock_location ''isisd'' ''/'' (isis_file cfg)) (\<lambda>isisd.
            let helper = (case helper of None \<Rightarrow> ''horse_daemon'' | Some s \<Rightarrow> if s = [] then ''horse_daemon'' else s) in
            Inr (d, zebra @ bgpd @ ospfd @ ospf6d @ ripd @ ripngd @ isisd @
                    [Netns_Run (Some ns) (helper @ '' '' @ rid_str)])))))))))))"

definition kill_one :: "string \<Rightarrow> string \<Rightarrow> string option \<Rightarrow> command list" where
  "kill_one ns name file =
     (case file of
        None \<Rightarrow> []
      | Some _ \<Rightarrow> [Netns_Run None (''pkill -9 -F /tmp/'' @ name @ ns @ ''.pid'')])"

definition stop_quagga :: "quagga_daemon \<Rightarrow> command list" where
  "stop_quagga d =
     (let ns = q_namespace d; cfg = q_config d in
      kill_one ns ''zebra'' (zebra_file cfg) @ kill_one ns ''bgpd'' (bgpd_file cfg) @
      kill_one ns ''ospfd'' (ospfd_file cfg) @ kill_one ns ''ospf6d'' (ospf6d_file cfg) @
      kill_one ns ''ripd'' (ripd_file cfg) @ kill_one ns ''ripngd'' (ripngd_file cfg) @
      kill_one ns ''isisd'' (isis_file cfg) @
      [Netns_Run None (''pkill -9 -F /tmp/daemon'' @ dec_digits (unat (q_router_id d)) @ ''.pid'')])"

definition change_quagga_config :: "quagga_daemon \<Rightarrow> string \<Rightarrow> u8 \<Rightarrow> command list" where
  "change_quagga_config d cmd proto =
     (let ns = q_namespace d in
      if proto = BGP then send_bgpd_cmd ns cmd
      else if proto = OSPF then send_ospfd_cmd ns cmd
      else if proto = OSPF6 then send_ospf6d_cmd ns cmd
      else if proto = RIP then send_ripd_cmd ns cmd
      else if proto = RIPNG then send_ripngd_cmd ns cmd
      else if proto = ISIS then send_isisd_cmd ns cmd
      else [])"

definition set_quagga_daemon_zebra_file :: "quagga_daemon \<Rightarrow> string \<Rightarrow> quagga_daemon" where
  "set_quagga_daemon_zebra_file d f = d\<lparr>q_config := (q_config d)\<lparr>zebra_file := Some f\<rparr>\<rparr>"

definition set_quagga_daemon_bgpd_file :: "quagga_daemon \<Rightarrow> string \<Rightarrow> quagga_daemon" where
  "set_quagga_daemon_bgpd_file d f = d\<lparr>q_config := (q_config d)\<lparr>bgpd_file := Some f\<rparr>\<rparr>"

definition set_quagga_daemon_ospfd_file :: "quagga_daemon \<Rightarrow> string \<Rightarrow> quagga_daemon" where
  "set_quagga_daemon_ospfd_file d f = d\<lparr>q_config := (q_config d)\<lparr>ospfd_file := Some f\<rparr>\<rparr>"

definition set_quagga_daemon_ospf6d_file :: "quagga_daemon \<Rightarrow> string \<Rightarrow> quagga_daemon" where
  "set_quagga_daemon_ospf6d_file d f = d\<lparr>q_config := (q_config d)\<lparr>ospf6d_file := Some f\<rparr>\<rparr>"

definition set_quagga_daemon_ripd_file :: "quagga_daemon \<Rightarrow> string \<Rightarrow> quagga_daemon" where
  "set_quagga_daemon_ripd_file d f = d\<lparr>q_config := (q_config d)\<lparr>ripd_file := Some f\<rparr>\<rparr>"

definition set_quagga_daemon_ripngd_file :: "quagga_daemon \<Rightarrow> string \<Rightarrow> quagga_daemon" where
  "set_quagga_daemon_ripngd_file d f = d\<lparr>q_config := (q_config d)\<lparr>ripngd_file := Some f\<rparr>\<rparr>"

definition set_quagga_daemon_isis_file :: "quagga_daemon \<Rightarrow> string \<Rightarrow> quagga_daemon" where
  "set_quagga_daemon_isis_file d f = d\<lparr>q_config := (q_config d)\<lparr>isis_file := Some f\<rparr>\<rparr>"

subsection \<open>ExaBGP\<close>

text \<open>A NULL configuration is printed as \<open>(null)\<close>.\<close>

definition exabgp_daemon_new :: "string \<Rightarrow> exabgp_daemon" where
  "exabgp_daemon_new ns = \<lparr>x_namespace = take (MAX_NAMESPACE_ID - 1) ns, config_file = None, ips = []\<rparr>"

definition start_exabgp :: "exabgp_daemon \<Rightarrow> command list" where
  "start_exabgp d =
     (let buf = [CHR 0x22, CHR '' ''] @ concat (map (\<lambda>addr. addr @ '' '') (ips d)) @ [CHR 0x22] in
      [Netns_Launch (Some (x_namespace d))
        (''env exabgp.daemon.daemonize=true exabgp.tcp.bind='' @ buf @
         '' exabgp.log.level=NOTICE exabgp.log.destination=syslog exabgp '' @
         (case config_file d of None \<Rightarrow> ''(null)'' | Some f \<Rightarrow> f))])"

definition stop_exabgp :: "command list" where
  "stop_exabgp = [Netns_Launch None ''pkill -9 exabgp'']"

definition set_exabgp_daemon_config_file :: "exabgp_daemon \<Rightarrow> string \<Rightarrow> exabgp_daemon" where
  "set_exabgp_daemon_config_file d f = d\<lparr>config_file := Some f\<rparr>"

definition exabgp_daemon_add_port_ip :: "exabgp_daemon \<Rightarrow> string \<Rightarrow> exabgp_daemon" where
  "exabgp_daemon_add_port_ip d ip = d\<lparr>ips := ips d @ [ip]\<rparr>"

text \<open>Calls through the function pointers; ExaBGP leaves the one for configuration changes unset.\<close>

definition daemon_change_config :: "routing_daemon \<Rightarrow> string \<Rightarrow> u8 \<Rightarrow> command list res" where
  "daemon_change_config d cmd proto =
     (case d of
        Quagga q \<Rightarrow> Inr (change_quagga_config q cmd proto)
      | Exabgp _ \<Rightarrow> Inl Uninitialised)"

definition daemon_stop :: "routing_daemon \<Rightarrow> command list" where
  "daemon_stop d = (case d of Quagga q \<Rightarrow> stop_quagga q | Exabgp _ \<Rightarrow> stop_exabgp)"

definition daemon_start ::
  "routing_daemon \<Rightarrow> string \<Rightarrow> int \<Rightarrow> nat option \<Rightarrow> string option \<Rightarrow> (routing_daemon \<times> command list) res" where
  "daemon_start d rid_str fd refused helper =
     (case d of
        Quagga q \<Rightarrow> rbind (start_quagga q rid_str fd refused helper) (\<lambda>(q, cmds). Inr (Quagga q, cmds))
      | Exabgp x \<Rightarrow> Inr (Exabgp x, start_exabgp x))"

subsection \<open>What is started and what is killed\<close>

text \<open>The names of the pid files stay within their arrays because a namespace is at most 31
  characters long.\<close>

definition daemon_ok :: "quagga_daemon \<Rightarrow> bool" where
  "daemon_ok d \<longleftrightarrow> length (q_namespace d) < MAX_NAMESPACE_ID"

lemma daemon_ok_new [simp]: "daemon_ok (quagga_daemon_new ns)"
  by (simp add: daemon_ok_def quagga_daemon_new_def MAX_NAMESPACE_ID_def)

lemma daemon_ok_files [simp]:
  "daemon_ok (set_quagga_daemon_zebra_file d f) = daemon_ok d"
  "daemon_ok (set_quagga_daemon_bgpd_file d f) = daemon_ok d"
  "daemon_ok (set_quagga_daemon_ospfd_file d f) = daemon_ok d"
  "daemon_ok (set_quagga_daemon_ospf6d_file d f) = daemon_ok d"
  "daemon_ok (set_quagga_daemon_ripd_file d f) = daemon_ok d"
  "daemon_ok (set_quagga_daemon_ripngd_file d f) = daemon_ok d"
  "daemon_ok (set_quagga_daemon_isis_file d f) = daemon_ok d"
  by (simp_all add: daemon_ok_def set_quagga_daemon_zebra_file_def set_quagga_daemon_bgpd_file_def
      set_quagga_daemon_ospfd_file_def set_quagga_daemon_ospf6d_file_def set_quagga_daemon_ripd_file_def
      set_quagga_daemon_ripngd_file_def set_quagga_daemon_isis_file_def)

definition launch :: "string \<Rightarrow> string \<Rightarrow> string \<Rightarrow> string option \<Rightarrow> command list" where
  "launch ns name sep file =
     (case file of
        None \<Rightarrow> []
      | Some f \<Rightarrow> [Netns_Run (Some ns) (name @ '' -d -f '' @ f @ '' -z /tmp/zebra'' @ ns @ ''.api -i /tmp/'' @
          name @ ns @ sep @ ''pid'')])"

lemma start_one_launch:
  assumes "length ns < MAX_NAMESPACE_ID" "length name \<le> 6" "length sep = 1"
  shows "start_one ns (''/tmp/zebra'' @ ns @ ''.api'') name sep file = Inr (launch ns name sep file)"
  using assms by (cases "file") (auto simp: start_one_def sprintf_def launch_def MAX_NAMESPACE_ID_def)

text \<open>When zebra is configured, its socket opens and its connection is accepted at some point,
  starting Quagga returns, never writes outside an array, and runs exactly the configured daemons,
  each with its own pid file, then the helper.  Stopping it kills exactly the configured daemons by
  those pid files, and the helper by the router's identifier.  Only the pid file of isisd differs: the
  daemon writes \<open>/tmp/isisd<ns>/pid\<close> and the kill reads \<open>/tmp/isisd<ns>.pid\<close>.\<close>

theorem quagga_started_and_killed:
  assumes "daemon_ok d" "zebra_file (q_config d) = Some zf" "0 \<le> fd" "refused = Some k"
  shows "\<exists>d'. start_quagga d (get_ip_str (put32 rid)) fd refused helper =
      Inr (d', (let ns = q_namespace d; c = q_config d in
        launch ns ''zebra'' ''.'' (zebra_file c) @ launch ns ''bgpd'' ''.'' (bgpd_file c) @
        launch ns ''ospfd'' ''.'' (ospfd_file c) @ launch ns ''ospf6d'' ''.'' (ospf6d_file c) @
        launch ns ''ripd'' ''.'' (ripd_file c) @ launch ns ''ripngd'' ''.'' (ripngd_file c) @
        launch ns ''isisd'' ''/'' (isis_file c) @
        [Netns_Run (Some ns) ((if helper = None \<or> helper = Some [] then ''horse_daemon'' else the helper) @
           '' '' @ get_ip_str (put32 rid))])) \<and>
    stop_quagga d' = (let ns = q_namespace d; c = q_config d in
        kill_one ns ''zebra'' (zebra_file c) @ kill_one ns ''bgpd'' (bgpd_file c) @
        kill_one ns ''ospfd'' (ospfd_file c) @ kill_one ns ''ospf6d'' (ospf6d_file c) @
        kill_one ns ''ripd'' (ripd_file c) @ kill_one ns ''ripngd'' (ripngd_file c) @
        kill_one ns ''isisd'' (isis_file c) @
        [Netns_Run None (''pkill -9 -F /tmp/daemon'' @ dec_digits (unat rid) @ ''.pid'')])"
proof -
  have ns: "length (q_namespace d) < MAX_NAMESPACE_ID"
    using assms(1) by (simp add: daemon_ok_def)
  have rid: "rd32 (put32 rid) 0 = Inr rid"
    using rd32_put32 [of "[]" 0 rid "[]"] by simp
  define sock where "sock = ''/tmp/zebra'' @ q_namespace d @ ''.api''"
  have sock: "sprintf (MAX_NAMESPACE_ID + 15) (''/tmp/zebra'' @ q_namespace d @ ''.api'') = Inr sock"
    using ns by (simp add: sprintf_def MAX_NAMESPACE_ID_def sock_def)
  have run: "length name \<le> 6 \<Longrightarrow> length sep = 1 \<Longrightarrow>
      start_one (q_namespace d) sock name sep file = Inr (launch (q_namespace d) name sep file)" for name sep "file"
    unfolding sock_def by (rule start_one_launch [OF ns])
  have "start_quagga d (get_ip_str (put32 rid)) fd refused helper = Inr (d\<lparr>q_router_id := rid, sock_fd := fd\<rparr>,
      (let ns = q_namespace d; c = q_config d in
        launch ns ''zebra'' ''.'' (zebra_file c) @ launch ns ''bgpd'' ''.'' (bgpd_file c) @
        launch ns ''ospfd'' ''.'' (ospfd_file c) @ launch ns ''ospf6d'' ''.'' (ospf6d_file c) @
        launch ns ''ripd'' ''.'' (ripd_file c) @ launch ns ''ripngd'' ''.'' (ripngd_file c) @
        launch ns ''isisd'' ''/'' (isis_file c) @
        [Netns_Run (Some ns) ((if helper = None \<or> helper = Some [] then ''horse_daemon'' else the helper) @
           '' '' @ get_ip_str (put32 rid))]))"
    unfolding start_quagga_def Let_def ip_text option.case rid rbind_simps sock
    using assms(2-4) by (simp add: run del: rbind_eq_Inr split: option.splits)
  then show ?thesis
    by (auto simp: stop_quagga_def Let_def)
qed

theorem quagga_started_and_killed_witness:
  "\<exists>d' cmds. start_quagga (set_quagga_daemon_isis_file (set_quagga_daemon_zebra_file (quagga_daemon_new ''r1'') ''z'') ''i'')
      (get_ip_str (put32 1)) 3 (Some 2) None = Inr (d', cmds) \<and> length cmds = 3 \<and> length (stop_quagga d') = 3"
proof -
  let ?d = "set_quagga_daemon_isis_file (set_quagga_daemon_zebra_file (quagga_daemon_new ''r1'') ''z'') ''i''"
  have zf: "zebra_file (q_config ?d) = Some ''z''"
    by (simp add: set_quagga_daemon_isis_file_def set_quagga_daemon_zebra_file_def)
  show ?thesis
    using quagga_started_and_killed [OF _ zf, of 3 "Some 2" 2 1 None]
    by (auto simp: Let_def launch_def kill_one_def set_quagga_daemon_isis_file_def set_quagga_daemon_zebra_file_def
        quagga_daemon_new_def daemon_ok_def MAX_NAMESPACE_ID_def)
qed

text \<open>A configuration command for ospf6d is sent to the port of ospfd.\<close>

lemma ospf6_config_port: "change_quagga_config d cmd OSPF6 = change_quagga_config d cmd OSPF"
  by (simp add: change_quagga_config_def send_ospf6d_cmd_def send_ospfd_cmd_def BGP_def OSPF_def OSPF6_def Let_def)

text \<open>The configuration of a router with ExaBGP cannot be changed: the call goes through an unset
  pointer.\<close>

lemma exabgp_config_unset: "daemon_change_config (Exabgp (exabgp_daemon_new ns)) cmd proto = Inl Uninitialised"
  by (simp add: daemon_change_config_def)

end
