(* ===== verification/Router.thy ===== *)
theory Router
  imports Legacy_Node Routing_Msg Routing_Daemon
begin

section \<open>Routers (net/router)\<close>

text \<open>
  A router: a legacy node that forwards between its ports, with a routing daemon in a network
  namespace.  Its routes come from its interfaces and from the FIB messages of its daemon.
  The bytes of the last internal address are a global variable, passed and returned.
\<close>

subsection \<open>Definitions\<close>

record router =
  ln :: legacy_node
  rtr_id :: u32
  ecmp :: bool
  daemon :: "routing_daemon option"
  ext_intfs :: "string list"

record internal_net_bytes =
  third :: u8
  fourth :: u8

definition internal_last_bytes :: internal_net_bytes where
  "internal_last_bytes = \<lparr>third = 0, fourth = 0\<rparr>"

definition router_new :: "u64 \<Rightarrow> router \<times> u64" where
  "router_new current_uuid =
     (let (l, u) = legacy_node_init current_uuid ROUTER in
      (\<lparr>ln = l, rtr_id = 0, ecmp = False, daemon = None, ext_intfs = []\<rparr>, u))"

definition router_stop :: "router \<Rightarrow> command list res" where
  "router_stop r =
     (let rname = node_name (base (ln r)) in
      rbind (sprintf (MAX_NODE_NAME + 10) (rname @ ''-inet-ext'')) (\<lambda>internal_intf.
        rbind (deref (daemon r)) (\<lambda>d.
          Inr (delete_intf internal_intf @ concat (map delete_intf (ext_intfs r)) @ [Netns_Delete rname] @ daemon_stop d))))"

definition router_destroy :: "router \<Rightarrow> (router \<times> command list) res" where
  "router_destroy r = rbind (router_stop r) (\<lambda>cmds. Inr (r\<lparr>ln := legacy_node_clean (ln r)\<rparr>, cmds))"

definition router_add_port :: "router \<Rightarrow> u32 \<Rightarrow> bytes \<Rightarrow> u32 \<Rightarrow> u32 \<Rightarrow> router res" where
  "router_add_port r pid eth_addr speed curr_speed =
     rbind (node_add_port (base (ln r)) pid eth_addr speed curr_speed) (\<lambda>n.
       Inr (r\<lparr>ln := (ln r)\<lparr>base := n\<rparr>\<rparr>))"

definition router_add_external_intf :: "router \<Rightarrow> string \<Rightarrow> router" where
  "router_add_external_intf r intf = r\<lparr>ext_intfs := ext_intfs r @ [intf]\<rparr>"

definition router_set_quagga_daemon :: "router \<Rightarrow> quagga_daemon \<Rightarrow> router" where
  "router_set_quagga_daemon r d = r\<lparr>daemon := Some (Quagga d)\<rparr>"

definition router_set_exabgp_daemon :: "router \<Rightarrow> exabgp_daemon \<Rightarrow> router" where
  "router_set_exabgp_daemon r d = r\<lparr>daemon := Some (Exabgp d)\<rparr>"

definition router_set_intf_ipv4 :: "router \<Rightarrow> u32 \<Rightarrow> u32 \<Rightarrow> u32 \<Rightarrow> router res" where
  "router_set_intf_ipv4 r pid addr netmask =
     rbind (legacy_node_set_intf_ipv4 (ln r) pid addr netmask) (\<lambda>l. Inr (r\<lparr>ln := l\<rparr>))"

definition router_port :: "router \<Rightarrow> u32 \<Rightarrow> port option" where
  "router_port r pid = node_port (base (ln r)) pid"

definition count_rx :: "netflow \<Rightarrow> port \<Rightarrow> port" where
  "count_rx flow p =
     p\<lparr>p_stats := (p_stats p)\<lparr>rx_bytes := rx_bytes (p_stats p) + byte_cnt flow,
                             rx_packets := rx_packets (p_stats p) + pkt_cnt flow\<rparr>\<rparr>"

definition router_recv_netflow :: "router \<Rightarrow> netflow \<Rightarrow> (router \<times> netflow option) res" where
  "router_recv_netflow r flow =
     (let in_p = in_port (nf_match flow);
          r = (case router_port r in_p of
                 None \<Rightarrow> r
               | Some p \<Rightarrow> r\<lparr>ln := (ln r)\<lparr>base := upd_port (base (ln r)) in_p (count_rx flow)\<rparr>\<rparr>);
          ety = eth_type (nf_match flow) in
      rbind (l2_recv_netflow (ln r) flow) (\<lambda>(l, _, nf).
        let r = r\<lparr>ln := l\<rparr> in
        case nf of
          None \<Rightarrow> Inr (r, None)
        | Some nf \<Rightarrow>
            if ety = ETH_TYPE_IP \<or> ety = ETH_TYPE_IPV6 then
              if is_l3_destination (ln r) nf then Inr (r, None)
              else rbind (find_forwarding_ports (ln r) nf (ecmp r)) (\<lambda>(l, _, f). Inr (r\<lparr>ln := l\<rparr>, f))
            else if ety = ETH_TYPE_ARP then Inr (r, Some nf)
            else Inr (r, None)))"

definition gen_internal_ip :: "internal_net_bytes \<Rightarrow> internal_net_bytes \<times> string option" where
  "gen_internal_ip b =
     (if fourth b < 254 then
        let b = b\<lparr>fourth := fourth b + 1\<rparr>
        in (b, Some (''172.20.'' @ dec_digits (unat (third b)) @ ''.'' @ dec_digits (unat (fourth b))))
      else if third b = 254 then (b, None)
      else
        let b = b\<lparr>fourth := 1, third := third b + 1\<rparr>
        in (b, Some (''172.20.'' @ dec_digits (unat (third b)) @ ''.'' @ dec_digits (unat (fourth b)))))"

text \<open>\<open>fails\<close> is what \<open>netns_add\<close> returns.  An address that was not generated is an array
  that was not written.\<close>

definition router_start ::
  "router \<Rightarrow> bool \<Rightarrow> internal_net_bytes \<Rightarrow> (internal_net_bytes \<times> int \<times> command list) res" where
  "router_start r fails b =
     (let rname = node_name (base (ln r)) in
      if fails then Inr (b, -1, [Netns_Add rname])
      else
        rbind (sprintf (MAX_NODE_NAME + 20) (rname @ ''-inet'')) (\<lambda>intf2.
        rbind (sprintf (MAX_NODE_NAME + 20) (rname @ ''-inet-ext'')) (\<lambda>intf.
          let (b, addr) = gen_internal_ip b in
          case addr of
            None \<Rightarrow> Inl Uninitialised
          | Some addr \<Rightarrow>
              Inr (b, 0, [Netns_Add rname] @ setup_veth (Some rname) intf intf2 addr ''16'' ''br0'' @
                [Netns_Run (Some rname) ''ifconfig lo up'', Netns_Run (Some rname) ''sysctl -w net.ipv4.ip_forward=1'']))))"

definition router_start_daemon ::
  "router \<Rightarrow> int \<Rightarrow> nat option \<Rightarrow> string option \<Rightarrow> (router \<times> command list) res" where
  "router_start_daemon r fd refused helper =
     (let ip = swap32 (rtr_id r); rid_str = get_ip_str (mem32 ip) in
      rbind (deref (daemon r)) (\<lambda>d.
        rbind (daemon_start d rid_str fd refused helper) (\<lambda>(d, cmds). Inr (r\<lparr>daemon := Some d\<rparr>, cmds))))"

definition router_send_netflow :: "router \<Rightarrow> netflow \<Rightarrow> u32 \<Rightarrow> router" where
  "router_send_netflow r flow out_port =
     r\<lparr>ln := (ln r)\<lparr>base := node_update_port_stats (base (ln r)) flow out_port\<rparr>\<rparr>"

text \<open>The routes of a FIB message: one per twelve bytes.\<close>

fun fib_loop :: "route_table \<Rightarrow> bytes \<Rightarrow> nat \<Rightarrow> nat \<Rightarrow> route_table res" where
  "fib_loop t data off 0 = Inr t"
| "fib_loop t data off (Suc n) =
     rbind (rd32 data off) (\<lambda>addr. rbind (rd32 data (off + 4)) (\<lambda>netmask. rbind (rd32 data (off + 8)) (\<lambda>next_hop.
       rbind (ipv4_lookup t next_hop 0) (\<lambda>re.
         let pid = (case re of None \<Rightarrow> 0 | Some re \<Rightarrow> re_iface re);
             e = \<lparr>re_ip = addr AND netmask, re_netmask = netmask, re_gateway = next_hop, re_iface = pid,
                  re_flags = 0, re_metric = 0\<rparr> in
         rbind (add_ipv4_entry t e) (\<lambda>t. fib_loop t data (off + 12) n)))))"

definition fib_add :: "router \<Rightarrow> bytes \<Rightarrow> nat \<Rightarrow> nat \<Rightarrow> router res" where
  "fib_add r data off len =
     rbind (fib_loop (rt (ln r)) data off (len div 12)) (\<lambda>t. Inr (r\<lparr>ln := (ln r)\<lparr>rt := t\<rparr>\<rparr>))"

text \<open>No branch answers.  The length of the payload is computed in \<open>size_t\<close>: a size below that
  of the header wraps around.\<close>

definition router_handle_control_message :: "router \<Rightarrow> bytes \<Rightarrow> (router \<times> bytes option) res" where
  "router_handle_control_message r data =
     rbind (routing_msg_unpack data) (\<lambda>msg.
       let ty = rm_type (hdr_of msg); sz = rm_size (hdr_of msg) in
       if ty = BGP_STATE then Inr (r, None)
       else if ty = BGP_ANNOUNCE \<or> ty = ROUTER_ACTIVITY then Inr (r, None)
       else if ty = ROUTER_FIB then
         rbind (fib_add r data HEADER_LEN (unat ((ucast sz :: u64) - of_nat HEADER_LEN))) (\<lambda>r. Inr (r, None))
       else Inr (r, None))"

definition router_change_daemon_config :: "router \<Rightarrow> string \<Rightarrow> u8 \<Rightarrow> command list res" where
  "router_change_daemon_config r cmd proto = rbind (deref (daemon r)) (\<lambda>d. daemon_change_config d cmd proto)"

definition router_set_name :: "router \<Rightarrow> string option \<Rightarrow> router \<times> bool" where
  "router_set_name r name =
     (let (n, ok) = node_set_name (base (ln r)) name in (r\<lparr>ln := (ln r)\<lparr>base := n\<rparr>\<rparr>, ok))"

definition router_set_ecmp :: "router \<Rightarrow> bool \<Rightarrow> router" where
  "router_set_ecmp r enable = r\<lparr>ecmp := enable\<rparr>"

definition router_set_id :: "router \<Rightarrow> u32 \<Rightarrow> router" where
  "router_set_id r rid = r\<lparr>rtr_id := rid\<rparr>"

definition router_name :: "router \<Rightarrow> string" where
  "router_name r = node_name (base (ln r))"

definition router_uuid :: "router \<Rightarrow> u64" where
  "router_uuid r = uuid (base (ln r))"

definition router_id :: "router \<Rightarrow> u32" where
  "router_id r = rtr_id r"

definition router_ecmp :: "router \<Rightarrow> bool" where
  "router_ecmp r = ecmp r"

subsection \<open>Forwarding\<close>

definition counted :: "router \<Rightarrow> netflow \<Rightarrow> router" where
  "counted r flow = r\<lparr>ln := (ln r)\<lparr>base := upd_port (base (ln r)) (in_port (nf_match flow)) (count_rx flow)\<rparr>\<rparr>"

lemma count_rx_fields [simp]:
  "port_id (count_rx flow p) = port_id p" "p_eth_address (count_rx flow p) = p_eth_address p"
  "p_ipv4_addr (count_rx flow p) = p_ipv4_addr p" "p_ipv6_addr (count_rx flow p) = p_ipv6_addr p"
  by (simp_all add: count_rx_def)

lemma counted_port:
  "node_port (base (ln (counted r flow))) q =
     (if q = in_port (nf_match flow) then map_option (count_rx flow) (node_port (base (ln r)) q)
      else node_port (base (ln r)) q)"
  by (simp add: counted_def node_port_upd_port)

lemma counted_fields [simp]:
  "at (ln (counted r flow)) = at (ln r)" "rt (ln (counted r flow)) = rt (ln r)" "ecmp (counted r flow) = ecmp r"
  "flow_buff (base (ln (counted r flow))) = flow_buff (base (ln r))"
  by (simp_all add: counted_def)

lemma counted_buffer [simp]:
  "buff_inv (base (ln (counted r flow))) = buff_inv (base (ln r))"
  "waiting (base (ln (counted r flow))) = waiting (base (ln r))"
  by (simp_all add: buff_inv_def waiting_def)

lemma router_recv_counted:
  assumes "router_port r (in_port (nf_match flow)) = Some p"
  shows "router_recv_netflow r flow =
     (let r = counted r flow; ety = eth_type (nf_match flow) in
      rbind (l2_recv_netflow (ln r) flow) (\<lambda>(l, _, nf).
        let r = r\<lparr>ln := l\<rparr> in
        case nf of
          None \<Rightarrow> Inr (r, None)
        | Some nf \<Rightarrow>
            if ety = ETH_TYPE_IP \<or> ety = ETH_TYPE_IPV6 then
              if is_l3_destination (ln r) nf then Inr (r, None)
              else rbind (find_forwarding_ports (ln r) nf (ecmp r)) (\<lambda>(l, _, f). Inr (r\<lparr>ln := l\<rparr>, f))
            else if ety = ETH_TYPE_ARP then Inr (r, Some nf)
            else Inr (r, None)))"
  unfolding router_recv_netflow_def counted_def Let_def assms option.case by (rule refl)

text \<open>A flow that a router has to forward: it arrives at a known port, for the port's link address
  and for another IPv4 address.\<close>

definition to_forward :: "router \<Rightarrow> netflow \<Rightarrow> bool" where
  "to_forward r flow \<longleftrightarrow>
     eth_type (nf_match flow) = ETH_TYPE_IP \<and> out_ports flow = [] \<and>
     (case node_port (base (ln r)) (in_port (nf_match flow)) of
        None \<Rightarrow> False
      | Some p \<Rightarrow> p_eth_address p = eth_dst (nf_match flow) \<and> ipv4_dst (nf_match flow) \<noteq> 0 \<and>
          (case p_ipv4_addr p of None \<Rightarrow> False | Some i \<Rightarrow> v4_addr i \<noteq> ipv4_dst (nf_match flow)))"

lemma router_forwards_to:
  assumes "to_forward r flow"
  shows "router_recv_netflow r flow =
    rbind (find_forwarding_ports (ln (counted r flow)) flow (ecmp r)) (\<lambda>(l, _, f). Inr ((counted r flow)\<lparr>ln := l\<rparr>, f))"
proof -
  obtain p i where p: "node_port (base (ln r)) (in_port (nf_match flow)) = Some p" "p_eth_address p = eth_dst (nf_match flow)"
      "p_ipv4_addr p = Some i" "v4_addr i \<noteq> ipv4_dst (nf_match flow)" "ipv4_dst (nf_match flow) \<noteq> 0"
    using assms by (auto simp: to_forward_def split: option.splits)
  have ty: "eth_type (nf_match flow) = ETH_TYPE_IP"
    using assms by (simp add: to_forward_def)
  have c: "node_port (base (ln (counted r flow))) (in_port (nf_match flow)) = Some (count_rx flow p)"
    using p(1) by (simp add: counted_port)
  have l2: "l2_recv_netflow (ln (counted r flow)) flow = Inr (ln (counted r flow), flow, Some flow)"
    using c p(2) ty by (simp add: l2_recv_netflow_def Let_def ETH_TYPE_IP_def ETH_TYPE_ARP_def)
  have "\<not> is_l3_destination (ln (counted r flow)) flow"
    using c p(3-5) by (simp add: is_l3_destination_def Let_def)
  then show ?thesis
    unfolding router_recv_counted [of r flow p, unfolded router_port_def, OF p(1)] Let_def l2
    using ty by simp
qed

text \<open>C7: A router with the routes \<open>es\<close> forwards a flow along them.  Without a route it drops the
  flow.  With the link address of the next hop known, the flow leaves by the interface of a route
  with the longest matching prefix (the one the flow's hash selects when the router spreads over
  equal routes) towards that link address, and nothing else of it changes.  With the address
  unknown, the router sends a request for it out of that interface and keeps the flow, if fewer than
  two are waiting; a third one is lost.\<close>

theorem router_forwards:
  assumes "to_forward r flow" "table_of es (rt (ln r))" "buff_inv (base (ln r))"
    and "\<And>iface ip. next_hop es flow (ecmp r) = Some (iface, ip) \<Longrightarrow>
      ip \<noteq> 0 \<and> (\<exists>p i. node_port (base (ln (counted r flow))) iface = Some p \<and> p_ipv4_addr p = Some i)"
  shows "case next_hop es flow (ecmp r) of
      None \<Rightarrow> router_recv_netflow r flow = Inr (counted r flow, None)
    | Some (iface, ip) \<Rightarrow>
        let f = flow\<lparr>out_ports := [iface]\<rparr> in
        (case arp_table_lookup (at (ln r)) ip of
           Some ae \<Rightarrow> router_recv_netflow r flow =
             Inr (counted r flow, Some (upd_match (\<lambda>m. m\<lparr>eth_dst := ae_eth_addr ae\<rparr>) f))
         | None \<Rightarrow> \<exists>n p i. router_recv_netflow r flow =
               Inr ((counted r flow)\<lparr>ln := (ln (counted r flow))\<lparr>base := n\<rparr>\<rparr>, Some (arp_request p i iface ip (start_time flow))) \<and>
             node_port (base (ln (counted r flow))) iface = Some p \<and> p_ipv4_addr p = Some i \<and> buff_inv n \<and>
             waiting n = (if length (waiting (base (ln r))) < 2 then f # waiting (base (ln r)) else waiting (base (ln r))))"
proof (cases "next_hop es flow (ecmp r)")
  case None
  then show ?thesis
    using router_forwards_to [OF assms(1)] forward_none [of es "ln (counted r flow)" flow "ecmp r"] assms(2) by simp
next
  case (Some h)
  obtain iface ip where h: "h = (iface, ip)" by fastforce
  obtain p i where p: "ip \<noteq> 0" "node_port (base (ln (counted r flow))) iface = Some p" "p_ipv4_addr p = Some i"
    using assms(4) [of iface ip] Some h by auto
  have t: "table_of es (rt (ln (counted r flow)))" and out: "out_ports flow = []"
    using assms(1,2) by (simp_all add: to_forward_def)
  then have f: "netflow_add_out_port flow iface = flow\<lparr>out_ports := [iface]\<rparr>"
    by (simp add: netflow_add_out_port_def LL_APPEND_def)
  show ?thesis
  proof (cases "arp_table_lookup (at (ln r)) ip")
    case (Some ae)
    then show ?thesis
      using router_forwards_to [OF assms(1)] forward_known [OF t _ p(1), of flow "ecmp r" iface ae]
        \<open>next_hop es flow (ecmp r) = Some h\<close> h f by (simp add: Let_def)
  next
    case None
    obtain n ok where n: "node_flow_push (base (ln (counted r flow))) (netflow_add_out_port flow iface) = Inr (n, ok)"
        "buff_inv n" "ok \<longleftrightarrow> length (waiting (base (ln r))) < 2"
        "waiting n = (if ok then netflow_add_out_port flow iface # waiting (base (ln r)) else waiting (base (ln r)))"
      using waiting_flows.push_total [of "base (ln (counted r flow))" "netflow_add_out_port flow iface"] assms(3) by auto
    have "find_forwarding_ports (ln (counted r flow)) flow (ecmp r) =
        Inr ((ln (counted r flow))\<lparr>base := n\<rparr>, netflow_add_out_port flow iface, Some (arp_request p i iface ip (start_time flow)))"
      using forward_unknown [OF t _ p(1) _ out p(2,3) n(1), of "ecmp r"] None \<open>next_hop es flow (ecmp r) = Some h\<close> h by simp
    then show ?thesis
      using router_forwards_to [OF assms(1)] None \<open>next_hop es flow (ecmp r) = Some h\<close> h p(2,3) n(2-4) f
      by (auto simp: Let_def)
  qed
qed

text \<open>A route to 11.0.0.0/8 through 10.0.0.2, and a flow for it.\<close>

definition example_route :: route_entry_v4 where
  "example_route = \<lparr>re_ip = 0x0B000000, re_netmask = 0xFF000000, re_gateway = 0x0A000002, re_iface = 1,
     re_flags = 0, re_metric = 0\<rparr>"

definition example_router :: "route_table \<Rightarrow> router" where
  "example_router t = \<lparr>ln = example_node\<lparr>rt := t\<rparr>, rtr_id = 1, ecmp = False, daemon = None, ext_intfs = []\<rparr>"

definition example_flow :: netflow where
  "example_flow = netflow_init\<lparr>pkt_cnt := 1, byte_cnt := 64, nf_match := zero_key\<lparr>in_port := 1, eth_type := ETH_TYPE_IP,
     eth_dst := [0, 0, 0, 0, 0, 1], ipv4_dst := 0x0B000005\<rparr>\<rparr>"

lemma example_next_hop: "next_hop [example_route] example_flow False = Some (1, 0x0A000002)"
proof -
  have "ntz 0xFF000000 = 24"
    by code_simp
  then show ?thesis
    by (simp add: next_hop_def best_routes_def covers_def example_route_def example_flow_def Let_def)
qed

lemma example_to_forward: "to_forward (example_router t) example_flow"
  using example_node_port
  by (simp add: to_forward_def example_router_def example_flow_def netflow_init_def)
    (simp add: example_port_def port_add_v4addr_def port_new_def ETH_LEN_def)

lemma example_buffer: "buff_inv (base (ln (example_router t)))" "waiting (base (ln (example_router t))) = []"
  by (simp_all add: example_router_def example_node_def buff_inv_def waiting_def node_init_def BUFFER_MAX_def Let_def)

lemma example_out_port:
  "node_port (base (ln (counted (example_router t) example_flow))) 1 = Some (count_rx example_flow example_port)"
  using example_node_port by (simp add: counted_port example_router_def example_flow_def)

theorem router_forwards_witness:
  "\<exists>t r' req. rfold add_ipv4_entry route_table_init [example_route] = Inr t \<and>
    router_recv_netflow (example_router t) example_flow = Inr (r', Some req) \<and>
    arp_op (nf_match req) = ARP_REQUEST \<and> arp_tpa (nf_match req) = 0x0A000002 \<and> out_ports req = [1] \<and>
    waiting (base (ln r')) = [example_flow\<lparr>out_ports := [1]\<rparr>]"
proof -
  obtain t where t: "add_ipv4_entry route_table_init example_route = Inr t" "table_of [example_route] t"
    using table_of_add [OF table_of_init, of example_route] by auto
  have i: "p_ipv4_addr (count_rx example_flow example_port) = Some \<lparr>v4_addr = 0x0A000001, v4_netmask = 0xFF000000, v4_bcast = None\<rparr>"
    by (simp add: example_port_def port_add_v4addr_def)
  have eq: "ecmp (example_router t) = False" "at (ln (example_router t)) = arp_table_init" "rt (ln (example_router t)) = t"
    by (simp_all add: example_router_def example_node_def)
  show ?thesis
    using router_forwards [of "example_router t" example_flow "[example_route]"] t example_to_forward example_buffer
      example_next_hop example_out_port i
    by (auto simp: eq arp_request_def Let_def)
qed

subsection \<open>Resolution of link addresses\<close>

lemma router_recv_reply:
  assumes "node_port (base (ln r)) (in_port (nf_match rep)) = Some q" "eth_dst (nf_match rep) = p_eth_address q"
    and "eth_type (nf_match rep) = ETH_TYPE_ARP" "arp_op (nf_match rep) = ARP_REPLY"
    and "buff_inv (base (ln r))" "waiting (base (ln r)) = flow # rest"
  shows "\<exists>r'. router_recv_netflow r rep =
      Inr (r', Some (upd_match (\<lambda>m. m\<lparr>eth_dst := take ETH_LEN (arp_sha (nf_match rep))\<rparr>) (flow\<lparr>start_time := start_time rep\<rparr>))) \<and>
    waiting (base (ln r')) = rest \<and> rt (ln r') = rt (ln r) \<and>
    at (ln r') = arp_table_add_entry (at (ln r))
      (arp_table_entry_new (arp_spa (nf_match rep)) (arp_sha (nf_match rep)) (in_port (nf_match rep)))"
proof -
  let ?c = "counted r rep"
  have "node_port (base (ln ?c)) (in_port (nf_match rep)) = Some (count_rx rep q)"
    using assms(1) by (simp add: counted_port)
  from l2_reply_releases [OF this, of flow rest]
  obtain n where n: "l2_recv_netflow (ln ?c) rep =
      Inr ((ln ?c)\<lparr>base := n, at := arp_table_add_entry (at (ln ?c))
             (arp_table_entry_new (arp_spa (nf_match rep)) (arp_sha (nf_match rep)) (in_port (nf_match rep)))\<rparr>,
           netflow_init,
           Some (upd_match (\<lambda>m. m\<lparr>eth_dst := take ETH_LEN (arp_sha (nf_match rep))\<rparr>) (flow\<lparr>start_time := start_time rep\<rparr>)))"
      "waiting n = rest"
    using assms(2-6) by auto
  show ?thesis
    unfolding router_recv_counted [of r rep q, unfolded router_port_def, OF assms(1)] Let_def n(1)
    using assms(3) n(2) by (simp add: eth_types)
qed


definition example_reply :: netflow where
  "example_reply = netflow_init\<lparr>start_time := 7, nf_match := zero_key\<lparr>in_port := 1, eth_type := ETH_TYPE_ARP, arp_op := ARP_REPLY,
     eth_dst := [0, 0, 0, 0, 0, 1], arp_spa := 0x0A000002, arp_sha := [0, 0, 0, 0, 0, 2]\<rparr>\<rparr>"


subsection \<open>Routes from the daemons\<close>

definition fib_entry :: "route_entry_v4 list \<Rightarrow> u32 \<times> u32 \<times> u32 \<Rightarrow> route_entry_v4" where
  "fib_entry es = (\<lambda>(addr, netmask, hop).
     \<lparr>re_ip = addr AND netmask, re_netmask = netmask, re_gateway = hop,
      re_iface = (case best_routes es hop of [] \<Rightarrow> 0 | re # _ \<Rightarrow> re_iface re), re_flags = 0, re_metric = 0\<rparr>)"

fun fib_routes :: "route_entry_v4 list \<Rightarrow> (u32 \<times> u32 \<times> u32) list \<Rightarrow> route_entry_v4 list" where
  "fib_routes es [] = es"
| "fib_routes es (x # xs) = fib_routes (es @ [fib_entry es x]) xs"

definition fib_payload :: "(u32 \<times> u32 \<times> u32) list \<Rightarrow> bytes" where
  "fib_payload xs = concat (map (\<lambda>(addr, netmask, hop). put32 addr @ put32 netmask @ put32 hop) xs)"

lemma fib_loop_routes:
  assumes "table_of es t" "length pre = off"
  shows "\<exists>t'. fib_loop t (pre @ fib_payload xs @ post) off (length xs) = Inr t' \<and> table_of (fib_routes es xs) t'"
  using assms
proof (induction xs arbitrary: es t pre off)
  case (Cons x xs)
  obtain addr netmask hop where x: "x = (addr, netmask, hop)"
    using prod_cases3 by blast
  let ?rest = "fib_payload xs @ post"
  have data: "pre @ fib_payload (x # xs) @ post = pre @ put32 addr @ put32 netmask @ put32 hop @ ?rest"
    by (simp add: fib_payload_def x)
  have reads: "rd32 (pre @ put32 addr @ put32 netmask @ put32 hop @ ?rest) off = Inr addr"
      "rd32 (pre @ put32 addr @ put32 netmask @ put32 hop @ ?rest) (off + 4) = Inr netmask"
      "rd32 (pre @ put32 addr @ put32 netmask @ put32 hop @ ?rest) (off + 8) = Inr hop"
    using rd32_put32 [OF Cons.prems(2), of addr] rd32_put32 [of "pre @ put32 addr" "off + 4" netmask]
      rd32_put32 [of "pre @ put32 addr @ put32 netmask" "off + 8" hop ?rest] Cons.prems(2) by simp_all
  have found: "ipv4_lookup t hop 0 = Inr (case best_routes es hop of [] \<Rightarrow> None | re # _ \<Rightarrow> Some re)"
    by (simp add: ipv4_lookup_table [OF Cons.prems(1)] Let_def split: list.splits)
  have entry: "fib_entry es x = \<lparr>re_ip = addr AND netmask, re_netmask = netmask, re_gateway = hop,
      re_iface = (case (case best_routes es hop of [] \<Rightarrow> None | re # _ \<Rightarrow> Some re) of None \<Rightarrow> 0 | Some re \<Rightarrow> re_iface re),
      re_flags = 0, re_metric = 0\<rparr>"
    by (simp add: fib_entry_def x split: list.splits)
  obtain t' where t': "add_ipv4_entry t (fib_entry es x) = Inr t'" "table_of (es @ [fib_entry es x]) t'"
    using table_of_add [OF Cons.prems(1)] by blast
  have "length (pre @ put32 addr @ put32 netmask @ put32 hop) = off + 12"
    using Cons.prems(2) by simp
  from Cons.IH [OF t'(2) this] show ?case
    unfolding data using t'(1) by (simp add: reads found entry Let_def)
qed (simp add: fib_payload_def)

lemma unat_u16: "n < 2 ^ 16 \<Longrightarrow> unat (of_nat n :: u16) = n"
  by (simp add: unat_of_nat)

lemma unat_u16_u64: "unat (ucast x :: u64) = unat x" for x :: u16
proof -
  have "unat x < 2 ^ 64"
    using unsigned_less [of x, where 'a = nat] by simp
  then show ?thesis
    by (simp add: unsigned_ucast_eq take_bit_nat_eq_self)
qed

lemma fib_message_adds:
  assumes "table_of es (rt (ln r))" "HEADER_LEN + 12 * length xs < 2 ^ 16"
  shows "\<exists>t. router_handle_control_message r
      (put16 ROUTER_FIB @ put16 (of_nat (HEADER_LEN + 12 * length xs)) @ put32 rid @ fib_payload xs @ padding) =
      Inr (r\<lparr>ln := (ln r)\<lparr>rt := t\<rparr>\<rparr>, None) \<and> table_of (fib_routes es xs) t"
proof -
  let ?sz = "of_nat (HEADER_LEN + 12 * length xs) :: u16"
  let ?hdr = "put16 ROUTER_FIB @ put16 ?sz @ put32 rid"
  have sz: "unat ?sz = HEADER_LEN + 12 * length xs"
    using assms(2) by (rule unat_u16)
  have unpack: "routing_msg_unpack (?hdr @ fib_payload xs @ padding) =
      Inr (Header \<lparr>rm_type = ROUTER_FIB, rm_size = ?sz, rm_router_id = rid\<rparr>)"
    unfolding routing_msg_unpack_def append_assoc unpack_hdr_bytes rbind_simps unpack_header_def
    by (simp add: routing_types)
  have "unat (ucast ?sz :: u64) = HEADER_LEN + 12 * length xs"
    using sz by (simp only: unat_u16_u64)
  moreover have "unat (of_nat HEADER_LEN :: u64) = HEADER_LEN"
    by (simp add: HEADER_LEN_def)
  ultimately have "unat ((ucast ?sz :: u64) - of_nat HEADER_LEN) = 12 * length xs"
    by (subst unat_sub) (simp_all only: word_le_nat_alt)
  then have len: "unat ((ucast ?sz :: u64) - of_nat HEADER_LEN) div 12 = length xs"
    by simp
  have "length ?hdr = HEADER_LEN"
    by (simp add: HEADER_LEN_def)
  from fib_loop_routes [OF assms(1) this, of xs padding]
  obtain t where t: "fib_loop (rt (ln r)) (?hdr @ fib_payload xs @ padding) HEADER_LEN (length xs) = Inr t"
      "table_of (fib_routes es xs) t"
    by blast
  have "router_handle_control_message r (?hdr @ fib_payload xs @ padding) = Inr (r\<lparr>ln := (ln r)\<lparr>rt := t\<rparr>\<rparr>, None)"
    unfolding router_handle_control_message_def unpack rbind_simps Let_def hdr_of.simps fib_add_def
    using t(1) len by (simp add: routing_types)
  then show ?thesis
    using t(2) by auto
qed

text \<open>A FIB message in the documented wire format (a header with the size of the message without
  its padding, then triples of prefix, netmask and next hop in network order) installs exactly its
  routes, in order: the network of the masked prefix through the next hop, by the interface of the
  route to that hop at the time or by port 0 when there is none.  Nothing else of the router changes
  and nothing is answered.\<close>

theorem fib_message_installs:
  assumes "table_of es (rt (ln r))" "HEADER_LEN + 12 * length xs < 2 ^ 16"
  shows "\<exists>t. router_handle_control_message r
      (put16 ROUTER_FIB @ put16 (of_nat (HEADER_LEN + 12 * length xs)) @ put32 rid @ fib_payload xs @ padding) =
      Inr (r\<lparr>ln := (ln r)\<lparr>rt := t\<rparr>\<rparr>, None) \<and> table_of (fib_routes es xs) t"
  using assms by (rule fib_message_adds)

theorem fib_message_installs_witness:
  "\<exists>t. router_handle_control_message (example_router route_table_init)
      (put16 ROUTER_FIB @ put16 20 @ put32 1 @ fib_payload [(0x0B000000, 0xFF000000, 0x0A000002)] @ [0, 0, 0, 0]) =
      Inr ((example_router route_table_init)\<lparr>ln := (ln (example_router route_table_init))\<lparr>rt := t\<rparr>\<rparr>, None) \<and>
    table_of [fib_entry [] (0x0B000000, 0xFF000000, 0x0A000002)] t"
  using fib_message_installs [of "[]" "example_router route_table_init" "[(0x0B000000, 0xFF000000, 0x0A000002)]" 1 "[0, 0, 0, 0]"]
  by (simp add: example_router_def HEADER_LEN_def)

end
