(* ===== verification/Topology.thy ===== *)
theory Topology
  imports Datapath Host Router
begin

section \<open>The network (net/topology)\<close>

text \<open>
  The nodes and links of the simulated network.  The code keeps every node once and reaches it by
  pointers from the table of all nodes and from the tables of datapaths, routers and hosts; here the
  nodes are in the first table and the others refer to them by their unique identifier.  The array
  of degrees is never used.
\<close>

subsection \<open>Definitions\<close>

datatype net_node = Dp datapath | Rt router | Ht host

fun node_of :: "net_node \<Rightarrow> node" where
  "node_of (Dp dp) = dp_base dp"
| "node_of (Rt r) = base (ln r)"
| "node_of (Ht h) = base (ep h)"

fun set_node_of :: "node \<Rightarrow> net_node \<Rightarrow> net_node" where
  "set_node_of n (Dp dp) = Dp (dp\<lparr>dp_base := n\<rparr>)"
| "set_node_of n (Rt r) = Rt (r\<lparr>ln := (ln r)\<lparr>base := n\<rparr>\<rparr>)"
| "set_node_of n (Ht h) = Ht (h\<lparr>ep := (ep h)\<lparr>base := n\<rparr>\<rparr>)"

definition nuuid :: "net_node \<Rightarrow> u64" where
  "nuuid n = uuid (node_of n)"

type_synonym node_port_pair = "u64 \<times> u32"

record link =
  l_node1 :: node_port_pair
  l_node2 :: node_port_pair
  l_latency :: u32
  l_bandwidth :: u32

record dp_node =
  dn_dp_id :: u64
  dn_uuid :: u64

record router_node =
  rn_router_id :: u32
  rn_uuid :: u64

record host_node =
  hn_uuid :: u64

record topology =
  nodes :: "net_node list"
  links :: "link list"
  dps :: "dp_node list"
  routers :: "router_node list"
  hosts :: "host_node list"
  n_dps :: u32
  n_routers :: u32
  n_hosts :: u32
  n_links :: u32

definition topology_init :: topology where
  "topology_init = \<lparr>nodes = [], links = [], dps = [], routers = [], hosts = [], n_dps = 0, n_routers = 0,
     n_hosts = 0, n_links = 0\<rparr>"

definition topology_new :: topology where
  "topology_new = topology_init"

definition topology_add_router :: "topology \<Rightarrow> router \<Rightarrow> topology" where
  "topology_add_router topo r =
     topo\<lparr>routers := HASH_ADD (routers topo) \<lparr>rn_router_id = router_id r, rn_uuid = router_uuid r\<rparr>,
          nodes := HASH_ADD (nodes topo) (Rt r), n_routers := n_routers topo + 1\<rparr>"

definition topology_add_datapath :: "topology \<Rightarrow> datapath \<Rightarrow> topology" where
  "topology_add_datapath topo dp =
     topo\<lparr>dps := HASH_ADD (dps topo) \<lparr>dn_dp_id = dp_id dp, dn_uuid = dp_uuid dp\<rparr>,
          nodes := HASH_ADD (nodes topo) (Dp dp), n_dps := n_dps topo + 1\<rparr>"

definition topology_add_host :: "topology \<Rightarrow> host \<Rightarrow> topology" where
  "topology_add_host topo h =
     topo\<lparr>hosts := HASH_ADD (hosts topo) \<lparr>hn_uuid = host_uuid h\<rparr>,
          nodes := HASH_ADD (nodes topo) (Ht h), n_hosts := n_hosts topo + 1\<rparr>"

definition topology_node :: "topology \<Rightarrow> u64 \<Rightarrow> net_node option" where
  "topology_node topo u = HASH_FIND nuuid (nodes topo) u"

text \<open>The recursion of the code inserts the link backwards and stops there.\<close>

definition add_directed :: "topology \<Rightarrow> u64 \<Rightarrow> u64 \<Rightarrow> u32 \<Rightarrow> u32 \<Rightarrow> u32 \<Rightarrow> u32 \<Rightarrow> topology option" where
  "add_directed t uuidA uuidB portA portB bw latency =
     (case topology_node t uuidA of
        None \<Rightarrow> None
      | Some a \<Rightarrow>
          (case topology_node t uuidB of
             None \<Rightarrow> None
           | Some b \<Rightarrow>
               Some (t\<lparr>links := HASH_ADD (links t)
                 \<lparr>l_node1 = (nuuid a, portA), l_node2 = (nuuid b, portB), l_latency = latency, l_bandwidth = bw\<rparr>\<rparr>)))"

definition topology_add_link :: "topology \<Rightarrow> u64 \<Rightarrow> u64 \<Rightarrow> u32 \<Rightarrow> u32 \<Rightarrow> u32 \<Rightarrow> u32 \<Rightarrow> bool \<Rightarrow> topology" where
  "topology_add_link t uuidA uuidB portA portB bw latency directed =
     (case add_directed t uuidA uuidB portA portB bw latency of
        None \<Rightarrow> t
      | Some t \<Rightarrow>
          if \<not> directed then
            (case add_directed t uuidB uuidA portB portA bw latency of
               None \<Rightarrow> t
             | Some t \<Rightarrow> t\<lparr>n_links := n_links t + 1\<rparr>)
          else t\<lparr>n_links := n_links t + 1\<rparr>)"

definition topology_next_hop :: "topology \<Rightarrow> u64 \<Rightarrow> u32 \<Rightarrow> (u64 \<times> u32 \<times> u32) option" where
  "topology_next_hop topo orig_uuid orig_port =
     (case HASH_FIND l_node1 (links topo) (orig_uuid, orig_port) of
        None \<Rightarrow> None
      | Some l \<Rightarrow> Some (fst (l_node2 l), snd (l_node2 l), l_latency l))"

text \<open>What is left is freed: the commands are those that stop the daemons of the routers.\<close>

fun destroy_nodes :: "net_node list \<Rightarrow> command list res" where
  "destroy_nodes [] = Inr []"
| "destroy_nodes (Rt r # ns) =
     rbind (router_destroy r) (\<lambda>(_, cmds). rbind (destroy_nodes ns) (\<lambda>more. Inr (cmds @ more)))"
| "destroy_nodes (Dp dp # ns) = destroy_nodes ns"
| "destroy_nodes (Ht h # ns) = destroy_nodes ns"

definition topology_destroy :: "topology \<Rightarrow> command list res" where
  "topology_destroy topo = destroy_nodes (nodes topo)"

definition topology_datapath_by_dpid :: "topology \<Rightarrow> u64 \<Rightarrow> datapath option" where
  "topology_datapath_by_dpid topo did =
     (case HASH_FIND dn_dp_id (dps topo) did of
        None \<Rightarrow> None
      | Some dn \<Rightarrow> (case topology_node topo (dn_uuid dn) of Some (Dp dp) \<Rightarrow> Some dp | _ \<Rightarrow> None))"

definition topology_router_by_id :: "topology \<Rightarrow> u32 \<Rightarrow> router option" where
  "topology_router_by_id topo rid =
     (case HASH_FIND rn_router_id (routers topo) rid of
        None \<Rightarrow> None
      | Some rn \<Rightarrow> (case topology_node topo (rn_uuid rn) of Some (Rt r) \<Rightarrow> Some r | _ \<Rightarrow> None))"

definition topology_dps_num :: "topology \<Rightarrow> u32" where
  "topology_dps_num topo = n_dps topo"

definition topology_routers_num :: "topology \<Rightarrow> u32" where
  "topology_routers_num topo = n_routers topo"

definition topology_links_num :: "topology \<Rightarrow> u32" where
  "topology_links_num topo = n_links topo"

text \<open>A write through the pointer to a node.\<close>

definition put_node :: "topology \<Rightarrow> net_node \<Rightarrow> topology" where
  "put_node topo n = topo\<lparr>nodes := hash_update nuuid (nodes topo) (nuuid n) (\<lambda>_. n)\<rparr>"

subsection \<open>Topologies from a file\<close>

record link_spec =
  switchX :: u64
  switchY :: u64
  portX :: u32
  portY :: u32
  ls_delay :: u32
  ls_bw :: u32

record parsed_topology =
  pt_dps :: "u64 list"
  pt_links :: "link_spec list"

fun ptopo_dps :: "topology \<Rightarrow> u64 \<Rightarrow> u64 list \<Rightarrow> (topology \<times> u64) res" where
  "ptopo_dps topo current_uuid [] = Inr (topo, current_uuid)"
| "ptopo_dps topo current_uuid (d # ds) =
     (let (dp, current_uuid) = dp_new current_uuid d; mac = [0, 0, 0, 0, 0, 1] in
      rbind (dp_add_port dp 1 mac 1000000 1000000) (\<lambda>dp.
      rbind (dp_add_port dp 2 mac 1000000 1000000) (\<lambda>dp.
        ptopo_dps (topology_add_datapath topo dp) current_uuid ds)))"

definition ptopo_links :: "topology \<Rightarrow> link_spec list \<Rightarrow> topology" where
  "ptopo_links topo ls =
     fold (\<lambda>l t. topology_add_link t (switchX l) (switchY l) (portX l) (portY l) (ls_delay l) (ls_bw l) False) ls topo"

definition topology_from_ptopo :: "topology \<Rightarrow> u64 \<Rightarrow> parsed_topology \<Rightarrow> (topology \<times> u64) res" where
  "topology_from_ptopo topo current_uuid ptopo =
     rbind (ptopo_dps topo current_uuid (pt_dps ptopo)) (\<lambda>(topo, u). Inr (ptopo_links topo (pt_links ptopo), u))"

subsection \<open>Nodes are found where they were put\<close>

definition topo_ok :: "topology \<Rightarrow> bool" where
  "topo_ok topo \<longleftrightarrow> distinct (map nuuid (nodes topo)) \<and> distinct (map l_node1 (links topo)) \<and>
     (\<forall>l \<in> set (links topo). fst (l_node1 l) \<in> nuuid ` set (nodes topo) \<and> fst (l_node2 l) \<in> nuuid ` set (nodes topo))"

lemma topology_node_uuid: "topology_node topo u = Some n \<Longrightarrow> nuuid n = u \<and> n \<in> set (nodes topo)"
  using HASH_FIND_SomeD [of nuuid "nodes topo" u n] by (simp add: topology_node_def)

lemma topology_node_put:
  "topology_node (put_node topo n) u =
     (if u = nuuid n then map_option (\<lambda>_. n) (topology_node topo u) else topology_node topo u)"
  by (simp add: topology_node_def put_node_def HASH_FIND_hash_update)

lemma topology_next_hop_put [simp]: "topology_next_hop (put_node topo n) u p = topology_next_hop topo u p"
  by (simp add: topology_next_hop_def put_node_def)

lemma nuuid_set_node_of [simp]: "nuuid (set_node_of n nn) = uuid n" "node_of (set_node_of n nn) = n"
  by (cases nn; simp add: nuuid_def)+

lemma map_nuuid_put: "topology_node topo (nuuid n) \<noteq> None \<Longrightarrow> map nuuid (nodes (put_node topo n)) = map nuuid (nodes topo)"
proof -
  have "map nuuid (update_first (\<lambda>e. nuuid e = nuuid n) (\<lambda>_. n) xs) = map nuuid xs" for xs
    by (induction xs) auto
  then show ?thesis
    by (simp add: put_node_def hash_update_def flip: rev_map)
qed

lemma topo_ok_put: "topo_ok topo \<Longrightarrow> topology_node topo (nuuid n) \<noteq> None \<Longrightarrow> topo_ok (put_node topo n)"
proof -
  assume topo: "topo_ok topo" and n: "topology_node topo (nuuid n) \<noteq> None"
  have "nuuid ` set (nodes (put_node topo n)) = nuuid ` set (nodes topo)"
    using map_nuuid_put [OF n] by (metis list.set_map)
  then show ?thesis
    using topo map_nuuid_put [OF n] by (simp add: topo_ok_def put_node_def)
qed

subsection \<open>Well-formed networks\<close>

text \<open>A link can be followed back: what leaves one end arrives at the other, and conversely.\<close>

definition links_symmetric :: "topology \<Rightarrow> bool" where
  "links_symmetric topo \<longleftrightarrow>
     (\<forall>u p v q lat. topology_next_hop topo u p = Some (v, q, lat) \<longrightarrow> topology_next_hop topo v q = Some (u, p, lat))"

text \<open>The networks that are built as the tools do: every node is added once, and every link takes
  two ports that are free.\<close>

inductive topo_built :: "topology \<Rightarrow> bool" where
  built_new: "topo_built topology_new"
| built_router: "topo_built topo \<Longrightarrow> topology_node topo (router_uuid r) = None \<Longrightarrow> topo_built (topology_add_router topo r)"
| built_datapath: "topo_built topo \<Longrightarrow> topology_node topo (dp_uuid dp) = None \<Longrightarrow> topo_built (topology_add_datapath topo dp)"
| built_host: "topo_built topo \<Longrightarrow> topology_node topo (host_uuid h) = None \<Longrightarrow> topo_built (topology_add_host topo h)"
| built_link: "topo_built topo \<Longrightarrow> topology_next_hop topo u p = None \<Longrightarrow> topology_next_hop topo v q = None \<Longrightarrow>
    (u, p) \<noteq> (v, q) \<Longrightarrow> topo_built (topology_add_link topo u v p q bw lat False)"

lemma topology_node_None: "topology_node topo u = None \<longleftrightarrow> u \<notin> nuuid ` set (nodes topo)"
  by (auto simp: topology_node_def HASH_FIND_None)

lemma next_hop_None: "topology_next_hop topo u p = None \<longleftrightarrow> (u, p) \<notin> l_node1 ` set (links topo)"
proof -
  have "topology_next_hop topo u p = None \<longleftrightarrow> HASH_FIND l_node1 (links topo) (u, p) = None"
    by (simp add: topology_next_hop_def split: option.splits)
  then show ?thesis
    using HASH_FIND_None [of l_node1 "links topo" "(u, p)"] by simp
qed

lemma topo_ok_add_node:
  assumes "topo_ok topo" "nodes topo' = HASH_ADD (nodes topo) n" "links topo' = links topo"
    and "topology_node topo (nuuid n) = None"
  shows "topo_ok topo'"
  using assms by (auto simp: topo_ok_def HASH_ADD_def topology_node_None)

text \<open>What an undirected link changes: nothing if a node is missing, and otherwise the two
  directions and the counter.\<close>

lemma topology_add_link_missing:
  "topology_node topo u = None \<or> topology_node topo v = None \<Longrightarrow> topology_add_link topo u v p q bw lat False = topo"
  by (auto simp: topology_add_link_def add_directed_def split: option.splits)

lemma topology_add_link_eq:
  assumes "topology_node topo u \<noteq> None" "topology_node topo v \<noteq> None"
  shows "topology_add_link topo u v p q bw lat False = topo\<lparr>links := links topo @
        [\<lparr>l_node1 = (u, p), l_node2 = (v, q), l_latency = lat, l_bandwidth = bw\<rparr>,
         \<lparr>l_node1 = (v, q), l_node2 = (u, p), l_latency = lat, l_bandwidth = bw\<rparr>], n_links := n_links topo + 1\<rparr>"
proof -
  obtain a b where ab: "topology_node topo u = Some a" "topology_node topo v = Some b"
    using assms by auto
  moreover have "nuuid a = u" "nuuid b = v"
    using ab by (auto dest: topology_node_uuid)
  moreover have "topology_node (topo\<lparr>links := ls\<rparr>) w = topology_node topo w" for ls w
    by (simp add: topology_node_def)
  ultimately show ?thesis
    by (simp add: topology_add_link_def add_directed_def HASH_ADD_def)
qed

lemma next_hop_add_link:
  assumes "topology_node topo u \<noteq> None" "topology_node topo v \<noteq> None" "(u, p) \<noteq> (v, q)"
  shows "topology_next_hop (topology_add_link topo u v p q bw lat False) w r =
    (if (w, r) = (v, q) then Some (u, p, lat)
     else if (w, r) = (u, p) then Some (v, q, lat) else topology_next_hop topo w r)"
proof -
  define x y where "x = (u, p)" and "y = (v, q)"
  have "find (\<lambda>e. l_node1 e = z) (rev (links topo @
        [\<lparr>l_node1 = x, l_node2 = y, l_latency = lat, l_bandwidth = bw\<rparr>, \<lparr>l_node1 = y, l_node2 = x, l_latency = lat, l_bandwidth = bw\<rparr>])) =
      (if z = y then Some \<lparr>l_node1 = y, l_node2 = x, l_latency = lat, l_bandwidth = bw\<rparr>
       else if z = x then Some \<lparr>l_node1 = x, l_node2 = y, l_latency = lat, l_bandwidth = bw\<rparr> else find (\<lambda>e. l_node1 e = z) (rev (links topo)))" for z
    by simp
  then show ?thesis
    unfolding topology_add_link_eq [OF assms(1,2)] topology_next_hop_def HASH_FIND_def x_def y_def by simp
qed

lemma topo_ok_add_link:
  assumes "topo_ok topo" "topology_next_hop topo u p = None" "topology_next_hop topo v q = None" "(u, p) \<noteq> (v, q)"
  shows "topo_ok (topology_add_link topo u v p q bw lat False)"
proof (cases "topology_node topo u = None \<or> topology_node topo v = None")
  case False
  then show ?thesis
    using assms topology_add_link_eq [of topo u v p q bw lat]
    by (auto simp: topo_ok_def next_hop_None topology_node_None)
qed (simp add: assms(1) topology_add_link_missing)

lemma links_symmetric_add_link:
  assumes "links_symmetric topo" "topology_next_hop topo u p = None" "topology_next_hop topo v q = None" "(u, p) \<noteq> (v, q)"
  shows "links_symmetric (topology_add_link topo u v p q bw lat False)"
proof (cases "topology_node topo u = None \<or> topology_node topo v = None")
  case True
  then show ?thesis
    using assms(1) by (simp add: topology_add_link_missing)
next
  case False
  then have hop: "topology_next_hop (topology_add_link topo u v p q bw lat False) w r =
      (if (w, r) = (v, q) then Some (u, p, lat) else if (w, r) = (u, p) then Some (v, q, lat) else topology_next_hop topo w r)" for w r
    using next_hop_add_link [OF _ _ assms(4)] by blast
  have old: "topology_next_hop topo w' r' = Some (w, r, l) \<and> (w', r') \<noteq> (u, p) \<and> (w', r') \<noteq> (v, q)"
    if "topology_next_hop topo w r = Some (w', r', l)" for w r w' r' l
  proof -
    have "topology_next_hop topo w' r' = Some (w, r, l)"
      using that assms(1) unfolding links_symmetric_def by blast
    then show ?thesis
      using assms(2,3) by (metis option.distinct(1) prod.inject)
  qed
  show ?thesis
    unfolding links_symmetric_def
  proof (intro allI impI)
    fix w r w' r' l
    assume step: "topology_next_hop (topology_add_link topo u v p q bw lat False) w r = Some (w', r', l)"
    consider "(w, r) = (v, q)" | "(w, r) = (u, p)" | "(w, r) \<noteq> (v, q)" "(w, r) \<noteq> (u, p)"
      by blast
    then show "topology_next_hop (topology_add_link topo u v p q bw lat False) w' r' = Some (w, r, l)"
    proof cases
      case 3
      then have "topology_next_hop topo w r = Some (w', r', l)"
        using step hop [of w r] by (simp only: if_False not_False_eq_True simp_thms)
      then show ?thesis
        using hop [of w' r'] old [of w r w' r' l] by (simp only: if_False not_False_eq_True simp_thms)
    qed (use step hop [of w r] hop [of w' r'] assms(4) in auto)
  qed
qed

lemma built_links_symmetric_fields:
  "links_symmetric (topology_add_router topo r) = links_symmetric topo"
  "links_symmetric (topology_add_datapath topo dp) = links_symmetric topo"
  "links_symmetric (topology_add_host topo h) = links_symmetric topo"
  by (simp_all add: links_symmetric_def topology_next_hop_def topology_add_router_def topology_add_datapath_def
      topology_add_host_def)

lemma topo_built_ok: "topo_built topo \<Longrightarrow> topo_ok topo \<and> links_symmetric topo"
proof (induction rule: topo_built.induct)
  case built_new
  show ?case
    by (simp add: topology_new_def topology_init_def topo_ok_def links_symmetric_def topology_next_hop_def)
next
  case (built_router topo r)
  then show ?case
    unfolding built_links_symmetric_fields
    by (auto intro: topo_ok_add_node [where n = "Rt r"] simp: topology_add_router_def nuuid_def router_uuid_def)
next
  case (built_datapath topo dp)
  then show ?case
    unfolding built_links_symmetric_fields
    by (auto intro: topo_ok_add_node [where n = "Dp dp"] simp: topology_add_datapath_def nuuid_def dp_uuid_def)
next
  case (built_host topo h)
  then show ?case
    unfolding built_links_symmetric_fields
    by (auto intro: topo_ok_add_node [where n = "Ht h"] simp: topology_add_host_def nuuid_def host_uuid_def)
qed (simp add: topo_ok_add_link links_symmetric_add_link)


definition example_topology :: topology where
  "example_topology =
     topology_add_link (topology_add_host (topology_add_host topology_new (fst (host_new 0))) (fst (host_new 1))) 1 2 1 2 100 5 False"

lemma host_new_uuid: "host_uuid (fst (host_new u)) = u + 1" "nuuid (Ht (fst (host_new u))) = u + 1"
  by (simp_all add: host_new_def legacy_node_init_def node_init_def host_uuid_def nuuid_def Let_def)

lemma example_built: "topo_built example_topology" "topology_next_hop example_topology 1 1 = Some (2, 2, 5)"
proof -
  let ?t = "topology_add_host (topology_add_host topology_new (fst (host_new 0))) (fst (host_new 1))"
  note simps = topology_node_def topology_next_hop_def topology_new_def topology_init_def topology_add_host_def host_new_uuid
  have "topo_built (topology_add_host topology_new (fst (host_new 0)))"
    by (intro topo_built.intros) (simp add: simps)
  then have "topo_built ?t"
    by (rule built_host) (simp add: simps)
  then show "topo_built example_topology"
    unfolding example_topology_def by (rule built_link) (simp_all add: simps)
  show "topology_next_hop example_topology 1 1 = Some (2, 2, 5)"
    unfolding example_topology_def by (subst next_hop_add_link) (simp_all add: simps)
qed


end
