(* ===== verification/Json_Topology.thy ===== *)
theory Json_Topology
  imports Topology
begin

section \<open>Networks from a file (lib/json\_topology)\<close>

text \<open>
  The reader of network descriptions walks the tree that the bundled JSON library builds from the
  text; the library's parser is a parameter, from the text to the tree or nothing.  The reader never
  looks at the kind of a value: a number and a string have one layout, the constants have no payload,
  and reading any other payload as something else is out of bounds.  Errors of the input are printed
  and end the program; what is printed is left out.
\<close>

subsection \<open>Numbers\<close>

definition hex_value :: "char \<Rightarrow> nat option" where
  "hex_value c =
     (let n = of_char c :: nat in
      if 48 \<le> n \<and> n \<le> 57 then Some (n - 48)
      else if 65 \<le> n \<and> n \<le> 70 then Some (n - 55)
      else if 97 \<le> n \<and> n \<le> 102 then Some (n - 87) else None)"

definition is_space :: "char \<Rightarrow> bool" where
  "is_space c = (let n = of_char c :: nat in n = 32 \<or> 9 \<le> n \<and> n \<le> 13)"

fun hex_run :: "nat \<Rightarrow> string \<Rightarrow> nat \<times> string" where
  "hex_run acc [] = (acc, [])"
| "hex_run acc (c # cs) = (case hex_value c of None \<Rightarrow> (acc, c # cs) | Some d \<Rightarrow> hex_run (16 * acc + d) cs)"

definition starts_hex :: "string \<Rightarrow> bool" where
  "starts_hex s = (case s of [] \<Rightarrow> False | c # _ \<Rightarrow> hex_value c \<noteq> None)"

text \<open>\<open>strtoull\<close> with base 16: white space, a sign, the prefix if a digit follows it, and digits.  The
  result is the sign, the value without bound and the text that is left, or nothing without
  digits.\<close>

definition strtoull16 :: "string \<Rightarrow> (bool \<times> nat \<times> string) option" where
  "strtoull16 text =
     (let s = dropWhile is_space text;
          neg = (take 1 s = ''-'');
          s = (if take 1 s \<in> {''-'', ''+''} then drop 1 s else s);
          s = (if take 2 s \<in> {''0x'', ''0X''} \<and> starts_hex (drop 2 s) then drop 2 s else s) in
      if starts_hex s then let (v, rest) = hex_run 0 s in Some (neg, v, rest) else None)"

definition parse_number :: "string \<Rightarrow> u64 \<Rightarrow> u64 res" where
  "parse_number text maximum =
     (case strtoull16 text of
        None \<Rightarrow> Inl Exit_Failure
      | Some (neg, v, rest) \<Rightarrow>
          let value = (if neg then - of_nat v else of_nat v) in
          if v \<ge> 2 ^ 64 \<or> rest \<noteq> [] \<or> take 1 text = ''-'' \<or> value > maximum then Inl Exit_Failure
          else Inr value)"

subsection \<open>Searching and sorting\<close>

definition cmpfunc :: "u64 \<Rightarrow> u64 \<Rightarrow> int" where
  "cmpfunc a b = of_bool (a > b) - of_bool (a < b)"

text \<open>\<open>qsort\<close> and \<open>bsearch\<close> of the C library, with the comparison they are given.\<close>

fun insert_by :: "('a \<Rightarrow> 'a \<Rightarrow> int) \<Rightarrow> 'a \<Rightarrow> 'a list \<Rightarrow> 'a list" where
  "insert_by cmp x [] = [x]"
| "insert_by cmp x (y # ys) = (if cmp x y \<le> 0 then x # y # ys else y # insert_by cmp x ys)"

definition qsort_by :: "('a \<Rightarrow> 'a \<Rightarrow> int) \<Rightarrow> 'a list \<Rightarrow> 'a list" where
  "qsort_by cmp xs = foldr (insert_by cmp) xs []"

function bsearch :: "('a \<Rightarrow> 'a \<Rightarrow> int) \<Rightarrow> 'a \<Rightarrow> 'a list \<Rightarrow> nat \<Rightarrow> nat \<Rightarrow> nat option" where
  "bsearch cmp k xs l u =
     (if l < u then
        let i = (l + u) div 2; c = cmp k (xs ! i) in
        if c < 0 then bsearch cmp k xs l i
        else if c > 0 then bsearch cmp k xs (i + 1) u
        else Some i
      else None)"
  by pat_completeness auto
termination
  by (relation "measure (\<lambda>(cmp, k, xs, l, u). u - l)") auto

declare bsearch.simps [simp del]

subsection \<open>The description\<close>

datatype json_value =
    J_Object "(string \<times> json_value) list"
  | J_Array "json_value list"
  | J_Number string
  | J_String string
  | J_True | J_False | J_Null

definition as_object :: "json_value \<Rightarrow> (string \<times> json_value) list res" where
  "as_object v = (case v of J_Object es \<Rightarrow> Inr es | J_Array _ \<Rightarrow> Inl Out_Of_Bounds | J_Number _ \<Rightarrow> Inl Out_Of_Bounds
     | J_String _ \<Rightarrow> Inl Out_Of_Bounds | _ \<Rightarrow> Inl Null_Deref)"

definition as_array :: "json_value \<Rightarrow> json_value list res" where
  "as_array v = (case v of J_Array vs \<Rightarrow> Inr vs | J_Object _ \<Rightarrow> Inl Out_Of_Bounds | J_Number _ \<Rightarrow> Inl Out_Of_Bounds
     | J_String _ \<Rightarrow> Inl Out_Of_Bounds | _ \<Rightarrow> Inl Null_Deref)"

definition as_number :: "json_value \<Rightarrow> string res" where
  "as_number v = (case v of J_Number t \<Rightarrow> Inr t | J_String t \<Rightarrow> Inr t | J_Object _ \<Rightarrow> Inl Out_Of_Bounds
     | J_Array _ \<Rightarrow> Inl Out_Of_Bounds | _ \<Rightarrow> Inl Null_Deref)"

definition DP_LIMIT :: nat where "DP_LIMIT = 65535"
definition LINK_LIMIT :: nat where "LINK_LIMIT = 10000"

abbreviation UINT64_MAX :: u64 where "UINT64_MAX \<equiv> - 1"
abbreviation UINT32_MAX :: u64 where "UINT32_MAX \<equiv> 4294967295"

definition validate_keyword :: "string \<Rightarrow> string \<Rightarrow> unit res" where
  "validate_keyword expected_key kw = (if expected_key \<noteq> kw then Inl Exit_Failure else Inr ())"

definition validate_link_dp :: "u64 \<Rightarrow> u64 list \<Rightarrow> int" where
  "validate_link_dp dpid ds = (case bsearch cmpfunc dpid ds 0 (length ds) of None \<Rightarrow> - 1 | Some _ \<Rightarrow> 0)"

text \<open>The numbers of the switches are written into an array of fixed size.\<close>

fun parse_dps :: "nat \<Rightarrow> json_value list \<Rightarrow> u64 list res" where
  "parse_dps i [] = Inr []"
| "parse_dps i (v # vs) =
     rbind (as_number v) (\<lambda>text.
     rbind (parse_number text UINT64_MAX) (\<lambda>dpid.
     if i < DP_LIMIT then rbind (parse_dps (i + 1) vs) (\<lambda>ds. Inr (dpid # ds)) else Inl Out_Of_Bounds))"

text \<open>One member of a link: its name, its number, and the members that follow.\<close>

definition link_field :: "(string \<times> json_value) list \<Rightarrow> string \<Rightarrow> u64 \<Rightarrow> (u64 \<times> (string \<times> json_value) list) res" where
  "link_field es kw maximum =
     (case es of
        [] \<Rightarrow> Inl Null_Deref
      | (name, v) # rest \<Rightarrow>
          rbind (validate_keyword kw name) (\<lambda>_.
          rbind (as_number v) (\<lambda>text.
          rbind (parse_number text maximum) (\<lambda>n. Inr (n, rest)))))"

definition parse_link :: "u64 list \<Rightarrow> nat \<Rightarrow> json_value \<Rightarrow> link_spec res" where
  "parse_link ds i v =
     rbind (as_object v) (\<lambda>es.
     rbind (link_field es ''switchX'' UINT64_MAX) (\<lambda>(x, es).
     if \<not> i < LINK_LIMIT then Inl Out_Of_Bounds
     else if validate_link_dp x ds < 0 then Inl Exit_Failure
     else rbind (link_field es ''switchY'' UINT64_MAX) (\<lambda>(y, es).
     if validate_link_dp y ds < 0 then Inl Exit_Failure
     else rbind (link_field es ''portX'' UINT32_MAX) (\<lambda>(px, es).
     rbind (link_field es ''portY'' UINT32_MAX) (\<lambda>(py, es).
     rbind (link_field es ''delay'' UINT32_MAX) (\<lambda>(d, es).
     rbind (link_field es ''bw'' UINT32_MAX) (\<lambda>(b, es).
       Inr \<lparr>switchX = x, switchY = y, portX = ucast px, portY = ucast py, ls_delay = ucast d, ls_bw = ucast b\<rparr>)))))))"

fun parse_links :: "u64 list \<Rightarrow> nat \<Rightarrow> json_value list \<Rightarrow> link_spec list res" where
  "parse_links ds i [] = Inr []"
| "parse_links ds i (v # vs) =
     rbind (parse_link ds i v) (\<lambda>l. rbind (parse_links ds (i + 1) vs) (\<lambda>ls. Inr (l # ls)))"

text \<open>The switches, sorted, and the links; a description without links leaves their number
  unwritten.\<close>

definition parse_topology :: "(string \<Rightarrow> json_value option) \<Rightarrow> string \<Rightarrow> (u64 list \<times> link_spec list option) res" where
  "parse_topology json_parse_ex json =
     (case json_parse_ex json of
        None \<Rightarrow> Inl Exit_Failure
      | Some root \<Rightarrow>
          rbind (as_object root) (\<lambda>es.
          case es of
            [] \<Rightarrow> Inl Null_Deref
          | (name, v) # rest \<Rightarrow>
              rbind (validate_keyword ''dps'' name) (\<lambda>_.
              rbind (as_array v) (\<lambda>vs.
              rbind (parse_dps 0 vs) (\<lambda>ds.
              let ds = qsort_by cmpfunc ds in
              case rest of
                [] \<Rightarrow> Inr (ds, None)
              | (name, v) # _ \<Rightarrow>
                  rbind (validate_keyword ''links'' name) (\<lambda>_.
                  rbind (as_array v) (\<lambda>vs.
                  rbind (parse_links ds 0 vs) (\<lambda>ls. Inr (ds, Some ls)))))))))"

text \<open>The description is read into a variable that was not initialised.  \<open>file\<close> is the text of the
  file if it could be read; the second argument is the last identifier given to a node.\<close>

definition from_json :: "(string \<Rightarrow> json_value option) \<Rightarrow> u64 \<Rightarrow> string option \<Rightarrow> (topology \<times> u64) res" where
  "from_json json_parse_ex current_uuid file =
     (case file of
        None \<Rightarrow> Inr (topology_new, current_uuid)
      | Some json \<Rightarrow>
          rbind (parse_topology json_parse_ex json) (\<lambda>(ds, lks).
          case lks of
            Some ls \<Rightarrow> topology_from_ptopo topology_new current_uuid \<lparr>pt_dps = ds, pt_links = ls\<rparr>
          | None \<Rightarrow> rbind (ptopo_dps topology_new current_uuid ds) (\<lambda>_. Inl Uninitialised)))"

subsection \<open>Searching and sorting are right\<close>

lemma cmpfunc_sign [simp]: "cmpfunc a b < 0 \<longleftrightarrow> a < b" "0 < cmpfunc a b \<longleftrightarrow> b < a" "cmpfunc a b \<le> 0 \<longleftrightarrow> a \<le> b"
  by (auto simp: cmpfunc_def)

lemma qsort_sort: "qsort_by cmpfunc xs = sort xs"
proof -
  have "insert_by cmpfunc x ys = insort x ys" for x ys
    by (induction ys) auto
  then have "foldr (insert_by cmpfunc) xs [] = foldr insort xs []"
    by presburger
  then show ?thesis
    by (simp add: qsort_by_def sort_key_def)
qed

lemma bsearch_correct:
  assumes "sorted xs" "u \<le> length xs"
  shows "bsearch cmpfunc k xs l u \<noteq> None \<longleftrightarrow> (\<exists>j. l \<le> j \<and> j < u \<and> xs ! j = k)"
  using assms(2)
proof (induction "u - l" arbitrary: l u rule: less_induct)
  case less
  show ?case
  proof (cases "l < u")
    case True
    define i where "i = (l + u) div 2"
    have i: "l \<le> i" "i < u"
      using True by (auto simp: i_def)
    have mono: "xs ! a \<le> xs ! b" if "a \<le> b" "b < u" for a b
      using assms(1) that less.prems by (simp add: sorted_nth_mono)
    consider "k < xs ! i" | "xs ! i < k" | "k = xs ! i"
      by fastforce
    then show ?thesis
    proof cases
      case 1
      then have "bsearch cmpfunc k xs l u \<noteq> None \<longleftrightarrow> (\<exists>j. l \<le> j \<and> j < i \<and> xs ! j = k)"
        using less.hyps [of i l] i less.prems True by (subst bsearch.simps) (simp add: i_def [symmetric] Let_def)
      moreover have "xs ! j \<noteq> k" if "i \<le> j" "j < u" for j
        using mono [of i j] that 1 by auto
      ultimately show ?thesis
        using i by (metis le_less_trans less_imp_le not_le_imp_less order_less_trans)
    next
      case 2
      then have "bsearch cmpfunc k xs l u \<noteq> None \<longleftrightarrow> (\<exists>j. i + 1 \<le> j \<and> j < u \<and> xs ! j = k)"
        using less.hyps [of u "i + 1"] i less.prems True less_not_sym [OF 2] by (subst bsearch.simps) (simp add: i_def [symmetric] Let_def)
      moreover have "xs ! j \<noteq> k" if "j \<le> i" for j
        using mono [of j i] that i(2) 2 by auto
      ultimately show ?thesis
        using i by (metis Suc_eq_plus1 Suc_leD le_trans not_less_eq_eq)
    next
      case 3
      then have "bsearch cmpfunc k xs l u = Some i"
        using True by (subst bsearch.simps) (simp add: i_def [symmetric] Let_def)
      then show ?thesis
        using i 3 by auto
    qed
  qed (subst bsearch.simps, auto)
qed

lemma validate_link_dp_correct: "sorted ds \<Longrightarrow> validate_link_dp x ds < 0 \<longleftrightarrow> x \<notin> set ds"
  using bsearch_correct [of ds "length ds" x 0] by (auto simp: validate_link_dp_def in_set_conv_nth split: option.splits)

subsection \<open>What is accepted\<close>

lemma parse_dps_length: "parse_dps i vs = Inr ds \<Longrightarrow> i \<le> DP_LIMIT \<Longrightarrow> i + length ds \<le> DP_LIMIT \<and> length ds = length vs"
  by (induction vs arbitrary: i ds) (auto split: if_splits, fastforce+)

lemma parse_link_valid:
  assumes "parse_link ds i v = Inr l" "sorted ds"
  shows "i < LINK_LIMIT \<and> switchX l \<in> set ds \<and> switchY l \<in> set ds"
  using assms by (auto simp: parse_link_def validate_link_dp_correct split: if_splits)

lemma parse_links_valid:
  assumes "parse_links ds i vs = Inr ls" "sorted ds" "i \<le> LINK_LIMIT"
  shows "i + length ls \<le> LINK_LIMIT \<and> (\<forall>l \<in> set ls. switchX l \<in> set ds \<and> switchY l \<in> set ds)"
  using assms(1,3)
proof (induction vs arbitrary: i ls)
  case (Cons v vs)
  then obtain l ls' where l: "parse_link ds i v = Inr l" "parse_links ds (i + 1) vs = Inr ls'" "ls = l # ls'"
    by auto
  then show ?case
    using parse_link_valid [OF l(1) assms(2)] Cons.IH [OF l(2)] by auto
qed simp

text \<open>Every description that is accepted is valid: the switches are in increasing order, both ends of
  every link are switches of the description, and the numbers of switches and links are within the
  arrays.\<close>

theorem accepted_description_valid:
  assumes "parse_topology json_parse_ex json = Inr (ds, lks)"
  shows "sorted ds \<and> length ds \<le> DP_LIMIT \<and>
    (\<forall>ls. lks = Some ls \<longrightarrow> length ls \<le> LINK_LIMIT \<and> (\<forall>l \<in> set ls. switchX l \<in> set ds \<and> switchY l \<in> set ds))"
proof -
  obtain root es where r: "json_parse_ex json = Some root" "as_object root = Inr es"
    using assms by (auto simp: parse_topology_def split: option.splits)
  moreover obtain name v rest where es: "es = (name, v) # rest"
    using assms r by (cases es) (auto simp: parse_topology_def)
  ultimately obtain vs ds' where ds: "parse_dps 0 vs = Inr ds'" "ds = sort ds'"
    and ls: "\<forall>ls. lks = Some ls \<longrightarrow> (\<exists>vs. parse_links ds 0 vs = Inr ls)"
    using assms by (cases rest) (auto simp: parse_topology_def Let_def qsort_sort, blast)
  then show ?thesis
    using parse_dps_length [OF ds(1)] parse_links_valid [of ds 0] by fastforce
qed

subsection \<open>Reading what was written\<close>

definition hex_char :: "nat \<Rightarrow> char" where
  "hex_char d = (if d < 10 then char_of (48 + d) else char_of (87 + d))"

fun hex_digits :: "nat \<Rightarrow> string" where
  "hex_digits n = (if n < 16 then [hex_char n] else hex_digits (n div 16) @ [hex_char (n mod 16)])"

declare hex_digits.simps [simp del]

lemma hex_value_char: "d < 16 \<Longrightarrow> hex_value (hex_char d) = Some d"
  by (auto simp: hex_value_def hex_char_def Let_def of_char_of take_bit_nat_def)

lemma hex_run_append: "hex_run acc (xs @ [hex_char d]) = hex_run (fst (hex_run acc xs)) [hex_char d]" if "snd (hex_run acc xs) = []"
  using that by (induction xs arbitrary: acc) (auto split: option.splits)

lemma hex_run_digits: "hex_run 0 (hex_digits n) = (n, [])"
proof (induction n rule: hex_digits.induct)
  case (1 n)
  show ?case
  proof (cases "n < 16")
    case True
    then show ?thesis
      by (simp add: hex_digits.simps [of n] hex_value_char)
  next
    case False
    then show ?thesis
      using 1 hex_run_append [of 0 "hex_digits (n div 16)" "n mod 16"]
      by (simp add: hex_digits.simps [of n] hex_value_char)
  qed
qed

lemma hex_digits_hex: "c \<in> set (hex_digits n) \<Longrightarrow> hex_value c \<noteq> None"
  by (induction n rule: hex_digits.induct)
    (subst (asm) (2) hex_digits.simps, auto simp: hex_value_char split: if_splits)

lemma hex_digits_nonempty [simp]: "hex_digits n \<noteq> []"
  by (simp add: hex_digits.simps [of n])

lemma hex_not_other: "hex_value c \<noteq> None \<Longrightarrow> \<not> is_space c \<and> c \<noteq> CHR ''-'' \<and> c \<noteq> CHR ''+'' \<and> c \<noteq> CHR ''x'' \<and> c \<noteq> CHR ''X''"
  by (auto simp: hex_value_def is_space_def Let_def split: if_splits)

lemma parse_number_hex: "n \<le> maximum \<Longrightarrow> parse_number (hex_digits (unat n)) maximum = Inr n"
proof -
  assume n: "n \<le> maximum"
  obtain c cs where h: "hex_digits (unat n) = c # cs"
    using hex_digits_nonempty by (meson neq_Nil_conv)
  have c: "hex_value c \<noteq> None" and cs: "\<And>d. d \<in> set cs \<Longrightarrow> hex_value d \<noteq> None"
    using hex_digits_hex [of _ "unat n"] h by auto
  have "take 2 (c # cs) \<notin> {''0x'', ''0X''}"
    using cs hex_not_other by (cases cs) (auto simp: numeral_2_eq_2)
  then have "strtoull16 (c # cs) = Some (False, unat n, [])"
    using hex_not_other [OF c] c hex_run_digits [of "unat n"] by (auto simp: strtoull16_def Let_def starts_hex_def h)
  then show ?thesis
    using n hex_not_other [OF c] unsigned_less [of n, where ?'a = nat] by (simp add: parse_number_def h)
qed

definition json_num :: "u64 \<Rightarrow> json_value" where
  "json_num n = J_Number (hex_digits (unat n))"

definition json_of_link :: "link_spec \<Rightarrow> json_value" where
  "json_of_link l = J_Object
     [(''switchX'', json_num (switchX l)), (''switchY'', json_num (switchY l)), (''portX'', json_num (ucast (portX l))),
      (''portY'', json_num (ucast (portY l))), (''delay'', json_num (ucast (ls_delay l))), (''bw'', json_num (ucast (ls_bw l)))]"

definition json_of_topology :: "u64 list \<Rightarrow> link_spec list \<Rightarrow> json_value" where
  "json_of_topology ds ls = J_Object [(''dps'', J_Array (map json_num ds)), (''links'', J_Array (map json_of_link ls))]"

lemma link_field_num: "n \<le> maximum \<Longrightarrow> link_field ((k, json_num n) # es) k maximum = Inr (n, es)"
  by (simp add: link_field_def validate_keyword_def json_num_def as_number_def parse_number_hex)

lemma ucast_u32_max: "(ucast (x :: u32) :: u64) \<le> UINT32_MAX"
proof -
  have "unat (ucast x :: u64) = unat x"
    using unsigned_less [of x, where ?'a = nat] by (simp add: unsigned_ucast_eq take_bit_nat_eq_self)
  then show ?thesis
    using unsigned_less [of x, where ?'a = nat] by (simp add: word_le_nat_alt)
qed

lemma ucast_u32_back: "ucast (ucast (x :: u32) :: u64) = x"
  by (rule bit_word_eqI) (simp add: bit_simps)

lemma parse_dps_num: "i + length ds \<le> DP_LIMIT \<Longrightarrow> parse_dps i (map json_num ds) = Inr ds"
  by (induction ds arbitrary: i) (simp_all add: json_num_def as_number_def parse_number_hex)

lemma parse_link_num:
  assumes "i < LINK_LIMIT" "sorted ds" "switchX l \<in> set ds" "switchY l \<in> set ds"
  shows "parse_link ds i (json_of_link l) = Inr l"
  using assms
  by (simp add: parse_link_def json_of_link_def as_object_def link_field_num ucast_u32_max validate_link_dp_correct ucast_u32_back)

lemma parse_links_num:
  assumes "i + length ls \<le> LINK_LIMIT" "sorted ds" "\<forall>l \<in> set ls. switchX l \<in> set ds \<and> switchY l \<in> set ds"
  shows "parse_links ds i (map json_of_link ls) = Inr ls"
  using assms by (induction ls arbitrary: i) (simp_all add: parse_link_num)

lemma parse_written:
  assumes "json_parse_ex json = Some (json_of_topology ds ls)" "length ds \<le> DP_LIMIT" "length ls \<le> LINK_LIMIT"
    and "\<forall>l \<in> set ls. switchX l \<in> set ds \<and> switchY l \<in> set ds"
  shows "parse_topology json_parse_ex json = Inr (sort ds, Some ls)"
  using assms
  by (simp add: parse_topology_def json_of_topology_def as_object_def as_array_def validate_keyword_def Let_def
      parse_dps_num qsort_sort parse_links_num)

subsection \<open>The network that is built\<close>

lemma port_name_short: "pid < 10 \<Longrightarrow> length (port_name [] pid) + 1 \<le> MAX_NODE_NAME + 16"
  by (simp add: port_name_def MAX_NODE_NAME_def dec_digits.simps [of "unat pid"] word_less_nat_alt)

text \<open>The switches are numbered in the order in which they are created.\<close>

lemma ptopo_dps_nodes:
  "\<exists>t'. ptopo_dps t u ds = Inr (t', u + of_nat (length ds)) \<and> links t' = links t \<and>
     map nuuid (nodes t') = map nuuid (nodes t) @ map (\<lambda>k. u + 1 + of_nat k) [0..<length ds]"
proof (induction ds arbitrary: t u)
  case (Cons d ds)
  have add: "\<exists>b. dp_add_port dp pid mac s c = Inr (dp\<lparr>dp_base := b\<rparr>) \<and> node_name b = [] \<and> uuid b = uuid (dp_base dp)"
    if dp: "node_name (dp_base dp) = []" "pid < 10" for dp pid mac s c
  proof -
    obtain b where "node_add_port (dp_base dp) pid mac s c = Inr b" "node_name b = []" "uuid b = uuid (dp_base dp)"
      using port_name_short [OF dp(2)] dp(1) by (simp add: node_add_port_def Let_def)
    then show ?thesis
      by (auto simp: dp_add_port_def)
  qed
  obtain dp where dp: "dp_new u d = (dp, u + 1)" "node_name (dp_base dp) = []" "uuid (dp_base dp) = u + 1"
    by (simp add: dp_new_def node_init_def Let_def)
  obtain b1 where b1: "dp_add_port dp 1 [0, 0, 0, 0, 0, 1] 1000000 1000000 = Inr (dp\<lparr>dp_base := b1\<rparr>)" "node_name b1 = []" "uuid b1 = u + 1"
    using add [OF dp(2), of 1 "[0, 0, 0, 0, 0, 1]" 1000000 1000000] dp(3) by auto
  obtain b2 where b2: "dp_add_port (dp\<lparr>dp_base := b1\<rparr>) 2 [0, 0, 0, 0, 0, 1] 1000000 1000000 = Inr (dp\<lparr>dp_base := b2\<rparr>)" "uuid b2 = u + 1"
    using add [of "dp\<lparr>dp_base := b1\<rparr>" 2 "[0, 0, 0, 0, 0, 1]" 1000000 1000000] b1 by auto
  let ?t = "topology_add_datapath t (dp\<lparr>dp_base := b2\<rparr>)"
  have t: "links ?t = links t" "map nuuid (nodes ?t) = map nuuid (nodes t) @ [u + 1]"
    using b2(2) by (simp_all add: topology_add_datapath_def nuuid_def HASH_ADD_def)
  have "[u + 1] @ map (\<lambda>k. u + 1 + 1 + of_nat k) [0..<length ds] = map (\<lambda>k. u + 1 + of_nat k) [0..<length (d # ds)]"
    by (simp add: map_upt_Suc add.assoc del: upt_Suc)
  then show ?case
    using Cons.IH [of ?t "u + 1"] t dp(1) b1(1) b2(1) by (auto simp: add.assoc)
qed simp

text \<open>What a link of the file becomes, given the identifiers of the nodes.\<close>

definition file_link :: "u64 set \<Rightarrow> link_spec \<Rightarrow> link list" where
  "file_link ids l =
     (if switchX l \<in> ids \<and> switchY l \<in> ids
      then [\<lparr>l_node1 = (switchX l, portX l), l_node2 = (switchY l, portY l), l_latency = ls_bw l, l_bandwidth = ls_delay l\<rparr>,
            \<lparr>l_node1 = (switchY l, portY l), l_node2 = (switchX l, portX l), l_latency = ls_bw l, l_bandwidth = ls_delay l\<rparr>]
      else [])"

lemma add_link_nodes: "nodes (topology_add_link t u v p q b d False) = nodes t"
  by (auto simp: topology_add_link_def add_directed_def split: option.splits)

lemma ptopo_links_exact: "links (ptopo_links t ls) = links t @ concat (map (file_link (nuuid ` set (nodes t))) ls)"
proof (induction ls arbitrary: t)
  case (Cons l ls)
  have "links (topology_add_link t (switchX l) (switchY l) (portX l) (portY l) (ls_delay l) (ls_bw l) False) =
      links t @ file_link (nuuid ` set (nodes t)) l"
  proof (cases "topology_node t (switchX l) = None \<or> topology_node t (switchY l) = None")
    case True
    then show ?thesis
      using topology_node_None [of t] by (auto simp: topology_add_link_missing file_link_def)
  next
    case False
    then have "switchX l \<in> nuuid ` set (nodes t)" "switchY l \<in> nuuid ` set (nodes t)"
      using topology_node_None [of t "switchX l"] topology_node_None [of t "switchY l"] by simp_all
    then show ?thesis
      using False topology_add_link_eq [of t "switchX l" "switchY l"] by (simp add: file_link_def)
  qed
  then show ?case
    using Cons.IH by (simp add: ptopo_links_def add_link_nodes)
qed (simp add: ptopo_links_def)



text \<open>C40: A description without links is accepted, but the number of its links is never written: building
  the network from it reads an uninitialised variable.\<close>

theorem description_without_links:
  assumes "json_parse_ex json = Some (J_Object [(''dps'', J_Array (map json_num ds))])" "length ds \<le> DP_LIMIT"
  shows "parse_topology json_parse_ex json = Inr (sort ds, None) \<and> from_json json_parse_ex u (Some json) = Inl Uninitialised"
proof -
  have "parse_topology json_parse_ex json = Inr (sort ds, None)"
    using assms(1,2) by (simp add: parse_topology_def as_object_def as_array_def validate_keyword_def Let_def parse_dps_num qsort_sort)
  then show ?thesis
    using ptopo_dps_nodes [of topology_new u "sort ds"] by (auto simp: from_json_def)
qed

subsection \<open>A description of two switches\<close>

definition example_spec :: link_spec where
  "example_spec = \<lparr>switchX = 1, switchY = 2, portX = 1, portY = 2, ls_delay = 5, ls_bw = 100\<rparr>"

definition example_parser :: "string \<Rightarrow> json_value option" where
  "example_parser json = (if json = ''net'' then Some (json_of_topology [2, 1] [example_spec]) else None)"

lemma example_sorted: "sort [2, 1 :: u64] = [1, 2]"
  by code_simp

lemma example_parsed: "parse_topology example_parser ''net'' = Inr ([1, 2], Some [example_spec])"
  using parse_written [of example_parser "''net''" "[2, 1]" "[example_spec]"] example_sorted
  by (simp add: example_parser_def example_spec_def DP_LIMIT_def LINK_LIMIT_def)

theorem accepted_description_valid_witness:
  "parse_topology example_parser ''net'' = Inr ([1, 2], Some [example_spec]) \<and> switchX example_spec \<in> set [1, 2]"
  using accepted_description_valid [OF example_parsed] example_parsed by simp



theorem description_without_links_witness:
  "from_json (\<lambda>_. Some (J_Object [(''dps'', J_Array (map json_num [7]))])) 0 (Some ''{}'') = Inl Uninitialised"
  using description_without_links [of "\<lambda>_. Some (J_Object [(''dps'', J_Array (map json_num [7]))])" "''{}''" "[7]" 0]
  by (simp add: DP_LIMIT_def)

end
