(* ===== verification/Sim_Event.thy ===== *)
theory Sim_Event
  imports Prelude
begin

section \<open>Simulation events (lib/sim\_event)\<close>

text \<open>
  The events of \<open>lib/sim_event.c\<close>.  The C structs extend \<open>struct sim_event\<close>; here the
  common header is a record and what a struct adds is its body.  An event has an address, the
  identity by which it is unlinked from the queue; a constructor takes the address its allocation
  returned.  Members that a constructor leaves unset are \<^term>\<open>None\<close>.  Flows and applications
  are addresses.
\<close>

subsection \<open>Definitions\<close>

definition EVENT_FLOW_RECV :: u8 where "EVENT_FLOW_RECV = 0"
definition EVENT_FLOW_SEND :: u8 where "EVENT_FLOW_SEND = 1"
definition EVENT_PACKET :: u8 where "EVENT_PACKET = 2"
definition EVENT_PORT :: u8 where "EVENT_PORT = 3"
definition EVENT_FTI :: u8 where "EVENT_FTI = 4"
definition EVENT_APP_START :: u8 where "EVENT_APP_START = 5"
definition EVENT_END :: u8 where "EVENT_END = 255"

definition EVENT_OF_MSG_IN :: u8 where "EVENT_OF_MSG_IN = 0"
definition EVENT_OF_MSG_OUT :: u8 where "EVENT_OF_MSG_OUT = 1"
definition EVENT_ROUTER_IN :: u8 where "EVENT_ROUTER_IN = 2"
definition EVENT_ROUTER_OUT :: u8 where "EVENT_ROUTER_OUT = 3"
definition EVENT_ROUTER_CONFIG :: u8 where "EVENT_ROUTER_CONFIG = 4"

lemmas event_types =
  EVENT_FLOW_RECV_def EVENT_FLOW_SEND_def EVENT_PACKET_def EVENT_PORT_def EVENT_FTI_def
  EVENT_APP_START_def EVENT_END_def
  EVENT_OF_MSG_IN_def EVENT_OF_MSG_OUT_def EVENT_ROUTER_IN_def EVENT_ROUTER_OUT_def
  EVENT_ROUTER_CONFIG_def

type_synonym addr = nat

record flow_recv =
  recv_node_id :: u64
  recv_flow_id :: "u64 option"
  recv_rate :: u32
  recv_flow :: "addr option"

record flow_send =
  send_node_id :: u64
  send_flow_id :: "u64 option"
  send_out_port :: u32
  send_flow :: "addr option"

record fti_of =
  of_subtype :: u8
  of_data :: bytes
  of_len :: nat
  of_dp_id :: u64

record fti_router =
  rt_subtype :: u8
  rt_data :: bytes
  rt_len :: nat
  rt_router_id :: u32
  rt_conn_id :: int

record fti_router_config =
  cfg_subtype :: u8
  cfg_router_id :: u32
  cfg_cmd :: string
  cfg_proto :: u8

record app_start =
  start_node_id :: u64
  start_exec :: addr

datatype event_body =
    Header_Only
  | Flow_Recv flow_recv
  | Flow_Send flow_send
  | Fti_Of fti_of
  | Fti_Router fti_router
  | Fti_Router_Config fti_router_config
  | App_Start app_start

record sim_event =
  ev_addr :: addr
  ev_type :: "u8 option"
  ev_time :: u64
  ev_body :: event_body

definition sim_event_new :: "addr \<Rightarrow> u64 \<Rightarrow> sim_event" where
  "sim_event_new p time = \<lparr>ev_addr = p, ev_type = None, ev_time = time, ev_body = Header_Only\<rparr>"

definition init_event_hdr :: "addr \<Rightarrow> u64 \<Rightarrow> u8 \<Rightarrow> event_body \<Rightarrow> sim_event" where
  "init_event_hdr p time type body =
     \<lparr>ev_addr = p, ev_type = Some type, ev_time = time, ev_body = body\<rparr>"

definition sim_event_flow_recv_new :: "addr \<Rightarrow> u64 \<Rightarrow> u64 \<Rightarrow> u32 \<Rightarrow> sim_event" where
  "sim_event_flow_recv_new p time node_id rate =
     init_event_hdr p time EVENT_FLOW_RECV
       (Flow_Recv \<lparr>recv_node_id = node_id, recv_flow_id = None, recv_rate = rate, recv_flow = None\<rparr>)"

definition sim_event_flow_send_new :: "addr \<Rightarrow> u64 \<Rightarrow> u64 \<Rightarrow> u32 \<Rightarrow> sim_event" where
  "sim_event_flow_send_new p time node_id out_port =
     init_event_hdr p time EVENT_FLOW_SEND
       (Flow_Send \<lparr>send_node_id = node_id, send_flow_id = None, send_out_port = out_port,
          send_flow = None\<rparr>)"

definition of_msg_new :: "addr \<Rightarrow> u64 \<Rightarrow> u64 \<Rightarrow> bytes \<Rightarrow> nat \<Rightarrow> u8 \<Rightarrow> sim_event" where
  "of_msg_new p time dp_id data len type =
     init_event_hdr p time EVENT_FTI
       (Fti_Of \<lparr>of_subtype = type, of_data = data, of_len = len, of_dp_id = dp_id\<rparr>)"

definition router_msg_new :: "addr \<Rightarrow> u64 \<Rightarrow> u32 \<Rightarrow> int \<Rightarrow> bytes \<Rightarrow> nat \<Rightarrow> u8 \<Rightarrow> sim_event" where
  "router_msg_new p time router_id conn_id data len type =
     init_event_hdr p time EVENT_FTI
       (Fti_Router \<lparr>rt_subtype = type, rt_data = data, rt_len = len, rt_router_id = router_id,
          rt_conn_id = conn_id\<rparr>)"

definition sim_event_of_msg_in_new :: "addr \<Rightarrow> u64 \<Rightarrow> u64 \<Rightarrow> bytes \<Rightarrow> nat \<Rightarrow> sim_event" where
  "sim_event_of_msg_in_new p time dp_id data len = of_msg_new p time dp_id data len EVENT_OF_MSG_IN"

definition sim_event_of_msg_out_new :: "addr \<Rightarrow> u64 \<Rightarrow> u64 \<Rightarrow> bytes \<Rightarrow> nat \<Rightarrow> sim_event" where
  "sim_event_of_msg_out_new p time dp_id data len =
     of_msg_new p time dp_id data len EVENT_OF_MSG_OUT"

definition sim_event_router_in_new :: "addr \<Rightarrow> u64 \<Rightarrow> u32 \<Rightarrow> int \<Rightarrow> bytes \<Rightarrow> nat \<Rightarrow> sim_event" where
  "sim_event_router_in_new p time router_id conn_id data len =
     router_msg_new p time router_id conn_id data len EVENT_ROUTER_IN"

definition sim_event_router_out_new :: "addr \<Rightarrow> u64 \<Rightarrow> u32 \<Rightarrow> int \<Rightarrow> bytes \<Rightarrow> nat \<Rightarrow> sim_event" where
  "sim_event_router_out_new p time router_id conn_id data len =
     router_msg_new p time router_id conn_id data len EVENT_ROUTER_OUT"

definition sim_event_router_config_new :: "addr \<Rightarrow> u64 \<Rightarrow> u32 \<Rightarrow> string \<Rightarrow> u8 \<Rightarrow> sim_event" where
  "sim_event_router_config_new p time router_id cmd proto =
     init_event_hdr p time EVENT_FTI
       (Fti_Router_Config \<lparr>cfg_subtype = EVENT_ROUTER_CONFIG, cfg_router_id = router_id,
          cfg_cmd = cmd, cfg_proto = proto\<rparr>)"

definition sim_event_app_start_new :: "addr \<Rightarrow> u64 \<Rightarrow> u64 \<Rightarrow> addr \<Rightarrow> sim_event" where
  "sim_event_app_start_new p time node_id exec =
     init_event_hdr p time EVENT_APP_START (App_Start \<lparr>start_node_id = node_id, start_exec = exec\<rparr>)"

text \<open>The subtype of an FTI event, read through the common prefix of its structs.\<close>

definition fti_subtype :: "sim_event \<Rightarrow> u8 option" where
  "fti_subtype ev =
     (case ev_body ev of
        Fti_Of b \<Rightarrow> Some (of_subtype b)
      | Fti_Router b \<Rightarrow> Some (rt_subtype b)
      | Fti_Router_Config b \<Rightarrow> Some (cfg_subtype b)
      | _ \<Rightarrow> None)"

text \<open>Releasing an event frees its one allocation on every branch; the result is the address
  with what is reported on the error output.\<close>

datatype free_report = Silent | Unknown_Fti_Event u8 | Unknown_Event u8

definition fti_event_free :: "sim_event \<Rightarrow> (addr \<times> free_report) res" where
  "fti_event_free ev =
     (case fti_subtype ev of
        None \<Rightarrow> Inl Uninitialised
      | Some st \<Rightarrow>
          Inr (ev_addr ev,
            if st = EVENT_OF_MSG_IN \<or> st = EVENT_OF_MSG_OUT then Silent
            else if st = EVENT_ROUTER_IN \<or> st = EVENT_ROUTER_OUT then Silent
            else Unknown_Fti_Event st))"

definition sim_event_free :: "sim_event \<Rightarrow> (addr \<times> free_report) res" where
  "sim_event_free ev =
     (case ev_type ev of
        None \<Rightarrow> Inl Uninitialised
      | Some t \<Rightarrow>
          if t = EVENT_FLOW_RECV then Inr (ev_addr ev, Silent)
          else if t = EVENT_FLOW_SEND then Inr (ev_addr ev, Silent)
          else if t = EVENT_FTI then fti_event_free ev
          else if t = EVENT_APP_START then Inr (ev_addr ev, Silent)
          else if t = EVENT_END then Inr (ev_addr ev, Silent)
          else Inr (ev_addr ev, Unknown_Event t))"

subsection \<open>Events built by the constructors\<close>

lemmas event_constructors =
  init_event_hdr_def sim_event_flow_recv_new_def sim_event_flow_send_new_def of_msg_new_def
  router_msg_new_def sim_event_of_msg_in_new_def sim_event_of_msg_out_new_def
  sim_event_router_in_new_def sim_event_router_out_new_def sim_event_router_config_new_def
  sim_event_app_start_new_def

lemma constructors_time [simp]:
  "ev_time (sim_event_flow_recv_new p t n r) = t"
  "ev_time (sim_event_flow_send_new p t n q) = t"
  "ev_time (sim_event_of_msg_in_new p t d bs l) = t"
  "ev_time (sim_event_of_msg_out_new p t d bs l) = t"
  "ev_time (sim_event_router_in_new p t i c bs l) = t"
  "ev_time (sim_event_router_out_new p t i c bs l) = t"
  "ev_time (sim_event_router_config_new p t i cmd k) = t"
  "ev_time (sim_event_app_start_new p t n x) = t"
  by (simp_all add: event_constructors)

text \<open>The body of an event is the one its type announces: what the casts of the handlers rely on.\<close>

definition body_matches :: "sim_event \<Rightarrow> bool" where
  "body_matches ev =
     (case ev_body ev of
        Header_Only \<Rightarrow> ev_type ev = Some EVENT_END
      | Flow_Recv _ \<Rightarrow> ev_type ev = Some EVENT_FLOW_RECV
      | Flow_Send _ \<Rightarrow> ev_type ev = Some EVENT_FLOW_SEND
      | Fti_Of b \<Rightarrow> ev_type ev = Some EVENT_FTI \<and> of_subtype b \<in> {EVENT_OF_MSG_IN, EVENT_OF_MSG_OUT}
      | Fti_Router b \<Rightarrow> ev_type ev = Some EVENT_FTI \<and> rt_subtype b \<in> {EVENT_ROUTER_IN, EVENT_ROUTER_OUT}
      | Fti_Router_Config b \<Rightarrow> ev_type ev = Some EVENT_FTI \<and> cfg_subtype b = EVENT_ROUTER_CONFIG
      | App_Start _ \<Rightarrow> ev_type ev = Some EVENT_APP_START)"

lemma constructors_match [simp]:
  "body_matches (sim_event_flow_recv_new p t n r)"
  "body_matches (sim_event_flow_send_new p t n q)"
  "body_matches (sim_event_of_msg_in_new p t d bs l)"
  "body_matches (sim_event_of_msg_out_new p t d bs l)"
  "body_matches (sim_event_router_in_new p t i c bs l)"
  "body_matches (sim_event_router_out_new p t i c bs l)"
  "body_matches (sim_event_router_config_new p t i cmd k)"
  "body_matches (sim_event_app_start_new p t n x)"
  by (simp_all add: event_constructors body_matches_def)

text \<open>Every event whose body matches its type is released exactly once, at its own
  address, and only router configuration events, which \<open>fti_event_free\<close> does not know, are
  reported as unknown.\<close>

theorem sim_event_free_complete:
  assumes "body_matches ev"
  shows "sim_event_free ev =
    Inr (ev_addr ev,
      case ev_body ev of Fti_Router_Config _ \<Rightarrow> Unknown_Fti_Event EVENT_ROUTER_CONFIG | _ \<Rightarrow> Silent)"
  using assms
  by (auto simp: body_matches_def sim_event_free_def fti_event_free_def fti_subtype_def event_types
      split: event_body.splits)

theorem sim_event_free_complete_witness:
  "sim_event_free (sim_event_router_config_new 7 0 1 ''cmd'' 2) = Inr (7, Unknown_Fti_Event 4)"
  using sim_event_free_complete [of "sim_event_router_config_new 7 0 1 ''cmd'' 2"]
  by (simp add: event_constructors event_types body_matches_def)

end
