(* ===== verification/Scheduler.thy ===== *)
theory Scheduler
  imports Containers Event_Queue Sim_Event
begin

section \<open>The event scheduler (sim/scheduler)\<close>

text \<open>
  The scheduler of \<open>sim/scheduler.c\<close>: a clock, a mode and a linked list of events kept in time
  order by \<open>LL_INSERT_INORDER\<close>.  Each operation holds the scheduler's mutex throughout, so the
  operations are atomic and the mutex has no state of its own here.
\<close>

subsection \<open>Definitions\<close>

datatype scheduler_mode = DES | FTI

record scheduler =
  clock :: u64
  ev_queue :: "sim_event list"
  mode :: scheduler_mode

definition priocmp :: "sim_event \<Rightarrow> sim_event \<Rightarrow> int" where
  "priocmp a b = (if ev_time a < ev_time b then -1 else if ev_time a > ev_time b then 1 else 0)"

definition scheduler_new :: scheduler where
  "scheduler_new = \<lparr>clock = 0, ev_queue = [], mode = FTI\<rparr>"

definition scheduler_is_empty :: "scheduler \<Rightarrow> bool" where
  "scheduler_is_empty sch = (ev_queue sch = [])"

definition scheduler_insert :: "scheduler \<Rightarrow> sim_event \<Rightarrow> scheduler" where
  "scheduler_insert sch ev = sch\<lparr>ev_queue := LL_INSERT_INORDER priocmp (ev_queue sch) ev\<rparr>"

definition scheduler_delete :: "scheduler \<Rightarrow> addr \<Rightarrow> scheduler res" where
  "scheduler_delete sch p =
     rbind (LL_DELETE (\<lambda>e. ev_addr e = p) (ev_queue sch)) (\<lambda>q. Inr (sch\<lparr>ev_queue := q\<rparr>))"

definition scheduler_retrieve :: "scheduler \<Rightarrow> sim_event option" where
  "scheduler_retrieve sch = (case ev_queue sch of [] \<Rightarrow> None | ev # _ \<Rightarrow> Some ev)"

text \<open>The list's head is deleted from the list: with an empty list its link is read through
  NULL.\<close>

definition scheduler_dispatch :: "scheduler \<Rightarrow> (sim_event \<times> scheduler) res" where
  "scheduler_dispatch sch =
     (case ev_queue sch of
        [] \<Rightarrow> Inl Null_Deref
      | ev # q \<Rightarrow> Inr (ev, sch\<lparr>ev_queue := q\<rparr>))"

subsection \<open>The queue stays in time order\<close>

definition sch_inv :: "scheduler \<Rightarrow> bool" where
  "sch_inv sch \<longleftrightarrow> sorted (map ev_time (ev_queue sch))"

lemma priocmp_nonneg [simp]: "priocmp a b \<ge> 0 \<longleftrightarrow> ev_time b \<le> ev_time a"
  by (auto simp: priocmp_def)

lemma LL_INSERT_INORDER_position:
  assumes "sorted (map ev_time q)"
  shows "LL_INSERT_INORDER priocmp q ev =
    filter (\<lambda>e. ev_time e < ev_time ev) q @ ev # filter (\<lambda>e. ev_time ev \<le> ev_time e) q"
  using assms
proof (induction q)
  case (Cons a q)
  show ?case
  proof (cases "ev_time ev \<le> ev_time a")
    case True
    then have "\<forall>e \<in> set q. ev_time ev \<le> ev_time e"
      using Cons.prems by auto
    then have "filter (\<lambda>e. ev_time e < ev_time ev) q = []" "filter (\<lambda>e. ev_time ev \<le> ev_time e) q = q"
      by (auto simp: filter_empty_conv filter_id_conv)
    then show ?thesis
      using True by simp
  qed (use Cons in auto)
qed simp

lemma sorted_LL_INSERT_INORDER:
  "sorted (map ev_time q) \<Longrightarrow> sorted (map ev_time (LL_INSERT_INORDER priocmp q ev))"
  by (induction q) (auto simp: priocmp_nonneg)

lemma sch_inv_new [simp]: "sch_inv scheduler_new"
  by (simp add: sch_inv_def scheduler_new_def)

lemma sch_inv_insert [horse_inv]: "sch_inv sch \<Longrightarrow> sch_inv (scheduler_insert sch ev)"
  by (simp add: sch_inv_def scheduler_insert_def sorted_LL_INSERT_INORDER)

lemma sch_inv_delete [horse_inv]:
  "sch_inv sch \<Longrightarrow> scheduler_delete sch p = Inr sch' \<Longrightarrow> sch_inv sch'"
  by (auto simp: sch_inv_def scheduler_delete_def LL_DELETE_def sorted_map sorted_ll_remove
      split: if_splits)

lemma sch_inv_dispatch [horse_inv]:
  "sch_inv sch \<Longrightarrow> scheduler_dispatch sch = Inr (ev, sch') \<Longrightarrow> sch_inv sch'"
  by (auto simp: sch_inv_def scheduler_dispatch_def split: list.splits)

subsection \<open>The scheduler as an event queue\<close>

interpretation sched_queue: event_queue scheduler_new "\<lambda>ev sch. scheduler_insert sch ev"
  scheduler_dispatch "\<lambda>sch. mset (ev_queue sch)" sch_inv ev_time
proof
  fix sch ev sch'
  assume sch: "sch_inv sch"
  show "mset (ev_queue sch) \<noteq> {#} \<Longrightarrow> \<exists>ev sch'. scheduler_dispatch sch = Inr (ev, sch')"
    by (cases "ev_queue sch") (auto simp: scheduler_dispatch_def)
  show "scheduler_dispatch sch = Inr (ev, sch') \<Longrightarrow>
      sch_inv sch' \<and> mset (ev_queue sch) = add_mset ev (mset (ev_queue sch')) \<and>
      (\<forall>e \<in># mset (ev_queue sch'). ev_time ev \<le> ev_time e)"
    using sch by (cases "ev_queue sch") (auto simp: scheduler_dispatch_def sch_inv_def)
qed (simp_all add: sch_inv_insert, simp_all add: scheduler_new_def scheduler_insert_def)

lemma scheduler_fold_insert_fields:
  "clock (fold (\<lambda>ev s. scheduler_insert s ev) evs sch) = clock sch"
  "mode (fold (\<lambda>ev s. scheduler_insert s ev) evs sch) = mode sch"
  by (induction evs arbitrary: sch) (simp_all add: scheduler_insert_def)

subsection \<open>Properties\<close>

text \<open>inserting an event in a queue in time order puts it before exactly the events that
  are not earlier, itself the first of those with its own time, and leaves the rest of the queue
  in place; the queue stays in order, and events with one time are dispatched last in, first
  out.\<close>

theorem scheduler_insert_position:
  assumes "sch_inv sch"
  shows "sch_inv (scheduler_insert sch ev) \<and>
    ev_queue (scheduler_insert sch ev) =
      filter (\<lambda>e. ev_time e < ev_time ev) (ev_queue sch) @ ev #
      filter (\<lambda>e. ev_time ev \<le> ev_time e) (ev_queue sch)"
  using assms LL_INSERT_INORDER_position sch_inv_insert
  by (simp add: scheduler_insert_def sch_inv_def)

theorem scheduler_insert_position_witness:
  "map ev_addr (ev_queue (fold (\<lambda>ev s. scheduler_insert s ev)
     [sim_event_new 1 5, sim_event_new 2 9] scheduler_new)) = [1, 2] \<and>
   map ev_addr (ev_queue (scheduler_insert (fold (\<lambda>ev s. scheduler_insert s ev)
     [sim_event_new 1 5, sim_event_new 2 9] scheduler_new) (sim_event_new 3 9))) = [1, 3, 2]"
proof -
  let ?s = "fold (\<lambda>ev s. scheduler_insert s ev) [sim_event_new 1 5, sim_event_new 2 9] scheduler_new"
  have q: "ev_queue ?s = [sim_event_new 1 5, sim_event_new 2 9]"
    by (simp add: scheduler_insert_def scheduler_new_def priocmp_def sim_event_new_def)
  then have "sch_inv ?s"
    by (simp only: sch_inv_def) (simp add: sim_event_new_def)
  from scheduler_insert_position [OF this, of "sim_event_new 3 9"] show ?thesis
    using q by (simp add: sim_event_new_def)
qed

text \<open>C18: a simulation on the scheduler dispatches events in the order of time: if the events
  pending at the start are not before the clock and no handler schedules an event before the one
  it handles, then the times of the dispatched events never decrease, however many steps are
  taken.\<close>

theorem scheduler_clock_monotone:
  assumes "sch_inv sch" "\<forall>e \<in> set (ev_queue sch). clock sch \<le> ev_time e"
    and "\<And>ev e. e \<in> set (sched ev) \<Longrightarrow> ev_time ev \<le> ev_time e"
  shows "sorted (clock sch # map ev_time
    (simulate (\<lambda>ev s. scheduler_insert s ev) scheduler_dispatch sched n sch))"
  by (rule sched_queue.simulate_not_before) (use assms in auto)

text \<open>A handler that forwards a flow one time unit later.\<close>

theorem scheduler_clock_monotone_witness:
  "sorted (map ev_time
     (simulate (\<lambda>ev s. scheduler_insert s ev) scheduler_dispatch
        (\<lambda>ev. if ev_time ev < 100 then [sim_event_new 9 (ev_time ev + 1)] else []) 20
        (scheduler_insert (scheduler_insert scheduler_new (sim_event_new 1 90)) (sim_event_new 2 7))))"
proof -
  let ?s = "scheduler_insert (scheduler_insert scheduler_new (sim_event_new 1 90)) (sim_event_new 2 7)"
  let ?h = "\<lambda>ev. if ev_time ev < 100 then [sim_event_new 9 (ev_time ev + 1)] else []"
  have future: "e \<in> set (?h ev) \<Longrightarrow> ev_time ev \<le> ev_time e" for ev e
    by (auto simp: sim_event_new_def word_le_nat_alt word_less_nat_alt unat_word_ariths
        split: if_splits)
  have "sorted (clock ?s # map ev_time
      (simulate (\<lambda>ev s. scheduler_insert s ev) scheduler_dispatch ?h 20 ?s))"
    by (rule scheduler_clock_monotone [OF _ _ future])
      (simp_all add: sch_inv_insert, simp add: scheduler_insert_def scheduler_new_def)
  then show ?thesis
    by simp
qed

text \<open>whatever events are inserted, dispatching them all returns each exactly once, in the
  order of their times, and dispatching from an empty queue dereferences NULL.\<close>

theorem scheduler_drains_in_order:
  "(let s = fold (\<lambda>ev s. scheduler_insert s ev) evs scheduler_new;
        out = drain scheduler_dispatch (length evs) s
    in mset out = mset evs \<and> sorted (map ev_time out)) \<and>
   scheduler_dispatch scheduler_new = Inl Null_Deref"
  using sched_queue.drain_inserted by (simp add: scheduler_dispatch_def scheduler_new_def Let_def)

text \<open>Deleting a pending event by its address keeps the order and removes one event with
  that address, and nothing when there is none.\<close>

theorem scheduler_delete_correct:
  assumes "sch_inv sch" "ev_queue sch \<noteq> []"
  shows "\<exists>sch'. scheduler_delete sch p = Inr sch' \<and> sch_inv sch' \<and>
    (case find (\<lambda>e. ev_addr e = p) (ev_queue sch) of
       None \<Rightarrow> ev_queue sch' = ev_queue sch
     | Some ev \<Rightarrow> mset (ev_queue sch) = add_mset ev (mset (ev_queue sch')))"
proof -
  obtain sch' where d: "scheduler_delete sch p = Inr sch'"
      "ev_queue sch' = ll_remove (\<lambda>e. ev_addr e = p) (ev_queue sch)"
    using assms(2) by (simp add: scheduler_delete_def LL_DELETE_def)
  then show ?thesis
    using sch_inv_delete [OF assms(1)] mset_ll_remove [of "\<lambda>e. ev_addr e = p" "ev_queue sch"]
    by (auto simp: find_None_iff ll_remove_none split: option.splits)
qed

theorem scheduler_delete_correct_witness:
  "\<exists>sch'. scheduler_delete (scheduler_insert scheduler_new (sim_event_new 1 90)) 1 = Inr sch' \<and>
     ev_queue sch' = []"
  using scheduler_delete_correct [of "scheduler_insert scheduler_new (sim_event_new 1 90)" 1]
  by (simp add: sch_inv_insert, simp add: scheduler_insert_def scheduler_new_def sim_event_new_def)
    blast

end
