(* ===== verification/Conn_Manager.thy ===== *)
theory Conn_Manager
  imports Scheduler Routing_Msg Util
begin

section \<open>Connections to controllers and daemons (sim/conn\_manager)\<close>

text \<open>
  The connection manager turns what arrives on the connections into events.  The OpenFlow client and
  the server are libraries: a connection is the identifier of its datapath, a read takes bytes from
  the front of what has arrived, and what is sent is recorded.  The reader of routing messages keeps
  a header between calls in variables that all connections share.  Copies of a message are written
  with the bounds of their allocation; \<open>p\<close> is the address of a new event.
\<close>

subsection \<open>Definitions\<close>

record conn_manager =
  active_conns :: "u64 list"
  of_sent :: "(u64 \<times> bytes) list"
  routing_sent :: "(int \<times> bytes) list"

record cb_state =
  cb_pos :: u8
  cb_header :: bytes

definition cb_init :: cb_state where
  "cb_init = \<lparr>cb_pos = 0, cb_header = replicate 8 0\<rparr>"

definition conn_manager_send_of :: "conn_manager \<Rightarrow> u64 \<Rightarrow> bytes \<Rightarrow> nat \<Rightarrow> conn_manager" where
  "conn_manager_send_of cm dpid buf len =
     (if dpid \<in> set (active_conns cm) then cm\<lparr>of_sent := of_sent cm @ [(dpid, take len buf)]\<rparr> else cm)"

definition conn_manager_send_routing :: "conn_manager \<Rightarrow> int \<Rightarrow> bytes \<Rightarrow> nat \<Rightarrow> conn_manager" where
  "conn_manager_send_routing cm conn_id data len =
     cm\<lparr>routing_sent := routing_sent cm @ [(conn_id, take len data)]\<rparr>"

definition conn_manager_of_message_cb :: "scheduler \<Rightarrow> addr \<Rightarrow> u64 \<Rightarrow> bytes \<Rightarrow> nat \<Rightarrow> scheduler" where
  "conn_manager_of_message_cb sch p dp_id data len =
     scheduler_insert sch (sim_event_of_msg_in_new p (clock sch) dp_id (take len data) len)"

text \<open>\<open>bufferevent_read\<close>: at most \<open>len\<close> bytes, and the rest of the input.\<close>

definition bev_read :: "bytes \<Rightarrow> nat \<Rightarrow> bytes \<times> bytes" where
  "bev_read input len = (take len input, drop len input)"

definition hdr_size :: "bytes \<Rightarrow> u16" where
  "hdr_size header = get16 (header ! 2) (header ! 3)"

definition hdr_router_id :: "bytes \<Rightarrow> u32" where
  "hdr_router_id header = get32 (header ! 4) (header ! 5) (header ! 6) (header ! 7)"

text \<open>One round of the loop: the state, the input left, the event to schedule and the bytes read.
  The size handed to the event is not converted to the order of the host.\<close>

definition cb_round :: "scheduler \<Rightarrow> int \<Rightarrow> addr \<Rightarrow> cb_state \<Rightarrow> bytes \<Rightarrow> (cb_state \<times> bytes \<times> sim_event option \<times> nat) res" where
  "cb_round sch conn_id p st input =
     (if cb_pos st = 0 then
        let (got, input) = bev_read input HEADER_LEN;
            header = got @ replicate (HEADER_LEN - length got) 0;
            st = st\<lparr>cb_header := header\<rparr>;
            n = length got in
        if n = 0 then Inr (st, input, None, n)
        else if unat (hdr_size header) = HEADER_LEN then
          Inr (st, input, Some (sim_event_router_in_new p (clock sch) (hdr_router_id header) conn_id header
                 (unat (swap16 (hdr_size header)))), n)
        else if ROUND_UP (unat (hdr_size header)) 8 > HEADER_LEN then
          Inr (st\<lparr>cb_pos := cb_pos st + of_nat HEADER_LEN\<rparr>, input, None, n)
        else Inr (st, input, None, n)
      else
        let header = cb_header st;
            len = unat (of_nat (ROUND_UP (unat (hdr_size header)) 8 - HEADER_LEN) :: u16);
            (got, input) = bev_read input len;
            n = length got in
        rbind (wr (alloc [] len) 0 header) (\<lambda>data.
        rbind (wr data (unat (cb_pos st)) got) (\<lambda>data.
          Inr (st\<lparr>cb_pos := 0\<rparr>, input,
            Some (sim_event_router_in_new p (clock sch) (hdr_router_id header) conn_id data
              (unat (swap16 (hdr_size header)))), n))))"

lemma cb_round_consumes:
  "cb_round sch conn_id p st input = Inr (st', input', ev, n) \<Longrightarrow> 0 < n \<Longrightarrow> length input' < length input"
  by (auto simp: cb_round_def Let_def bev_read_def split: if_splits)

function conn_manager_router_message_cb ::
  "scheduler \<Rightarrow> int \<Rightarrow> addr \<Rightarrow> cb_state \<Rightarrow> bytes \<Rightarrow> (scheduler \<times> cb_state) res" where
  "conn_manager_router_message_cb sch conn_id p st input =
     (case cb_round sch conn_id p st input of
        Inl e \<Rightarrow> Inl e
      | Inr (st, input, ev, n) \<Rightarrow>
          let sch = (case ev of None \<Rightarrow> sch | Some ev \<Rightarrow> scheduler_insert sch ev) in
          if n = 0 then Inr (sch, st) else conn_manager_router_message_cb sch conn_id (p + 1) st input)"
  by pat_completeness auto
termination
  by (relation "measure (\<lambda>(sch, conn_id, p, st, input). length input)") (auto dest: cb_round_consumes)

declare conn_manager_router_message_cb.simps [simp del]

subsection \<open>What is received\<close>

definition activity_msg :: "u32 \<Rightarrow> bytes" where
  "activity_msg rid = put16 ROUTER_ACTIVITY @ put16 8 @ put32 rid"

lemma length_activity_msg [simp]: "length (activity_msg rid) = 8"
  by (simp add: activity_msg_def)

lemma activity_hdr [simp]:
  "hdr_size (activity_msg rid) = 8" "hdr_router_id (activity_msg rid) = rid"
proof -
  have "put16 ROUTER_ACTIVITY @ put16 8 @ put32 rid =
      [0, 0, 0, 8, ucast (drop_bit 24 rid), ucast (drop_bit 16 rid), ucast (drop_bit 8 rid), ucast rid]"
    by (simp add: put16_def put32_def ROUTER_ACTIVITY_def)
  then show "hdr_size (activity_msg rid) = 8" "hdr_router_id (activity_msg rid) = rid"
    by (simp_all add: hdr_size_def hdr_router_id_def activity_msg_def) (simp add: get16_def)
qed

lemma activity_msg_nonempty [simp]: "activity_msg rid \<noteq> []"
  using length_activity_msg [of rid] by fastforce

definition activity_event :: "scheduler \<Rightarrow> int \<Rightarrow> addr \<Rightarrow> u32 \<Rightarrow> sim_event" where
  "activity_event sch conn_id p rid = sim_event_router_in_new p (clock sch) rid conn_id (activity_msg rid) 2048"

fun insert_activities :: "scheduler \<Rightarrow> int \<Rightarrow> addr \<Rightarrow> u32 list \<Rightarrow> scheduler" where
  "insert_activities sch conn_id p [] = sch"
| "insert_activities sch conn_id p (rid # rids) =
     insert_activities (scheduler_insert sch (activity_event sch conn_id p rid)) conn_id (p + 1) rids"

lemma swap16_8: "swap16 8 = 2048"
  by code_simp

lemma activities_received:
  "cb_pos st = 0 \<Longrightarrow>
    conn_manager_router_message_cb sch conn_id p st (concat (map activity_msg rids)) =
      Inr (insert_activities sch conn_id p rids, cb_init)"
proof (induction rids arbitrary: sch p st)
  case Nil
  then show ?case
    by (simp add: conn_manager_router_message_cb.simps [of sch] cb_round_def bev_read_def HEADER_LEN_def cb_init_def)
next
  case (Cons rid rids)
  have "cb_round sch conn_id p st (concat (map activity_msg (rid # rids))) =
      Inr (st\<lparr>cb_header := activity_msg rid\<rparr>, concat (map activity_msg rids), Some (activity_event sch conn_id p rid), 8)"
    using Cons.prems by (simp add: cb_round_def bev_read_def HEADER_LEN_def activity_event_def swap16_8)
  then show ?case
    using Cons.IH [of "st\<lparr>cb_header := activity_msg rid\<rparr>"] Cons.prems
    by (simp add: conn_manager_router_message_cb.simps [of sch])
qed

lemma round_up_8: "8 < s \<Longrightarrow> 16 \<le> ROUND_UP s 8"
  by (simp add: ROUND_UP_def)

lemma payload_overflows:
  assumes "cb_pos st = 0" "length hdr = 8" "8 < unat (hdr_size hdr)"
    and "length payload = ROUND_UP (unat (hdr_size hdr)) 8 - 8"
  shows "conn_manager_router_message_cb sch conn_id p st (hdr @ payload @ rest) = Inl Out_Of_Bounds"
proof -
  let ?s = "unat (hdr_size hdr)"
  let ?st = "st\<lparr>cb_header := hdr, cb_pos := 8\<rparr>"
  have s: "16 \<le> ROUND_UP ?s 8" "ROUND_UP ?s 8 \<le> 65536"
    using round_up_8 [OF assms(3)] unsigned_less [of "hdr_size hdr", where 'a = nat] by (simp_all add: ROUND_UP_def)
  define L where "L = ROUND_UP ?s 8 - 8"
  then have R: "ROUND_UP ?s 8 = L + 8"
    using s(1) by simp
  then have L: "8 \<le> L" "L < 65536" "length payload = L"
    using s assms(4) by simp_all
  then have len: "unat (of_nat L :: u16) = L"
    by (simp add: unat_of_nat)
  have 1: "cb_round sch conn_id p st (hdr @ payload @ rest) = Inr (?st, payload @ rest, None, 8)"
    using assms(1-3) L(1) R by (auto simp: cb_round_def bev_read_def HEADER_LEN_def)
  have 2: "cb_round sch conn_id (p + 1) ?st (payload @ rest) = Inl Out_Of_Bounds"
    using assms(2) L R len by (simp add: cb_round_def bev_read_def HEADER_LEN_def Let_def wr_def)
  have "conn_manager_router_message_cb sch conn_id (p + 1) ?st (payload @ rest) = Inl Out_Of_Bounds"
    unfolding conn_manager_router_message_cb.simps [of sch conn_id "p + 1"] 2 by simp
  then show ?thesis
    unfolding conn_manager_router_message_cb.simps [of sch conn_id p st] 1 by simp
qed

text \<open>The messages of the routing daemons without a payload are received whole: every one of a
  run of activity messages becomes one event at the time of the clock, for the router it names, in
  the order of arrival.  A message with a payload never is: the copy of the message is allocated
  without its header, so that reading the payload of a complete message writes eight bytes past the
  end of the copy.\<close>

theorem routing_messages_received:
  assumes "length hdr = 8" "8 < unat (hdr_size hdr)" "length payload = ROUND_UP (unat (hdr_size hdr)) 8 - 8"
  shows "conn_manager_router_message_cb sch conn_id p cb_init (concat (map activity_msg rids)) =
      Inr (insert_activities sch conn_id p rids, cb_init) \<and>
    conn_manager_router_message_cb sch conn_id p cb_init (hdr @ payload @ rest) = Inl Out_Of_Bounds"
  using activities_received [of cb_init] payload_overflows [OF _ assms] by (simp add: cb_init_def)

text \<open>A FIB message with one route, as the daemon sends it.\<close>

theorem routing_messages_received_witness:
  "conn_manager_router_message_cb scheduler_new 1 0 cb_init
     ([0, 1, 0, 20, 1, 0, 0, 10] @ [11, 0, 0, 0, 255, 0, 0, 0, 10, 0, 0, 2, 0, 0, 0, 0] @ []) = Inl Out_Of_Bounds"
proof -
  have sz: "hdr_size [0, 1, 0, 20, 1, 0, 0, 10] = 20"
    by (simp add: hdr_size_def get16_def)
  show ?thesis
    using routing_messages_received [of "[0, 1, 0, 20, 1, 0, 0, 10]" "[11, 0, 0, 0, 255, 0, 0, 0, 10, 0, 0, 2, 0, 0, 0, 0]"
        scheduler_new 1 0 "[]" "[]"] unfolding sz by (simp add: ROUND_UP_def)
qed

end
