(* ===== verification/Horse_Daemon.thy ===== *)
theory Horse_Daemon
  imports Router Conn_Manager App
begin

section \<open>The daemon beside an emulated router (horse\_daemon)\<close>

text \<open>
  A process in the namespace of every emulated router reports to the simulator: a thread captures
  packets and reports routing activity, another reads the kernel's notifications of new routes
  and reports their next hops.  Modelled are what each does with what it is given, as the messages it
  sends; the sockets, the capture library and the threads are left to the system.  The
  reader of notifications uses the macros of the kernel's headers, which are written out.  Numbers are
  read in the order of the machine.
\<close>

subsection \<open>Messages to the simulator\<close>

definition send_activity :: "u32 \<Rightarrow> bytes" where
  "send_activity rid = [0, ucast ROUTER_ACTIVITY, 0, of_nat HEADER_LEN] @ mem32 rid"

definition send_next_hop :: "u32 \<Rightarrow> u32 \<Rightarrow> u32 \<Rightarrow> u32 \<Rightarrow> bytes" where
  "send_next_hop rid destination netmask hop =
     [0, ucast ROUTER_FIB, 0, of_nat (HEADER_LEN + 12)] @ mem32 rid @ mem32 destination @ mem32 netmask @
     mem32 hop @ replicate 4 0"

subsection \<open>Captured packets\<close>

definition IP_PROTO_OSPF :: u8 where "IP_PROTO_OSPF = 89"
definition TCP_PORT_BGP :: u16 where "TCP_PORT_BGP = 179"
definition BGP_OPEN :: u8 where "BGP_OPEN = 1"
definition BGP_UPDATE :: u8 where "BGP_UPDATE = 2"

text \<open>Whether activity is reported.  The captured length is not looked at, and the IP header is taken to
  have no options.\<close>

definition capture_cb :: "bytes \<Rightarrow> bool res" where
  "capture_cb packet =
     rbind (rd16 packet 14) (\<lambda>eth_type.
     if eth_type = ETH_TYPE_IP then
       rbind (arr_get packet (16 + 9)) (\<lambda>ip_proto.
       if ip_proto = IP_PROTO_OSPF then
         rbind (arr_get packet (36 + 1)) (\<lambda>ospf_type. Inr (ospf_type > 1))
       else if ip_proto = IP_PROTO_TCP then
         rbind (rd16 packet (36 + 12)) (\<lambda>tcp_ctl.
         let hlen = unat (drop_bit 12 tcp_ctl) * 4 in
         rbind (rd16 packet 36) (\<lambda>tcp_src.
         rbind (if tcp_src = TCP_PORT_BGP then Inr True else rbind (rd16 packet 38) (\<lambda>tcp_dst. Inr (tcp_dst = TCP_PORT_BGP))) (\<lambda>bgp.
         if bgp then
           rbind (arr_get packet (36 + hlen + 18)) (\<lambda>bgp_type. Inr (bgp_type = BGP_UPDATE \<or> bgp_type = BGP_OPEN))
         else Inr False)))
       else Inr False)
     else Inr False)"

subsection \<open>Notifications of routes\<close>

definition RTM_NEWROUTE :: u16 where "RTM_NEWROUTE = 24"
definition RTM_DELROUTE :: u16 where "RTM_DELROUTE = 25"
definition RTA_DST :: u16 where "RTA_DST = 1"
definition RTA_GATEWAY :: u16 where "RTA_GATEWAY = 5"
definition RTA_MULTIPATH :: u16 where "RTA_MULTIPATH = 9"
definition BUFFER_SIZE :: nat where "BUFFER_SIZE = 4095"

definition align4 :: "nat \<Rightarrow> nat" where
  "align4 n = (n + 3) div 4 * 4"

definition RTA_OK :: "bytes \<Rightarrow> nat \<Rightarrow> int \<Rightarrow> bool res" where
  "RTA_OK buf p len =
     (if len \<ge> 4 then rbind (rm16 buf p) (\<lambda>l. Inr (unat l \<ge> 4 \<and> int (unat l) \<le> len)) else Inr False)"

lemma RTA_OK_True: "RTA_OK buf p len = Inr True \<longleftrightarrow> len \<ge> 4 \<and> (\<exists>l. rm16 buf p = Inr l \<and> 4 \<le> unat l \<and> int (unat l) \<le> len)"
  by (auto simp: RTA_OK_def)

record route_attrs =
  ra_destination :: u32
  ra_next_hop :: u32
  ra_mhops :: "nat option"
  ra_attrlen :: int

text \<open>One attribute of a route.  A list of next hops that does not fit its attribute is kept with the
  length that was set before.\<close>

definition route_attribute :: "bytes \<Rightarrow> nat \<Rightarrow> nat \<Rightarrow> route_attrs \<Rightarrow> route_attrs res" where
  "route_attribute buf p rta_len ra =
     rbind (rm16 buf (p + 2)) (\<lambda>ty.
     rbind (if ty = RTA_DST then rbind (rm32 buf (p + 4)) (\<lambda>d. Inr (ra\<lparr>ra_destination := d\<rparr>)) else Inr ra) (\<lambda>ra.
     rbind (if ty = RTA_GATEWAY then rbind (rm32 buf (p + 4)) (\<lambda>g. Inr (ra\<lparr>ra_next_hop := g\<rparr>)) else Inr ra) (\<lambda>ra.
     if ty = RTA_MULTIPATH then
       let ra = ra\<lparr>ra_mhops := Some (p + 4)\<rparr>; rtnhp_len = int rta_len - 4 in
       if rtnhp_len < 8 then Inr ra
       else rbind (rm16 buf (p + 4)) (\<lambda>rtnh_len.
         if int (unat rtnh_len) > rtnhp_len then Inr ra else Inr (ra\<lparr>ra_attrlen := rtnhp_len - 8\<rparr>))
     else Inr ra)))"

function attribute_loop :: "bytes \<Rightarrow> nat \<Rightarrow> int \<Rightarrow> route_attrs \<Rightarrow> route_attrs res" where
  "attribute_loop buf p len ra =
     (case RTA_OK buf p len of
        Inl e \<Rightarrow> Inl e
      | Inr False \<Rightarrow> Inr ra
      | Inr True \<Rightarrow>
          (case rm16 buf p of
             Inl e \<Rightarrow> Inl e
           | Inr l \<Rightarrow>
               rbind (route_attribute buf p (unat l) ra) (\<lambda>ra.
                 attribute_loop buf (p + align4 (unat l)) (len - int (align4 (unat l))) ra)))"
  by pat_completeness auto
termination
  by (relation "measure (\<lambda>(buf, p, len, ra). nat len)") (auto simp: RTA_OK_True align4_def)

declare attribute_loop.simps [simp del]

text \<open>The attributes of the next hops of a route: every gateway among them is reported.\<close>

function next_hop_loop :: "bytes \<Rightarrow> nat \<Rightarrow> int \<Rightarrow> (u32 \<Rightarrow> bytes) \<Rightarrow> bytes list res" where
  "next_hop_loop buf p len report =
     (case RTA_OK buf p len of
        Inl e \<Rightarrow> Inl e
      | Inr False \<Rightarrow> Inr []
      | Inr True \<Rightarrow>
          (case rm16 buf p of
             Inl e \<Rightarrow> Inl e
           | Inr l \<Rightarrow>
               rbind (rm16 buf (p + 2)) (\<lambda>ty.
               rbind (if ty = RTA_GATEWAY then rbind (rm32 buf (p + 4)) (\<lambda>nh. Inr [report nh]) else Inr []) (\<lambda>msgs.
               rbind (next_hop_loop buf (p + align4 (unat l)) (len - int (align4 (unat l))) report) (\<lambda>more.
                   Inr (msgs @ more))))))"
  by pat_completeness auto
termination
  by (relation "measure (\<lambda>(buf, p, len, report). nat len)") (auto simp: RTA_OK_True align4_def)

declare next_hop_loop.simps [simp del]

text \<open>\<open>htonl(~((1 << (32 - m)) - 1))\<close> with \<open>int\<close>: the shift is undefined by 32 bits, and by 31 its
  result does not fit.\<close>

definition route_mask :: "u8 \<Rightarrow> u32 res" where
  "route_mask m = (if 2 \<le> m \<and> m \<le> 32 then Inr (swap32 (NOT (push_bit (32 - unat m) 1 - 1))) else Inl Signed_Overflow)"

text \<open>The reports of one notification, at \<open>p\<close> in the buffer.\<close>

definition route_reports :: "bytes \<Rightarrow> u32 \<Rightarrow> nat \<Rightarrow> u32 \<Rightarrow> bytes list res" where
  "route_reports buf rid p nlmsg_len =
     rbind (arr_get buf (p + 16 + 1)) (\<lambda>route_netmask.
     rbind (route_mask route_netmask) (\<lambda>netmask.
     rbind (arr_get buf (p + 16 + 5)) (\<lambda>route_protocol.
     rbind (attribute_loop buf (p + 16 + 12) (sint (nlmsg_len - 28))
         \<lparr>ra_destination = 0, ra_next_hop = 0, ra_mhops = None, ra_attrlen = 0\<rparr>) (\<lambda>ra.
     rbind (rm16 buf (p + 4)) (\<lambda>nlmsg_type.
     if nlmsg_type = RTM_NEWROUTE \<and> ra_destination ra \<noteq> 0 then
       rbind
         (case ra_mhops ra of
            Some q \<Rightarrow>
              if ra_attrlen ra \<noteq> 0 then next_hop_loop buf (q + 8) (ra_attrlen ra) (send_next_hop rid (ra_destination ra) netmask)
              else Inr []
          | None \<Rightarrow> Inr []) (\<lambda>msgs.
       Inr (msgs @ (if ra_next_hop ra \<noteq> 0 then [send_next_hop rid (ra_destination ra) netmask (ra_next_hop ra)] else [])))
     else Inr [])))))"

definition NLMSG_OK :: "bytes \<Rightarrow> nat \<Rightarrow> int \<Rightarrow> bool res" where
  "NLMSG_OK buf p len =
     (if len \<ge> 16 then rbind (rm32 buf p) (\<lambda>l. Inr (unat l \<ge> 16 \<and> int (unat l) \<le> len)) else Inr False)"

lemma NLMSG_OK_True: "NLMSG_OK buf p len = Inr True \<longleftrightarrow> len \<ge> 16 \<and> (\<exists>l. rm32 buf p = Inr l \<and> 16 \<le> unat l \<and> int (unat l) \<le> len)"
  by (auto simp: NLMSG_OK_def)

function message_loop :: "bytes \<Rightarrow> u32 \<Rightarrow> nat \<Rightarrow> int \<Rightarrow> bytes list res" where
  "message_loop buf rid p len =
     (case NLMSG_OK buf p len of
        Inl e \<Rightarrow> Inl e
      | Inr False \<Rightarrow> Inr []
      | Inr True \<Rightarrow>
          (case rm32 buf p of
             Inl e \<Rightarrow> Inl e
           | Inr l \<Rightarrow>
               rbind (route_reports buf rid p l) (\<lambda>msgs.
               rbind (message_loop buf rid (p + align4 (unat l)) (len - int (align4 (unat l)))) (\<lambda>more. Inr (msgs @ more)))))"
  by pat_completeness auto
termination
  by (relation "measure (\<lambda>(buf, rid, p, len). nat len)") (auto simp: NLMSG_OK_True align4_def)

declare message_loop.simps [simp del]

text \<open>One round of the monitor: what is received, at the start of a cleared buffer.  The socket listens
  to the group of IPv4 routes, so that one read suffices; an error of the read reports nothing.\<close>

definition loop :: "u32 \<Rightarrow> bytes option \<Rightarrow> bytes list res" where
  "loop rid recv =
     (case recv of
        None \<Rightarrow> Inr []
      | Some data \<Rightarrow>
          let received = take BUFFER_SIZE data in
          rbind (rm16 (received @ replicate (BUFFER_SIZE - length received) 0) 4) (\<lambda>nlmsg_type.
            message_loop (received @ replicate (BUFFER_SIZE - length received) 0) rid 0 (int (length received))))"

subsection \<open>Notifications as the kernel writes them\<close>

definition rtattr :: "u16 \<Rightarrow> bytes \<Rightarrow> bytes" where
  "rtattr ty pl = mem16 (of_nat (4 + length pl)) @ mem16 ty @ pl"

definition plain_attrs :: "(u16 \<times> u32) list \<Rightarrow> bytes" where
  "plain_attrs xs = concat (map (\<lambda>(ty, v). rtattr ty (mem32 v)) xs)"

text \<open>A next hop: its length, its flags and weight, its interface and its gateway.\<close>

definition next_hop_entry :: "u16 \<times> u32 \<times> u32 \<Rightarrow> bytes" where
  "next_hop_entry h = (case h of (flags, ifindex, gateway) \<Rightarrow> mem16 16 @ mem16 flags @ mem32 ifindex @ rtattr RTA_GATEWAY (mem32 gateway))"

text \<open>A notification: its kind, what follows it in the two headers, the length of the prefix, and
  attributes.\<close>

definition route_note :: "u16 \<Rightarrow> bytes \<Rightarrow> u8 \<Rightarrow> u8 \<Rightarrow> bytes \<Rightarrow> bytes \<Rightarrow> bytes" where
  "route_note ty h family m r attrs = mem32 (of_nat (28 + length attrs)) @ mem16 ty @ h @ [family, m] @ r @ attrs"

lemma length_mem [simp]: "length (mem16 x) = 2" "length (mem32 y) = 4"
  by (simp_all add: mem16_def mem32_def)

lemma length_rtattr [simp]: "length (rtattr ty pl) = 4 + length pl"
  by (simp add: rtattr_def)

lemma length_plain_attrs [simp]: "length (plain_attrs xs) = 8 * length xs"
  by (induction xs) (auto simp: plain_attrs_def)

lemma length_next_hop_entry [simp]: "length (next_hop_entry h) = 16"
  by (simp add: next_hop_entry_def split: prod.splits)

text \<open>Reading the header of an attribute.\<close>

lemma RTA_at:
  assumes "length pre = p" "4 + length pl < 2 ^ 16" "int (4 + length pl) \<le> len"
  shows "rm16 (pre @ rtattr ty pl @ post) p = Inr (of_nat (4 + length pl))"
    "RTA_OK (pre @ rtattr ty pl @ post) p len = Inr True"
    "rm16 (pre @ rtattr ty pl @ post) (p + 2) = Inr ty"
proof -
  show r: "rm16 (pre @ rtattr ty pl @ post) p = Inr (of_nat (4 + length pl))"
    using rm16_mem16 [OF assms(1), of "of_nat (4 + length pl)" "mem16 ty @ pl @ post"] by (simp add: rtattr_def)
  have u: "unat (of_nat (4 + length pl) :: u16) = 4 + length pl"
    using assms(2) by (intro unat_u16) simp
  show "RTA_OK (pre @ rtattr ty pl @ post) p len = Inr True"
    unfolding RTA_OK_True
  proof (intro conjI exI)
    show "4 \<le> len"
      using assms(3) by simp
    show "4 \<le> unat (of_nat (4 + length pl) :: u16)" "int (unat (of_nat (4 + length pl) :: u16)) \<le> len"
      unfolding u using assms(3) by simp_all
  qed (rule r)
  show "rm16 (pre @ rtattr ty pl @ post) (p + 2) = Inr ty"
    using rm16_mem16 [of "pre @ mem16 (of_nat (4 + length pl))" "p + 2" ty "pl @ post"] assms(1)
    by (simp add: rtattr_def)
qed

definition apply_attr :: "u16 \<times> u32 \<Rightarrow> route_attrs \<Rightarrow> route_attrs" where
  "apply_attr x ra = (case x of (ty, v) \<Rightarrow> if ty = RTA_DST then ra\<lparr>ra_destination := v\<rparr>
     else if ty = RTA_GATEWAY then ra\<lparr>ra_next_hop := v\<rparr> else ra)"

lemma attribute_loop_plain:
  assumes "\<forall>(ty, v) \<in> set xs. ty \<noteq> RTA_MULTIPATH" "length pre = p" "len \<ge> 0"
  shows "attribute_loop (pre @ plain_attrs xs @ post) p (int (8 * length xs) + len) ra =
    attribute_loop (pre @ plain_attrs xs @ post) (p + 8 * length xs) len (fold apply_attr xs ra)"
  using assms(1,2)
proof (induction xs arbitrary: pre p ra)
  case (Cons x xs)
  obtain ty v where x: "x = (ty, v)"
    by (cases x)
  define buf where "buf = pre @ rtattr ty (mem32 v) @ plain_attrs xs @ post"
  have buf: "pre @ plain_attrs (x # xs) @ post = buf"
    by (simp add: buf_def plain_attrs_def x)
  note at = RTA_at [OF Cons.prems(2), of "mem32 v" "int (8 * length (x # xs)) + len" ty "plain_attrs xs @ post", folded buf_def]
  have rta: "RTA_OK buf p (int (8 * length (x # xs)) + len) = Inr True" "rm16 buf p = Inr 8" "rm16 buf (p + 2) = Inr ty"
    using at assms(3) by simp_all
  have "rm32 buf (p + 4) = Inr v"
    using rm32_mem32 [of "pre @ mem16 8 @ mem16 ty" "p + 4" v "plain_attrs xs @ post"] Cons.prems(2)
    by (simp add: buf_def rtattr_def)
  then have "route_attribute buf p 8 ra = Inr (apply_attr x ra)"
    using Cons.prems(1) rta(3) by (auto simp: route_attribute_def apply_attr_def x RTA_DST_def RTA_GATEWAY_def)
  then have "attribute_loop buf p (int (8 * length (x # xs)) + len) ra =
      attribute_loop buf (p + 8) (int (8 * length xs) + len) (apply_attr x ra)"
    using rta by (subst attribute_loop.simps) (simp add: align4_def)
  moreover have "attribute_loop buf (p + 8) (int (8 * length xs) + len) (apply_attr x ra) =
      attribute_loop buf (p + 8 + 8 * length xs) len (fold apply_attr xs (apply_attr x ra))"
    using Cons.IH [of "pre @ rtattr ty (mem32 v)" "p + 8"] Cons.prems by (simp add: buf_def)
  ultimately show ?case
    unfolding buf by (simp add: add.assoc)
qed (simp add: plain_attrs_def)

lemma attribute_loop_end: "attribute_loop buf p 0 ra = Inr ra"
  by (subst attribute_loop.simps) (simp add: RTA_OK_def)

text \<open>The entries of further next hops look like attributes of another kind.\<close>

lemma next_hop_loop_skips:
  assumes "\<forall>(flags, _) \<in> set hs. flags \<noteq> RTA_GATEWAY" "length pre = p"
  shows "next_hop_loop (pre @ concat (map next_hop_entry hs) @ post) p (int (16 * length hs)) report = Inr []"
  using assms
proof (induction hs arbitrary: pre p)
  case Nil
  then show ?case
    by (subst next_hop_loop.simps) (simp add: RTA_OK_def)
next
  case (Cons h hs)
  obtain flags ifi g where h: "h = (flags, ifi, g)"
    by (cases h)
  define buf where "buf = pre @ next_hop_entry h @ concat (map next_hop_entry hs) @ post"
  have buf: "pre @ concat (map next_hop_entry (h # hs)) @ post = buf"
    by (simp add: buf_def)
  have "next_hop_entry h = rtattr flags (mem32 ifi @ rtattr RTA_GATEWAY (mem32 g))"
    by (simp add: next_hop_entry_def h rtattr_def)
  then have b: "buf = pre @ rtattr flags (mem32 ifi @ rtattr RTA_GATEWAY (mem32 g)) @ concat (map next_hop_entry hs) @ post"
    by (simp add: buf_def)
  have rta: "RTA_OK buf p (int (16 * length (h # hs))) = Inr True" "rm16 buf p = Inr 16" "rm16 buf (p + 2) = Inr flags"
    using RTA_at [OF Cons.prems(2), of "mem32 ifi @ rtattr RTA_GATEWAY (mem32 g)" "int (16 * length (h # hs))" flags
        "concat (map next_hop_entry hs) @ post", folded b] by simp_all
  have "next_hop_loop buf (p + 16) (int (16 * length hs)) report = Inr []"
    using Cons.IH [of "pre @ next_hop_entry h" "p + 16"] Cons.prems by (simp add: buf_def)
  then have "next_hop_loop buf p (int (16 * length (h # hs))) report = Inr []"
    using rta Cons.prems(1) by (subst next_hop_loop.simps) (simp add: align4_def h)
  then show ?case
    unfolding buf .
qed

subsection \<open>What is reported\<close>

lemma sint_small: "n < 2 ^ 31 \<Longrightarrow> sint (of_nat n :: u32) = int n"
  by (simp add: signed_of_nat signed_take_bit_int_eq_self)

text \<open>Reading the headers of a notification.\<close>

lemma note_at:
  assumes "length pre = p" "length h = 10" "length r = 10" "28 + length attrs < 4096"
    and buf_def: "buf = pre @ route_note ty h family m r attrs @ post"
  shows "rm32 buf p = Inr (of_nat (28 + length attrs))" "rm16 buf (p + 4) = Inr ty"
    "arr_get buf (p + 16 + 1) = Inr m" "arr_get buf (p + 16 + 5) = Inr (r ! 3)"
    "sint ((of_nat (28 + length attrs) :: u32) - 28) = int (length attrs)"
    "unat (of_nat (28 + length attrs) :: u32) = 28 + length attrs"
proof -
  show "rm32 buf p = Inr (of_nat (28 + length attrs))"
    using rm32_mem32 [OF assms(1), of "of_nat (28 + length attrs)" "mem16 ty @ h @ [family, m] @ r @ attrs @ post"]
    by (simp add: buf_def route_note_def)
  show "rm16 buf (p + 4) = Inr ty"
    using rm16_mem16 [of "pre @ mem32 (of_nat (28 + length attrs))" "p + 4" ty "h @ [family, m] @ r @ attrs @ post"] assms(1)
    by (simp add: buf_def route_note_def)
  have "buf ! (p + 16 + 1) = m" "buf ! (p + 16 + 5) = r ! 3"
    using assms(1-3) by (simp_all add: buf_def route_note_def nth_append)
  moreover have "p + 16 + 5 < length buf"
    using assms(1-3) by (simp add: buf_def route_note_def)
  ultimately show "arr_get buf (p + 16 + 1) = Inr m" "arr_get buf (p + 16 + 5) = Inr (r ! 3)"
    by (simp_all add: arr_get_def)
  have "(of_nat (28 + length attrs) :: u32) - 28 = of_nat (length attrs)"
    by simp
  then show "sint ((of_nat (28 + length attrs) :: u32) - 28) = int (length attrs)"
    using sint_small [of "length attrs"] assms(4) by simp
  show "unat (of_nat (28 + length attrs) :: u32) = 28 + length attrs"
    using assms(4) unfolding unsigned_of_nat by (simp add: take_bit_nat_eq_self del: of_nat_add)
qed

definition no_attrs :: route_attrs where
  "no_attrs = \<lparr>ra_destination = 0, ra_next_hop = 0, ra_mhops = None, ra_attrlen = 0\<rparr>"

text \<open>A route as the kernel notifies it, with one gateway or none: the kind, the headers, the length of the
  prefix and the attributes.\<close>

type_synonym route_spec = "u16 \<times> bytes \<times> u8 \<times> u8 \<times> bytes \<times> (u16 \<times> u32) list"

fun spec_ok :: "route_spec \<Rightarrow> bool" where
  "spec_ok (ty, h, family, m, r, xs) \<longleftrightarrow> length h = 10 \<and> length r = 10 \<and> 2 \<le> m \<and> m \<le> 32 \<and> (\<forall>(ty, v) \<in> set xs. ty \<noteq> RTA_MULTIPATH)"

fun spec_bytes :: "route_spec \<Rightarrow> bytes" where
  "spec_bytes (ty, h, family, m, r, xs) = route_note ty h family m r (plain_attrs xs)"

fun spec_report :: "u32 \<Rightarrow> route_spec \<Rightarrow> bytes list" where
  "spec_report rid (ty, h, family, m, r, xs) =
     (let ra = fold apply_attr xs no_attrs in
      if ty = RTM_NEWROUTE \<and> ra_destination ra \<noteq> 0 \<and> ra_next_hop ra \<noteq> 0
      then [send_next_hop rid (ra_destination ra) (swap32 (NOT (push_bit (32 - unat m) 1 - 1))) (ra_next_hop ra)] else [])"

lemma apply_attr_mhops: "ra_mhops (fold apply_attr xs ra) = ra_mhops ra" "ra_attrlen (fold apply_attr xs ra) = ra_attrlen ra"
  by (induction xs arbitrary: ra) (auto simp: apply_attr_def)

lemma plain_route_reports:
  assumes "spec_ok x" "length pre = p" "length (spec_bytes x) < 4096"
  shows "\<exists>l. rm32 (pre @ spec_bytes x @ post) p = Inr l \<and> unat l = length (spec_bytes x) \<and>
    route_reports (pre @ spec_bytes x @ post) rid p l = Inr (spec_report rid x)"
proof -
  obtain ty h family m r xs where x: "x = (ty, h, family, m, r, xs)"
    by (cases x)
  define buf where "buf = pre @ route_note ty h family m r (plain_attrs xs) @ post"
  have ok: "length h = 10" "length r = 10" "2 \<le> m" "m \<le> 32" "\<forall>(ty, v) \<in> set xs. ty \<noteq> RTA_MULTIPATH"
    using assms(1) by (simp_all add: x)
  have small: "28 + length (plain_attrs xs) < 4096"
    using assms(3) ok(1,2) by (simp add: x route_note_def)
  note at = note_at [OF assms(2) ok(1,2) small buf_def]
  let ?hdr = "mem32 (of_nat (28 + length (plain_attrs xs))) @ mem16 ty @ h @ [family, m] @ r"
  have "attribute_loop buf (p + 16 + 12) (int (length (plain_attrs xs))) no_attrs = Inr (fold apply_attr xs no_attrs)"
    using attribute_loop_plain [OF ok(5), of "pre @ ?hdr" "p + 16 + 12" 0 post no_attrs] ok(1,2) assms(2)
    by (simp add: attribute_loop_end buf_def route_note_def)
  then have "route_reports buf rid p (of_nat (28 + length (plain_attrs xs))) = Inr (spec_report rid x)"
    using at(2-5) ok(3,4) unfolding route_reports_def no_attrs_def [symmetric]
    by (simp add: x route_mask_def apply_attr_mhops Let_def) (simp add: no_attrs_def)
  then show ?thesis
    using at(1,6) ok(1,2) by (intro exI [of _ "of_nat (28 + length (plain_attrs xs))"]) (simp add: x buf_def route_note_def)
qed

lemma align4_dvd: "4 dvd n \<Longrightarrow> align4 n = n"
  by (auto simp: align4_def elim!: dvdE)

lemma length_spec_bytes: "spec_ok x \<Longrightarrow> 28 \<le> length (spec_bytes x) \<and> align4 (length (spec_bytes x)) = length (spec_bytes x)"
proof -
  assume ok: "spec_ok x"
  then obtain k where "length (spec_bytes x) = 4 * (7 + 2 * k)"
    by (cases x) (auto simp: route_note_def)
  then show ?thesis
    using align4_dvd [of "length (spec_bytes x)"] by simp
qed

lemma message_loop_plain:
  assumes "list_all spec_ok xs" "length pre = p" "length (concat (map spec_bytes xs)) < 4096"
  shows "message_loop (pre @ concat (map spec_bytes xs) @ post) rid p (int (length (concat (map spec_bytes xs)))) =
    Inr (concat (map (spec_report rid) xs))"
  using assms
proof (induction xs arbitrary: pre p)
  case Nil
  then show ?case
    by (subst message_loop.simps) (simp add: NLMSG_OK_def)
next
  case (Cons x xs)
  define buf n where "buf = pre @ spec_bytes x @ concat (map spec_bytes xs) @ post" and "n = length (spec_bytes x)"
  have ok: "spec_ok x" "28 \<le> n" "align4 n = n"
    using Cons.prems(1) length_spec_bytes [of x] by (simp_all add: n_def)
  have len: "int (length (concat (map spec_bytes (x # xs)))) = int n + int (length (concat (map spec_bytes xs)))"
    by (simp add: n_def)
  obtain l where l: "rm32 buf p = Inr l" "unat l = n" "route_reports buf rid p l = Inr (spec_report rid x)"
    using plain_route_reports [OF ok(1) Cons.prems(2), of "concat (map spec_bytes xs) @ post" rid] Cons.prems(3)
    by (auto simp: buf_def n_def)
  have "NLMSG_OK buf p (int n + int (length (concat (map spec_bytes xs)))) = Inr True"
    unfolding NLMSG_OK_True using l(1,2) ok(2) by (intro conjI exI [of _ l]) (simp_all add: l(2) del: of_nat_unat)
  moreover have "message_loop buf rid (p + n) (int (length (concat (map spec_bytes xs)))) = Inr (concat (map (spec_report rid) xs))"
    using Cons.IH [of "pre @ spec_bytes x" "p + n"] Cons.prems by (simp add: buf_def n_def)
  ultimately have "message_loop buf rid p (int n + int (length (concat (map spec_bytes xs)))) =
      Inr (spec_report rid x @ concat (map (spec_report rid) xs))"
    using l ok(3) by (subst message_loop.simps) simp
  then show ?case
    using len by (simp add: buf_def)
qed

lemma rm16_in_bounds: "i + 2 \<le> length buf \<Longrightarrow> \<exists>x. rm16 buf i = Inr x"
  by (auto simp: rm16_def rd16_def arr_get_def)

text \<open>What is read when it fits the buffer.\<close>

lemma loop_fits:
  assumes "length data \<le> BUFFER_SIZE"
  shows "loop rid (Some data) = message_loop (data @ replicate (BUFFER_SIZE - length data) 0) rid 0 (int (length data))"
proof -
  obtain x where "rm16 (data @ replicate (BUFFER_SIZE - length data) 0) 4 = Inr x"
    using rm16_in_bounds [of 4 "data @ replicate (BUFFER_SIZE - length data) 0"] assms by (auto simp: BUFFER_SIZE_def)
  then show ?thesis
    using assms by (simp add: loop_def)
qed

text \<open>C22: The routes the kernel notifies are reported: from a read of well-formed notifications without
  lists of next hops, the monitor reads nothing outside its buffer and sends exactly one message for
  every new route with a destination and a gateway, in order, and none for the others.\<close>

theorem route_notifications_reported:
  assumes "list_all spec_ok xs" "length (concat (map spec_bytes xs)) \<le> BUFFER_SIZE"
  shows "loop rid (Some (concat (map spec_bytes xs))) = Inr (concat (map (spec_report rid) xs))"
  using message_loop_plain [OF assms(1), of "[]" 0 "replicate (BUFFER_SIZE - length (concat (map spec_bytes xs))) 0" rid] assms(2)
  by (simp add: loop_fits BUFFER_SIZE_def)

text \<open>Two routes, the second of which is removed.\<close>

definition example_notes :: "route_spec list" where
  "example_notes =
     [(RTM_NEWROUTE, replicate 10 0, 2, 24, replicate 10 0, [(15, 254), (RTA_DST, 0x0000000B), (RTA_GATEWAY, 0x0200000A)]),
      (RTM_DELROUTE, replicate 10 0, 2, 8, replicate 10 0, [(RTA_DST, 0x0000000C), (RTA_GATEWAY, 0x0200000A)])]"

theorem route_notifications_reported_witness:
  "loop 0x0100000A (Some (concat (map spec_bytes example_notes))) =
     Inr [send_next_hop 0x0100000A 0x0000000B (swap32 0xFFFFFF00) 0x0200000A]"
proof -
  have "list_all spec_ok example_notes" "length (concat (map spec_bytes example_notes)) \<le> BUFFER_SIZE"
    by (simp_all add: example_notes_def BUFFER_SIZE_def route_note_def RTA_DST_def RTA_GATEWAY_def RTA_MULTIPATH_def)
  moreover have mask: "(- 256 :: u32) = 0xFFFFFF00"
    by code_simp
  have "concat (map (spec_report 0x0100000A) example_notes) = [send_next_hop 0x0100000A 0x0000000B (swap32 0xFFFFFF00) 0x0200000A]"
    by (simp add: example_notes_def apply_attr_def no_attrs_def RTA_DST_def RTA_GATEWAY_def RTM_NEWROUTE_def RTM_DELROUTE_def Let_def) (simp only: mask)
  ultimately show ?thesis
    using route_notifications_reported [of example_notes "0x0100000A"] by simp
qed

text \<open>The attribute of several next hops, at the end of the attributes.\<close>

lemma attribute_loop_hops:
  assumes "length pre = p" "hs \<noteq> []" "4 + 16 * length hs < 2 ^ 16"
  defines "pl \<equiv> concat (map next_hop_entry hs)"
  shows "attribute_loop (pre @ rtattr RTA_MULTIPATH pl @ post) p (int (4 + 16 * length hs)) ra =
    Inr (ra\<lparr>ra_mhops := Some (p + 4), ra_attrlen := int (16 * length hs) - 8\<rparr>)"
proof -
  let ?buf = "pre @ rtattr RTA_MULTIPATH pl @ post"
  have len: "length pl = 16 * length hs"
    unfolding pl_def by (induction hs) simp_all
  obtain h hs' where hs: "hs = h # hs'"
    using assms(2) by (auto simp: neq_Nil_conv)
  obtain flags ifi g where h: "h = (flags, ifi, g)"
    by (cases h)
  have pl: "pl = mem16 16 @ mem16 flags @ mem32 ifi @ rtattr RTA_GATEWAY (mem32 g) @ concat (map next_hop_entry hs')"
    by (simp add: pl_def hs h next_hop_entry_def)
  have first: "rm16 ?buf (p + 4) = Inr 16"
    using rm16_mem16 [of "pre @ mem16 (of_nat (4 + length pl)) @ mem16 RTA_MULTIPATH" "p + 4" 16
        "mem16 flags @ mem32 ifi @ rtattr RTA_GATEWAY (mem32 g) @ concat (map next_hop_entry hs') @ post"] assms(1)
    unfolding pl rtattr_def [of RTA_MULTIPATH] by simp
  have u: "unat (of_nat (4 + length pl) :: u16) = 4 + length pl"
    using assms(3) len by (intro unat_u16) simp
  note at = RTA_at [OF assms(1), of pl "int (4 + 16 * length hs)" RTA_MULTIPATH post]
  have rta: "RTA_OK ?buf p (int (4 + 16 * length hs)) = Inr True" "rm16 ?buf p = Inr (of_nat (4 + length pl))"
      "rm16 ?buf (p + 2) = Inr RTA_MULTIPATH"
    using at assms(3) len by simp_all
  have "align4 (4 + length pl) = 4 + length pl"
    by (rule align4_dvd) (simp add: len)
  moreover have "route_attribute ?buf p (4 + length pl) ra = Inr (ra\<lparr>ra_mhops := Some (p + 4), ra_attrlen := int (16 * length hs) - 8\<rparr>)"
    using rta(3) first len hs by (simp add: route_attribute_def RTA_MULTIPATH_def RTA_DST_def RTA_GATEWAY_def Let_def)
  ultimately show ?thesis
    using rta(1,2) u len by (subst attribute_loop.simps) (simp add: attribute_loop_end del: of_nat_add)
qed

lemma next_hop_loop_first:
  assumes "length pre = p" "\<forall>(flags, _) \<in> set hs. flags \<noteq> RTA_GATEWAY"
  shows "next_hop_loop (pre @ rtattr RTA_GATEWAY (mem32 g) @ concat (map next_hop_entry hs) @ post) p (int (8 + 16 * length hs)) report =
    Inr [report g]"
proof -
  let ?buf = "pre @ rtattr RTA_GATEWAY (mem32 g) @ concat (map next_hop_entry hs) @ post"
  note at = RTA_at [OF assms(1), of "mem32 g" "int (8 + 16 * length hs)" RTA_GATEWAY "concat (map next_hop_entry hs) @ post"]
  have rta: "RTA_OK ?buf p (int (8 + 16 * length hs)) = Inr True" "rm16 ?buf p = Inr 8" "rm16 ?buf (p + 2) = Inr RTA_GATEWAY"
    using at by simp_all
  have "rm32 ?buf (p + 4) = Inr g"
    using rm32_mem32 [of "pre @ mem16 8 @ mem16 RTA_GATEWAY" "p + 4" g "concat (map next_hop_entry hs) @ post"] assms(1)
    by (simp add: rtattr_def)
  moreover have "next_hop_loop ?buf (p + 8) (int (16 * length hs)) report = Inr []"
    using next_hop_loop_skips [OF assms(2), of "pre @ rtattr RTA_GATEWAY (mem32 g)" "p + 8" post report] assms(1) by simp
  ultimately show ?thesis
    using rta by (subst next_hop_loop.simps) (simp add: align4_def)
qed

text \<open>The notification of a route with several next hops.\<close>

definition multipath_note :: "bytes \<Rightarrow> u8 \<Rightarrow> u8 \<Rightarrow> bytes \<Rightarrow> (u16 \<times> u32) list \<Rightarrow> (u16 \<times> u32 \<times> u32) list \<Rightarrow> bytes" where
  "multipath_note h family m r xs hs =
     route_note RTM_NEWROUTE h family m r (plain_attrs xs @ rtattr RTA_MULTIPATH (concat (map next_hop_entry hs)))"

lemma length_hops [simp]: "length (concat (map next_hop_entry hs)) = 16 * length hs"
  by (induction hs) simp_all

lemma multipath_reports:
  assumes "length h = 10" "length r = 10" "2 \<le> m" "m \<le> 32" "\<forall>(ty, v) \<in> set xs. ty \<noteq> RTA_MULTIPATH"
    and ra: "ra = fold apply_attr xs no_attrs" "ra_destination ra \<noteq> 0" "ra_next_hop ra = 0"
    and "\<forall>(flags, _) \<in> set hs. flags \<noteq> RTA_GATEWAY"
    and buf: "buf = multipath_note h family m r xs ((flags, ifi, g) # hs) @ post"
    and small: "length (multipath_note h family m r xs ((flags, ifi, g) # hs)) < 4096"
  shows "\<exists>l. rm32 buf 0 = Inr l \<and> unat l = length (multipath_note h family m r xs ((flags, ifi, g) # hs)) \<and>
    route_reports buf rid 0 l = Inr [send_next_hop rid (ra_destination ra) (swap32 (NOT (push_bit (32 - unat m) 1 - 1))) g]"
proof -
  let ?hops = "concat (map next_hop_entry ((flags, ifi, g) # hs))"
  let ?attrs = "plain_attrs xs @ rtattr RTA_MULTIPATH ?hops"
  let ?hdr = "mem32 (of_nat (28 + length ?attrs)) @ mem16 RTM_NEWROUTE @ h @ [family, m] @ r"
  have buf_def: "buf = [] @ route_note RTM_NEWROUTE h family m r ?attrs @ post"
    by (simp add: buf multipath_note_def)
  have len: "length ?attrs = 8 * length xs + (4 + 16 * length ((flags, ifi, g) # hs))"
    by (simp del: concat.simps list.map)
  have n: "length (multipath_note h family m r xs ((flags, ifi, g) # hs)) = 28 + length ?attrs"
    using assms(1,2) by (simp add: multipath_note_def route_note_def)
  have small: "28 + length ?attrs < 4096"
    using small n by simp
  note at = note_at [OF list.size(3) assms(1,2) small buf_def]
  have "attribute_loop buf 28 (int (length ?attrs)) no_attrs =
      attribute_loop buf (28 + 8 * length xs) (int (4 + 16 * length ((flags, ifi, g) # hs))) ra"
    using attribute_loop_plain [OF assms(5), of ?hdr 28 "int (4 + 16 * length ((flags, ifi, g) # hs))"
        "rtattr RTA_MULTIPATH ?hops @ post" no_attrs] assms(1,2)
    unfolding len buf_def route_note_def ra(1) by simp
  also have "\<dots> = Inr (ra\<lparr>ra_mhops := Some (32 + 8 * length xs), ra_attrlen := int (8 + 16 * length hs)\<rparr>)"
    using attribute_loop_hops [of "?hdr @ plain_attrs xs" "28 + 8 * length xs" "(flags, ifi, g) # hs" post ra] assms(1,2) small len
    unfolding buf_def route_note_def by simp
  finally have attrs: "attribute_loop buf 28 (int (length ?attrs)) no_attrs =
      Inr (ra\<lparr>ra_mhops := Some (32 + 8 * length xs), ra_attrlen := int (8 + 16 * length hs)\<rparr>)" .
  let ?pre = "?hdr @ plain_attrs xs @ mem16 (of_nat (4 + length ?hops)) @ mem16 RTA_MULTIPATH @ mem16 16 @ mem16 flags @ mem32 ifi"
  have b: "buf = ?pre @ rtattr RTA_GATEWAY (mem32 g) @ concat (map next_hop_entry hs) @ post"
    unfolding buf_def route_note_def rtattr_def [of RTA_MULTIPATH] by (simp add: next_hop_entry_def)
  have "length ?pre = 32 + 8 * length xs + 8"
    using assms(1,2) by simp
  then have first: "next_hop_loop buf (32 + 8 * length xs + 8) (int (8 + 16 * length hs)) report = Inr [report g]" for report
    unfolding b using assms(9) by (rule next_hop_loop_first)
  have "route_reports buf rid 0 (of_nat (28 + length ?attrs)) =
      Inr [send_next_hop rid (ra_destination ra) (swap32 (NOT (push_bit (32 - unat m) 1 - 1))) g]"
    using at(2-5) assms(3,4) attrs first ra(2,3) unfolding route_reports_def no_attrs_def [symmetric]
    by (simp add: route_mask_def)
  then show ?thesis
    using at(1,6) n by (intro exI [of _ "of_nat (28 + length ?attrs)"]) (simp del: of_nat_add length_append)
qed

lemma message_loop_one:
  assumes "rm32 buf 0 = Inr l" "unat l = n" "16 \<le> n" "4 dvd n" "route_reports buf rid 0 l = Inr ms"
  shows "message_loop buf rid 0 (int n) = Inr ms"
proof -
  have "NLMSG_OK buf 0 (int n) = Inr True"
    unfolding NLMSG_OK_True using assms(1-3) by (intro conjI exI [of _ l]) (simp_all del: of_nat_unat)
  moreover have "message_loop buf rid n 0 = Inr []"
    by (subst message_loop.simps) (simp add: NLMSG_OK_def)
  ultimately show ?thesis
    using assms by (subst message_loop.simps) (simp add: align4_dvd)
qed

text \<open>C36: Of a route with several next hops only the first is reported.  The entries of the further next
  hops are read as attributes: the length of an entry covers its gateway, which is skipped with
  it.\<close>

theorem multipath_first_hop_only:
  assumes "length h = 10" "length r = 10" "2 \<le> m" "m \<le> 32" "\<forall>(ty, v) \<in> set xs. ty \<noteq> RTA_MULTIPATH"
    and "ra = fold apply_attr xs no_attrs" "ra_destination ra \<noteq> 0" "ra_next_hop ra = 0"
    and "\<forall>(flags, _) \<in> set hs. flags \<noteq> RTA_GATEWAY"
    and "length (multipath_note h family m r xs ((flags, ifi, g) # hs)) \<le> BUFFER_SIZE"
  shows "loop rid (Some (multipath_note h family m r xs ((flags, ifi, g) # hs))) =
    Inr [send_next_hop rid (ra_destination ra) (swap32 (NOT (push_bit (32 - unat m) 1 - 1))) g]"
proof -
  let ?nt = "multipath_note h family m r xs ((flags, ifi, g) # hs)"
  let ?buf = "?nt @ replicate (BUFFER_SIZE - length ?nt) 0"
  have "length ?nt < 4096"
    using assms(10) by (simp add: BUFFER_SIZE_def)
  then obtain l where l: "rm32 ?buf 0 = Inr l" "unat l = length ?nt"
      "route_reports ?buf rid 0 l = Inr [send_next_hop rid (ra_destination ra) (swap32 (NOT (push_bit (32 - unat m) 1 - 1))) g]"
    using multipath_reports [OF assms(1-9) refl] by blast
  have "length ?nt = 4 * (12 + 2 * length xs + 4 * length hs)"
    using assms(1,2) by (simp add: multipath_note_def route_note_def)
  then have "16 \<le> length ?nt" "4 dvd length ?nt"
    by simp_all
  then show ?thesis
    using loop_fits [OF assms(10)] message_loop_one [OF l(1,2) _ _ l(3)] by simp
qed

theorem multipath_first_hop_only_witness:
  "loop 1 (Some (multipath_note (replicate 10 0) 2 24 (replicate 10 0) [(RTA_DST, 11)] [(0, 3, 0x0200000A), (0, 4, 0x0300000A)])) =
     Inr [send_next_hop 1 11 (swap32 (NOT 255)) 0x0200000A]"
proof -
  have "fold apply_attr [(RTA_DST, 11)] no_attrs = no_attrs\<lparr>ra_destination := 11\<rparr>"
    by (simp add: apply_attr_def)
  then show ?thesis
    using multipath_first_hop_only [of "replicate 10 0" "replicate 10 0" 24 "[(RTA_DST, 11)]" "no_attrs\<lparr>ra_destination := 11\<rparr>"
        "[(0, 4, 0x0300000A)]" 2 0 3 "0x0200000A" 1]
    by (simp add: no_attrs_def RTA_DST_def RTA_GATEWAY_def RTA_MULTIPATH_def BUFFER_SIZE_def multipath_note_def route_note_def)
qed

subsection \<open>Captured packets\<close>

text \<open>A captured BGP segment is reported exactly if its message opens a session or updates routes.  A
  segment without a whole message header, as every bare acknowledgement is, is read past its end.\<close>

theorem captured_bgp_segment:
  assumes "length sll = 14" "length ip = 20" "ip ! 9 = IP_PROTO_TCP" "length x = 8"
    and "14 + length opts = 4 * unat (drop_bit 12 ctl)" "src = TCP_PORT_BGP \<or> dst = TCP_PORT_BGP"
  shows "capture_cb (sll @ put16 ETH_TYPE_IP @ ip @ put16 src @ put16 dst @ x @ put16 ctl @ opts @ msg) =
    (if 18 < length msg then Inr (msg ! 18 = BGP_UPDATE \<or> msg ! 18 = BGP_OPEN) else Inl Out_Of_Bounds)"
proof -
  define pkt where "pkt = sll @ put16 ETH_TYPE_IP @ ip @ put16 src @ put16 dst @ x @ put16 ctl @ opts @ msg"
  have rd: "rd16 pkt 14 = Inr ETH_TYPE_IP" "rd16 pkt 36 = Inr src" "rd16 pkt 38 = Inr dst" "rd16 pkt (36 + 12) = Inr ctl"
    unfolding pkt_def
    using rd16_put16 [of sll 14 ETH_TYPE_IP] rd16_put16 [of "sll @ put16 ETH_TYPE_IP @ ip" 36 src]
      rd16_put16 [of "sll @ put16 ETH_TYPE_IP @ ip @ put16 src" 38 dst]
      rd16_put16 [of "sll @ put16 ETH_TYPE_IP @ ip @ put16 src @ put16 dst @ x" "36 + 12" ctl] assms(1,2,4) by simp_all
  have proto: "arr_get pkt (16 + 9) = Inr IP_PROTO_TCP"
    using assms(1-3) by (simp add: pkt_def arr_get_def nth_append)
  have "unat (drop_bit 12 ctl) * 4 = 14 + length opts"
    using assms(5) by simp
  then have ty: "arr_get pkt (36 + unat (drop_bit 12 ctl) * 4 + 18) = (if 18 < length msg then Inr (msg ! 18) else Inl Out_Of_Bounds)"
    using assms(1,2,4) by (simp add: pkt_def arr_get_def nth_append)
  have "rbind (if src = TCP_PORT_BGP then Inr True else rbind (rd16 pkt 38) (\<lambda>tcp_dst. Inr (tcp_dst = TCP_PORT_BGP))) k = k True"
    for k :: "bool \<Rightarrow> bool res"
    using assms(6) by (auto simp: rd)
  then have "capture_cb pkt = rbind (arr_get pkt (36 + unat (drop_bit 12 ctl) * 4 + 18)) (\<lambda>ty. Inr (ty = BGP_UPDATE \<or> ty = BGP_OPEN))"
    unfolding capture_cb_def rd proto rbind_simps Let_def by (simp add: IP_PROTO_TCP_def IP_PROTO_OSPF_def)
  then show ?thesis
    unfolding pkt_def [symmetric] ty by simp
qed

theorem captured_bgp_segment_witness:
  "capture_cb (replicate 14 0 @ put16 ETH_TYPE_IP @ (replicate 9 0 @ [IP_PROTO_TCP] @ replicate 10 0) @ put16 179 @ put16 4000 @
     replicate 8 0 @ put16 0x5010 @ replicate 6 0 @ []) = Inl Out_Of_Bounds"
  using captured_bgp_segment [of "replicate 14 0" "replicate 9 0 @ [IP_PROTO_TCP] @ replicate 10 0" "replicate 8 0" "replicate 6 0"
      "0x5010" 179 4000 "[]"] by (simp add: TCP_PORT_BGP_def nth_append)

subsection \<open>What the simulator makes of the reports\<close>

lemma send_activity_msg: "send_activity (swap32 rid) = activity_msg rid"
  by (simp add: send_activity_def activity_msg_def mem32_swap32 HEADER_LEN_def ROUTER_ACTIVITY_def put16_def)

lemma send_next_hop_bytes:
  "send_next_hop (swap32 rid) (swap32 d) (swap32 m) (swap32 g) =
     put16 ROUTER_FIB @ put16 (of_nat (HEADER_LEN + 12 * length [(d, m, g)])) @ put32 rid @ fib_payload [(d, m, g)] @ replicate 4 0"
  by (simp add: send_next_hop_def mem32_swap32 HEADER_LEN_def ROUTER_FIB_def put16_def fib_payload_def)

text \<open>C23: What the daemon sends and the simulator make a pair: an activity report becomes one event for the
  router at the time of the clock, and a route report, given to the router, installs exactly its
  route.  But a route report never gets that far: its copy in the simulator is too short, and reading
  it writes past the end.\<close>

theorem reports_meet_simulator:
  assumes "table_of es (rt (ln r))"
  shows "conn_manager_router_message_cb sch conn_id p cb_init (send_activity (swap32 rid)) =
      Inr (scheduler_insert sch (sim_event_router_in_new p (clock sch) rid conn_id (activity_msg rid) 2048), cb_init) \<and>
    (\<exists>t. router_handle_control_message r (send_next_hop (swap32 rid) (swap32 d) (swap32 m) (swap32 g)) =
       Inr (r\<lparr>ln := (ln r)\<lparr>rt := t\<rparr>\<rparr>, None) \<and> table_of (fib_routes es [(d, m, g)]) t) \<and>
    conn_manager_router_message_cb sch conn_id p cb_init (send_next_hop (swap32 rid) (swap32 d) (swap32 m) (swap32 g)) =
      Inl Out_Of_Bounds"
proof -
  let ?hdr = "put16 ROUTER_FIB @ put16 20 @ put32 rid"
  let ?payload = "put32 d @ put32 m @ put32 g @ replicate 4 0"
  have "hdr_size ?hdr = 20"
    by (simp add: hdr_size_def put16_def ROUTER_FIB_def get16_def)
  then have "conn_manager_router_message_cb sch conn_id p cb_init (?hdr @ ?payload @ []) = Inl Out_Of_Bounds"
    by (intro payload_overflows) (simp_all add: cb_init_def ROUND_UP_def)
  moreover have "?hdr @ ?payload @ [] = send_next_hop (swap32 rid) (swap32 d) (swap32 m) (swap32 g)"
    unfolding send_next_hop_bytes by (simp add: HEADER_LEN_def fib_payload_def)
  ultimately have "conn_manager_router_message_cb sch conn_id p cb_init (send_next_hop (swap32 rid) (swap32 d) (swap32 m) (swap32 g)) =
      Inl Out_Of_Bounds"
    by simp
  moreover have "conn_manager_router_message_cb sch conn_id p cb_init (send_activity (swap32 rid)) =
      Inr (scheduler_insert sch (sim_event_router_in_new p (clock sch) rid conn_id (activity_msg rid) 2048), cb_init)"
    using activities_received [of cb_init sch conn_id p "[rid]"] by (simp add: send_activity_msg cb_init_def activity_event_def)
  ultimately show ?thesis
    using fib_message_adds [OF assms, of "[(d, m, g)]" rid "replicate 4 0"] unfolding send_next_hop_bytes
    by (simp add: HEADER_LEN_def)
qed

theorem reports_meet_simulator_witness:
  "\<exists>t. router_handle_control_message (example_router route_table_init)
     (send_next_hop (swap32 1) (swap32 0x0B000000) (swap32 0xFF000000) (swap32 0x0A000002)) =
       Inr ((example_router route_table_init)\<lparr>ln := (ln (example_router route_table_init))\<lparr>rt := t\<rparr>\<rparr>, None) \<and>
     table_of (fib_routes [] [(0x0B000000, 0xFF000000, 0x0A000002)]) t"
proof -
  have "table_of [] (rt (ln (example_router route_table_init)))"
    by (simp add: example_router_def)
  from reports_meet_simulator [OF this, of scheduler_new 0 0 1 "0x0B000000" "0xFF000000" "0x0A000002"] show ?thesis
    by blast
qed

end
