(* ===== verification/Event_Handler.thy ===== *)
theory Event_Handler
  imports Topology Scheduler Conn_Manager
begin

section \<open>Handling of events (sim/event\_handler)\<close>

text \<open>
  What happens at an event: a node receives or sends a flow, an application starts, a message of a
  controller or daemon is handled.  The flows under way are in the table of live flows.  A live flow
  owns its flow, but the code frees a flow that leaves by an unconnected port while its live flow
  still points to it, and frees the payload that copies of a flow share; the state of a live flow
  records that, and a later access is a use after free.  Events also carry a pointer to their flow
  that no handler reads; it is left out.  A node used as one of another kind is read outside its
  members.

  What depends on the libraries is a parameter: the parser of OpenFlow messages, the bytes of a
  packet-in message and of a reply, and what uninitialised memory holds.
\<close>

subsection \<open>Definitions\<close>

definition OFPP_FLOOD :: u32 where "OFPP_FLOOD = 0xfffffffb"
definition OFPP_CONTROLLER :: u32 where "OFPP_CONTROLLER = 0xfffffffd"
definition OFPR_ACTION :: u8 where "OFPR_ACTION = 1"

record libs =
  of_parse :: "bytes \<Rightarrow> of_object option"
  packet_in_wire :: "of_packet_in \<Rightarrow> bytes"
  reply_wire :: "of_reply \<Rightarrow> bytes"
  ndebug :: bool
  stack :: stack_mem

datatype flow_state = Alive | Payload_Freed | Freed

record live =
  lf :: live_flow
  lf_state :: flow_state

text \<open>The counters behind flow identifiers and addresses are global to the process; the commands
  are those given to the operating system.\<close>

record ev_handler =
  topo :: topology
  sch :: scheduler
  live_flows :: "live list"
  cm :: conn_manager
  next_flow_id :: u64
  next_addr :: addr
  commands :: "command list"

definition add_live_flow :: "ev_handler \<Rightarrow> live_flow \<Rightarrow> ev_handler" where
  "add_live_flow evh l = evh\<lparr>live_flows := HASH_ADD (live_flows evh) \<lparr>lf = l, lf_state = Alive\<rparr>\<rparr>"

definition find_live_flow :: "ev_handler \<Rightarrow> u64 \<Rightarrow> live option" where
  "find_live_flow evh fid = HASH_FIND (flow_id \<circ> lf) (live_flows evh) fid"

definition upd_live :: "ev_handler \<Rightarrow> u64 \<Rightarrow> (live \<Rightarrow> live) \<Rightarrow> ev_handler" where
  "upd_live evh fid f = evh\<lparr>live_flows := hash_update (flow_id \<circ> lf) (live_flows evh) fid f\<rparr>"

text \<open>Destroying a live flow frees its flow and the payload of that.\<close>

definition live_flow_destroy :: "live \<Rightarrow> unit res" where
  "live_flow_destroy l =
     (case lf_state l of
        Alive \<Rightarrow> Inr ()
      | Payload_Freed \<Rightarrow> if payload (lf_flow (lf l)) = None then Inr () else Inl Use_After_Free
      | Freed \<Rightarrow> Inl Use_After_Free)"

definition del_live_flow :: "ev_handler \<Rightarrow> live \<Rightarrow> ev_handler res" where
  "del_live_flow evh l =
     (let evh = evh\<lparr>live_flows := HASH_DEL (flow_id \<circ> lf) (live_flows evh) (flow_id (lf l))\<rparr> in
      rbind (live_flow_destroy l) (\<lambda>_. Inr evh))"

text \<open>The flow of a live flow, read through its pointer.\<close>

definition flow_of_live :: "live \<Rightarrow> netflow res" where
  "flow_of_live l = (if lf_state l = Freed then Inl Use_After_Free else Inr (lf_flow (lf l)))"

definition schedule :: "ev_handler \<Rightarrow> (addr \<Rightarrow> sim_event) \<Rightarrow> ev_handler" where
  "schedule evh mk = evh\<lparr>sch := scheduler_insert (sch evh) (mk (next_addr evh)), next_addr := next_addr evh + 1\<rparr>"

definition set_flow_id :: "u64 \<Rightarrow> sim_event \<Rightarrow> sim_event" where
  "set_flow_id fid ev =
     ev\<lparr>ev_body := (case ev_body ev of
        Flow_Recv b \<Rightarrow> Flow_Recv (b\<lparr>recv_flow_id := Some fid\<rparr>)
      | Flow_Send b \<Rightarrow> Flow_Send (b\<lparr>send_flow_id := Some fid\<rparr>)
      | other \<Rightarrow> other)\<rparr>"

definition flow_rate :: "netflow \<Rightarrow> int" where
  "flow_rate nf = (let bits = uint (byte_cnt nf div 125) in if bits > INT_MAX then INT_MAX else bits)"

text \<open>The calls through the function pointers of a node.\<close>

definition recv_netflow :: "net_node \<Rightarrow> netflow \<Rightarrow> (net_node \<times> netflow option) res" where
  "recv_netflow n nf =
     (case n of
        Dp dp \<Rightarrow> rbind (dp_recv_netflow dp nf) (\<lambda>(dp, nf, sent). Inr (Dp dp, if sent then Some nf else None))
      | Rt r \<Rightarrow> rbind (router_recv_netflow r nf) (\<lambda>(r, nf). Inr (Rt r, nf))
      | Ht h \<Rightarrow> rbind (host_recv_netflow h nf) (\<lambda>(h, nf). Inr (Ht h, nf)))"

definition send_netflow :: "net_node \<Rightarrow> netflow \<Rightarrow> u32 \<Rightarrow> net_node" where
  "send_netflow n nf out_port =
     (case n of
        Dp dp \<Rightarrow> Dp (dp_send_netflow dp nf out_port)
      | Rt r \<Rightarrow> Rt (router_send_netflow r nf out_port)
      | Ht h \<Rightarrow> Ht (host_send_netflow h nf out_port))"

definition as_dp :: "net_node \<Rightarrow> datapath res" where
  "as_dp n = (case n of Dp dp \<Rightarrow> Inr dp | _ \<Rightarrow> Inl Out_Of_Bounds)"

definition as_host :: "net_node \<Rightarrow> host res" where
  "as_host n = (case n of Ht h \<Rightarrow> Inr h | _ \<Rightarrow> Inl Out_Of_Bounds)"

text \<open>A flow for the controller: the payload of an LLDP flow is read.\<close>

definition packet_in :: "libs \<Rightarrow> ev_handler \<Rightarrow> net_node \<Rightarrow> netflow \<Rightarrow> bool \<Rightarrow> (ev_handler \<times> netflow) res" where
  "packet_in lib evh n nf payload_freed =
     rbind (as_dp n) (\<lambda>dp.
       let nf = nf\<lparr>nf_meta := (nf_meta nf)\<lparr>meta_reason := OFPR_ACTION\<rparr>\<rparr> in
       if payload_freed \<and> eth_type (nf_match nf) = ETH_TYPE_LLDP then Inl Use_After_Free
       else rbind (pack_packet_in nf) (\<lambda>msg.
         let data = packet_in_wire lib msg in
         Inr (schedule evh (\<lambda>p. sim_event_of_msg_out_new p (start_time nf) (dp_id dp) data (length data)), nf)))"

text \<open>A flow to a port: the load of the port grows, and the flow is sent when it is transmitted.\<close>

definition send_later :: "ev_handler \<Rightarrow> net_node \<Rightarrow> netflow \<Rightarrow> u64 \<Rightarrow> u32 \<Rightarrow> (ev_handler \<times> net_node \<times> netflow) res" where
  "send_later evh n nf fid op =
     rbind (node_update_port_capacity (node_of n) (flow_rate nf) op) (\<lambda>b.
     let n = set_node_of b n in
     rbind (node_add_tx_time (node_of n) op nf) (\<lambda>nf.
       Inr (schedule evh (\<lambda>p. set_flow_id fid (sim_event_flow_send_new p (start_time nf) (nuuid n) op)), n, nf)))"

text \<open>The loop over the output ports.  Every port that has been handled is taken off the list, so
  that the loop always stands at its head, and a flood replaces itself by the ports of the switch at
  the end of the list.  A switch with a port numbered like the flood would loop for ever:
  \<^term>\<open>None\<close>.\<close>

partial_function (option) after_recv_loop ::
  "libs \<Rightarrow> ev_handler \<Rightarrow> net_node \<Rightarrow> netflow \<Rightarrow> u64 \<Rightarrow> bool \<Rightarrow> (ev_handler \<times> net_node \<times> netflow) res option" where
  "after_recv_loop lib evh n nf fid payload_freed =
     (case out_ports nf of
        [] \<Rightarrow> Some (Inr (evh, n, nf))
      | op # ops \<Rightarrow>
          if op = OFPP_CONTROLLER then
            (case packet_in lib evh n nf payload_freed of
               Inl e \<Rightarrow> Some (Inl e)
             | Inr (evh, nf) \<Rightarrow> after_recv_loop lib evh n (nf\<lparr>out_ports := ops\<rparr>) fid payload_freed)
          else if op = OFPP_FLOOD then
            (case as_dp n of
               Inl e \<Rightarrow> Some (Inl e)
             | Inr dp \<Rightarrow> after_recv_loop lib evh n (dp_create_flood dp (nf\<lparr>out_ports := ops\<rparr>)) fid payload_freed)
          else
            (case send_later evh n nf fid op of
               Inl e \<Rightarrow> Some (Inl e)
             | Inr (evh, n, nf) \<Rightarrow> after_recv_loop lib evh n (nf\<lparr>out_ports := ops\<rparr>) fid payload_freed))"

definition returned :: "'a res option \<Rightarrow> 'a res" where
  "returned r = (case r of None \<Rightarrow> Inl Diverges | Some x \<Rightarrow> x)"

definition handle_after_flow_recv ::
  "libs \<Rightarrow> ev_handler \<Rightarrow> net_node \<Rightarrow> netflow \<Rightarrow> u64 \<Rightarrow> bool \<Rightarrow> (ev_handler \<times> netflow) res" where
  "handle_after_flow_recv lib evh n nf fid payload_freed =
     rbind (returned (after_recv_loop lib evh n nf fid payload_freed)) (\<lambda>(evh, n, nf).
       Inr (evh\<lparr>topo := put_node (topo evh) n\<rparr>, nf))"

text \<open>The flow of a live flow is replaced by the one the node returned; a flow without payload has
  no payload that could have been freed.\<close>

definition set_live_flow :: "netflow \<Rightarrow> live \<Rightarrow> live" where
  "set_live_flow nf l =
     l\<lparr>lf := (lf l)\<lparr>lf_flow := nf\<rparr>, lf_state := (if payload nf = None then Alive else lf_state l)\<rparr>"

definition handle_recv_netflow :: "libs \<Rightarrow> ev_handler \<Rightarrow> flow_recv \<Rightarrow> ev_handler res" where
  "handle_recv_netflow lib evh ev =
     rbind (case recv_flow_id ev of None \<Rightarrow> Inl Uninitialised | Some fid \<Rightarrow> Inr fid) (\<lambda>fid.
       case (topology_node (topo evh) (recv_node_id ev), find_live_flow evh fid) of
         (Some n, Some l) \<Rightarrow>
           rbind (flow_of_live l) (\<lambda>flow.
           rbind (recv_netflow n flow) (\<lambda>(n, nf).
             let evh = evh\<lparr>topo := put_node (topo evh) n\<rparr> in
             case nf of
               Some nf \<Rightarrow>
                 rbind (handle_after_flow_recv lib evh n nf fid (lf_state l = Payload_Freed)) (\<lambda>(evh, nf).
                   Inr (upd_live evh fid (set_live_flow nf)))
             | None \<Rightarrow> del_live_flow evh l))
       | _ \<Rightarrow> Inr evh)"

text \<open>The next execution of the application behind a flow that leaves its host.\<close>

definition schedule_next_exec :: "ev_handler \<Rightarrow> net_node \<Rightarrow> netflow \<Rightarrow> ev_handler" where
  "schedule_next_exec evh n nf =
     (case n of
        Ht h \<Rightarrow>
          (case HASH_FIND ex_id (host_execs h) (exec_id nf) of
             None \<Rightarrow> evh
           | Some x \<Rightarrow>
               if exec_cnt x \<noteq> 0 then
                 let start = start_time nf + 1000000;
                     h = h\<lparr>execs := hash_update ex_id (execs h) (exec_id nf) (\<lambda>x. x\<lparr>ex_start_time := start\<rparr>)\<rparr>;
                     evh = evh\<lparr>topo := put_node (topo evh) (Ht h)\<rparr>
                 in schedule evh (\<lambda>p. sim_event_app_start_new p start (nuuid n) (ex_addr x))
               else evh)
      | _ \<Rightarrow> evh)"

definition handle_after_flow_send :: "ev_handler \<Rightarrow> net_node \<Rightarrow> u32 \<Rightarrow> netflow \<Rightarrow> u64 \<Rightarrow> ev_handler" where
  "handle_after_flow_send evh n out_port nf fid =
     (let evh = schedule_next_exec evh n nf in
      case topology_next_hop (topo evh) (nuuid n) out_port of
        Some (dst_uuid, dst_port, latency) \<Rightarrow>
          let rate = flow_rate nf;
              nf = upd_match (\<lambda>m. m\<lparr>in_port := dst_port\<rparr>) (nf\<lparr>start_time := start_time nf + ucast latency\<rparr>);
              evh = upd_live evh fid (\<lambda>l. l\<lparr>lf := (lf l)\<lparr>lf_flow := nf\<rparr>\<rparr>)
          in schedule evh (\<lambda>p. set_flow_id fid (sim_event_flow_recv_new p (start_time nf) dst_uuid (word_of_int rate)))
      | None \<Rightarrow> upd_live evh fid (\<lambda>l. l\<lparr>lf_state := Freed\<rparr>))"

text \<open>Freeing a flow whose payload has been freed is a second free of the payload.\<close>

definition send_frees_twice :: "ev_handler \<Rightarrow> net_node \<Rightarrow> u32 \<Rightarrow> live \<Rightarrow> bool" where
  "send_frees_twice evh n out_port l \<longleftrightarrow>
     topology_next_hop (topo evh) (nuuid n) out_port = None \<and> lf_state l = Payload_Freed \<and> payload (lf_flow (lf l)) \<noteq> None"

definition handle_send_netflow :: "ev_handler \<Rightarrow> flow_send \<Rightarrow> ev_handler res" where
  "handle_send_netflow evh ev =
     rbind (case send_flow_id ev of None \<Rightarrow> Inl Uninitialised | Some fid \<Rightarrow> Inr fid) (\<lambda>fid.
       case (topology_node (topo evh) (send_node_id ev), find_live_flow evh fid) of
         (Some n, Some l) \<Rightarrow>
           rbind (flow_of_live l) (\<lambda>nf.
             let op = send_out_port ev; loss = node_calculate_port_loss (node_of n) nf op in
             rbind (node_update_port_capacity (node_of n) (- flow_rate nf) op) (\<lambda>b.
               let n = set_node_of b n in
               if loss \<noteq> 0 then Inr (evh\<lparr>topo := put_node (topo evh) n\<rparr>)
               else
                 let n = send_netflow n nf op; evh = evh\<lparr>topo := put_node (topo evh) n\<rparr> in
                 if send_frees_twice evh n op l then Inl Use_After_Free
                 else Inr (handle_after_flow_send evh n op nf fid)))
       | _ \<Rightarrow> Inr evh)"

definition handle_packet :: "ev_handler \<Rightarrow> ev_handler" where
  "handle_packet evh = evh"

definition handle_port :: "ev_handler \<Rightarrow> ev_handler" where
  "handle_port evh = evh"

text \<open>A copy of a flow becomes a live flow of its own that leaves by the port \<open>op\<close>; \<open>early\<close> tells
  whether the event is set to the time before the transmission, as for the flows of a controller.\<close>

definition launch_copy :: "ev_handler \<Rightarrow> net_node \<Rightarrow> netflow \<Rightarrow> u32 \<Rightarrow> bool \<Rightarrow> ev_handler res" where
  "launch_copy evh n nf op early =
     (let new = netflow_new_from_netflow nf; (l, next) = live_flow_new (next_flow_id evh) (nuuid n) new in
      rbind (node_add_tx_time (node_of n) op new) (\<lambda>new.
        let new = new\<lparr>out_ports := []\<rparr>;
            evh = add_live_flow (evh\<lparr>next_flow_id := next\<rparr>) (l\<lparr>lf_flow := new\<rparr>);
            time = (if early then start_time nf else start_time new)
        in Inr (schedule evh (\<lambda>p. set_flow_id (flow_id l) (sim_event_flow_send_new p time (nuuid n) op)))))"

partial_function (option) of_in_loop ::
  "ev_handler \<Rightarrow> datapath \<Rightarrow> netflow \<Rightarrow> ev_handler res option" where
  "of_in_loop evh dp nf =
     (case out_ports nf of
        [] \<Rightarrow> Some (Inr evh)
      | op # ops \<Rightarrow>
          if op = OFPP_FLOOD then of_in_loop evh dp (dp_create_flood dp (nf\<lparr>out_ports := ops\<rparr>))
          else
            (case launch_copy evh (Dp dp) nf op True of
               Inl e \<Rightarrow> Some (Inl e)
             | Inr evh \<Rightarrow> of_in_loop evh dp (nf\<lparr>out_ports := ops\<rparr>)))"

text \<open>The payload of the flow is freed with it, under the copies that were launched.\<close>

definition free_shared_payload :: "u64 \<Rightarrow> netflow \<Rightarrow> ev_handler \<Rightarrow> ev_handler" where
  "free_shared_payload first nf evh =
     (if payload nf = None then evh
      else evh\<lparr>live_flows := map (\<lambda>l. if first \<le> flow_id (lf l) then l\<lparr>lf_state := Payload_Freed\<rparr> else l) (live_flows evh)\<rparr>)"

definition handle_of_in :: "libs \<Rightarrow> ev_handler \<Rightarrow> u64 \<Rightarrow> fti_of \<Rightarrow> ev_handler res" where
  "handle_of_in lib evh time ev =
     (case topology_datapath_by_dpid (topo evh) (of_dp_id ev) of
        None \<Rightarrow> Inl Null_Deref
      | Some dp \<Rightarrow>
          rbind (dp_control_handle_control_msg (of_parse lib) (ndebug lib) (stack lib) dp
              (take (of_len ev) (of_data ev)) netflow_new time) (\<lambda>(dp, nf, ret).
          let first = next_flow_id evh; evh = evh\<lparr>topo := put_node (topo evh) (Dp dp)\<rparr> in
          rbind (returned (of_in_loop evh dp nf)) (\<lambda>evh.
            let evh = (case ret of
                         None \<Rightarrow> evh
                       | Some reply \<Rightarrow>
                           let msg = reply_wire lib reply in
                           schedule evh (\<lambda>p. sim_event_of_msg_out_new p time (dp_id dp) msg (length msg)))
            in Inr (free_shared_payload first nf evh))))"

definition handle_of_out :: "ev_handler \<Rightarrow> fti_of \<Rightarrow> ev_handler" where
  "handle_of_out evh ev = evh\<lparr>cm := conn_manager_send_of (cm evh) (of_dp_id ev) (of_data ev) (of_len ev)\<rparr>"

definition handle_router_in :: "ev_handler \<Rightarrow> fti_router \<Rightarrow> ev_handler res" where
  "handle_router_in evh ev =
     (case topology_router_by_id (topo evh) (rt_router_id ev) of
        Some r \<Rightarrow>
          rbind (router_handle_control_message r (rt_data ev)) (\<lambda>(r, ret).
            let evh = evh\<lparr>topo := put_node (topo evh) (Rt r)\<rparr> in
            case ret of
              None \<Rightarrow> Inr evh
            | Some data \<Rightarrow> Inr (evh\<lparr>cm := conn_manager_send_routing (cm evh) (rt_conn_id ev) data (length data)\<rparr>))
      | None \<Rightarrow> rbind (rd8 (rt_data ev) 1) (\<lambda>_. Inr evh))"

definition handle_router_out :: "ev_handler \<Rightarrow> ev_handler" where
  "handle_router_out evh = evh"

definition handle_router_config :: "ev_handler \<Rightarrow> fti_router_config \<Rightarrow> ev_handler res" where
  "handle_router_config evh ev =
     (case topology_router_by_id (topo evh) (cfg_router_id ev) of
        None \<Rightarrow> Inr evh
      | Some r \<Rightarrow>
          rbind (router_change_daemon_config r (cfg_cmd ev) (cfg_proto ev)) (\<lambda>cmds.
            Inr (evh\<lparr>commands := commands evh @ cmds\<rparr>)))"

text \<open>The flow of an application leaves by each of its ports as a copy.\<close>

fun start_app_loop :: "ev_handler \<Rightarrow> net_node \<Rightarrow> netflow \<Rightarrow> u32 list \<Rightarrow> ev_handler res" where
  "start_app_loop evh n nf [] = Inr evh"
| "start_app_loop evh n nf (op # ops) =
     rbind (launch_copy evh n nf op False) (\<lambda>evh. start_app_loop evh n nf ops)"

text \<open>The execution an event refers to is one of its host; it is written through the pointer.\<close>

definition handle_start_app :: "ev_handler \<Rightarrow> app_start \<Rightarrow> ev_handler res" where
  "handle_start_app evh ev =
     (case topology_node (topo evh) (start_node_id ev) of
        None \<Rightarrow> Inr evh
      | Some n \<Rightarrow>
          rbind (as_host n) (\<lambda>h.
            case HASH_FIND ex_addr (execs h) (start_exec ev) of
              None \<Rightarrow> Inl Use_After_Free
            | Some x \<Rightarrow>
                rbind (host_execute_app h x) (\<lambda>(h, x, nf).
                  let h = h\<lparr>execs := hash_update ex_addr (execs h) (start_exec ev) (\<lambda>_. x)\<rparr>;
                      evh = evh\<lparr>topo := put_node (topo evh) (Ht h)\<rparr> in
                  case nf of
                    None \<Rightarrow> Inr evh
                  | Some nf \<Rightarrow> start_app_loop evh (Ht h) nf (out_ports nf))))"

text \<open>The handlers are called through arrays indexed by the type and the subtype of the event.\<close>

definition FTI_EVENTS_NUM :: nat where "FTI_EVENTS_NUM = 5"
definition EVENTS_NUM :: nat where "EVENTS_NUM = 6"

definition handle_fti :: "libs \<Rightarrow> ev_handler \<Rightarrow> sim_event \<Rightarrow> ev_handler res" where
  "handle_fti lib evh ev =
     (case ev_body ev of
        Fti_Of b \<Rightarrow>
          if of_subtype b = EVENT_OF_MSG_IN then handle_of_in lib evh (ev_time ev) b
          else if of_subtype b = EVENT_OF_MSG_OUT then Inr (handle_of_out evh b)
          else Inl Out_Of_Bounds
      | Fti_Router b \<Rightarrow>
          if rt_subtype b = EVENT_ROUTER_IN then handle_router_in evh b
          else if rt_subtype b = EVENT_ROUTER_OUT then Inr (handle_router_out evh)
          else Inl Out_Of_Bounds
      | Fti_Router_Config b \<Rightarrow>
          if cfg_subtype b = EVENT_ROUTER_CONFIG then handle_router_config evh b else Inl Out_Of_Bounds
      | _ \<Rightarrow> Inl Out_Of_Bounds)"

definition handle_event :: "libs \<Rightarrow> ev_handler \<Rightarrow> sim_event \<Rightarrow> ev_handler res" where
  "handle_event lib evh ev =
     (case ev_type ev of
        None \<Rightarrow> Inl Uninitialised
      | Some t \<Rightarrow>
          if t = EVENT_PACKET then Inr (handle_packet evh)
          else if t = EVENT_PORT then Inr (handle_port evh)
          else if t = EVENT_FTI then handle_fti lib evh ev
          else
            (case ev_body ev of
               Flow_Recv b \<Rightarrow> if t = EVENT_FLOW_RECV then handle_recv_netflow lib evh b else Inl Out_Of_Bounds
             | Flow_Send b \<Rightarrow> if t = EVENT_FLOW_SEND then handle_send_netflow evh b else Inl Out_Of_Bounds
             | App_Start b \<Rightarrow> if t = EVENT_APP_START then handle_start_app evh b else Inl Out_Of_Bounds
             | _ \<Rightarrow> Inl Out_Of_Bounds))"

subsection \<open>The loops return\<close>

definition flood_ports :: "datapath \<Rightarrow> netflow \<Rightarrow> u32 list" where
  "flood_ports dp nf = filter (\<lambda>p. p \<noteq> in_port (nf_match nf)) (map port_id (dp_ports dp))"

lemma dp_create_flood_eq: "dp_create_flood dp nf = nf\<lparr>out_ports := out_ports nf @ flood_ports dp nf\<rparr>"
proof -
  have "fold (\<lambda>p nf. if port_id p \<noteq> in_port (nf_match nf) then netflow_add_out_port nf (port_id p) else nf) ps nf =
      nf\<lparr>out_ports := out_ports nf @ filter (\<lambda>p. p \<noteq> in_port (nf_match nf)) (map port_id ps)\<rparr>" for ps
    by (induction ps arbitrary: nf) (simp_all add: netflow_add_out_port_def LL_APPEND_def)
  then show ?thesis
    unfolding dp_create_flood_def flood_ports_def by blast
qed

text \<open>The shape of a node: what no event changes.\<close>

fun node_kind :: "net_node \<Rightarrow> u16" where
  "node_kind (Dp _) = DATAPATH"
| "node_kind (Rt _) = ROUTER"
| "node_kind (Ht _) = HOST"

definition port_ids :: "node \<Rightarrow> u32 list" where
  "port_ids n = map port_id (ports n)"

definition shape :: "net_node \<Rightarrow> u16 \<times> u64 \<times> u32 list" where
  "shape n = (node_kind n, nuuid n, port_ids (node_of n))"

lemma node_kind_set_node_of [simp]: "node_kind (set_node_of b n) = node_kind n"
  by (cases n) simp_all

lemma as_dp_kind: "node_kind n = DATAPATH \<Longrightarrow> \<exists>dp. n = Dp dp"
  by (cases n) (simp_all add: DATAPATH_def ROUTER_def HOST_def)

text \<open>The ports the loop visits: those of the list without the floods, and then the ports of the
  switch once for every flood.\<close>

definition floods :: "net_node \<Rightarrow> netflow \<Rightarrow> u32 list" where
  "floods n nf = filter (\<lambda>p. p \<noteq> in_port (nf_match nf)) (port_ids (node_of n))"

definition visited :: "net_node \<Rightarrow> netflow \<Rightarrow> u32 list" where
  "visited n nf =
     filter (\<lambda>p. p \<noteq> OFPP_FLOOD) (out_ports nf) @
     concat (replicate (count_list (out_ports nf) OFPP_FLOOD) (floods n nf))"

fun visit :: "libs \<Rightarrow> ev_handler \<Rightarrow> net_node \<Rightarrow> netflow \<Rightarrow> u64 \<Rightarrow> bool \<Rightarrow> u32 list \<Rightarrow> (ev_handler \<times> net_node \<times> netflow) res" where
  "visit lib evh n nf fid payload_freed [] = Inr (evh, n, nf\<lparr>out_ports := []\<rparr>)"
| "visit lib evh n nf fid payload_freed (op # ops) =
     (if op = OFPP_CONTROLLER then
        rbind (packet_in lib evh n nf payload_freed) (\<lambda>(evh, nf). visit lib evh n nf fid payload_freed ops)
      else
        rbind (send_later evh n nf fid op) (\<lambda>(evh, n, nf). visit lib evh n nf fid payload_freed ops))"

lemma netflow_to_pkt_out_ports: "netflow_to_pkt (nf\<lparr>out_ports := x\<rparr>) = netflow_to_pkt nf"
proof -
  have f: "nf_match (nf\<lparr>out_ports := x\<rparr>) = nf_match nf" "tags (nf\<lparr>out_ports := x\<rparr>) = tags nf"
      "payload (nf\<lparr>out_ports := x\<rparr>) = payload nf" "payload_len (nf\<lparr>out_ports := x\<rparr>) = payload_len nf"
      "icmp_info (nf\<lparr>out_ports := x\<rparr>) = icmp_info nf"
    by simp_all
  show ?thesis
    unfolding netflow_to_pkt_def tags_to_pkt_def tags_empty_def l4_to_pkt_def f by (rule refl)
qed

lemma pack_packet_in_out_ports: "pack_packet_in (nf\<lparr>out_ports := x\<rparr>) = pack_packet_in nf"
  by (simp add: pack_packet_in_def netflow_to_match_def netflow_to_pkt_out_ports Let_def)

lemma packet_in_out_ports:
  "packet_in lib evh n (nf\<lparr>out_ports := x\<rparr>) payload_freed =
     rbind (packet_in lib evh n nf payload_freed) (\<lambda>(evh, nf). Inr (evh, nf\<lparr>out_ports := x\<rparr>))"
proof -
  have "pack_packet_in (nf\<lparr>out_ports := x, nf_meta := m\<rparr>) = pack_packet_in (nf\<lparr>nf_meta := m\<rparr>)" for m
    unfolding pack_packet_in_out_ports [where nf = "nf\<lparr>nf_meta := m\<rparr>" and x = x, symmetric]
    by (rule arg_cong [where f = pack_packet_in]) simp
  then show ?thesis
    by (cases "as_dp n"; cases "pack_packet_in (nf\<lparr>nf_meta := nf_meta nf\<lparr>meta_reason := OFPR_ACTION\<rparr>\<rparr>)")
      (simp_all add: packet_in_def Let_def)
qed

lemma node_add_tx_time_out_ports:
  "node_add_tx_time b op (nf\<lparr>out_ports := x\<rparr>) = rbind (node_add_tx_time b op nf) (\<lambda>nf. Inr (nf\<lparr>out_ports := x\<rparr>))"
proof (cases "node_port b op")
  case (Some p)
  define per_us where "per_us = (p_curr_speed p * 1000) div 1000000"
  show ?thesis
    unfolding node_add_tx_time_def netflow_update_send_time_def Let_def Some option.case per_us_def [symmetric]
    by simp
qed (simp add: node_add_tx_time_def)

lemma flow_rate_out_ports: "flow_rate (nf\<lparr>out_ports := x\<rparr>) = flow_rate nf"
proof -
  have "byte_cnt (nf\<lparr>out_ports := x\<rparr>) = byte_cnt nf"
    by simp
  then show ?thesis
    unfolding flow_rate_def by (simp only:)
qed

lemma send_later_out_ports:
  "send_later evh n (nf\<lparr>out_ports := x\<rparr>) fid op =
     rbind (send_later evh n nf fid op) (\<lambda>(evh, n, nf). Inr (evh, n, nf\<lparr>out_ports := x\<rparr>))"
proof (cases "node_update_port_capacity (node_of n) (flow_rate nf) op")
  case (Inr b)
  show ?thesis
    unfolding send_later_def flow_rate_out_ports Inr rbind_simps Let_def node_add_tx_time_out_ports
    by (cases "node_add_tx_time (node_of (set_node_of b n)) op nf") simp_all
qed (simp add: send_later_def flow_rate_out_ports)

lemma visit_out_ports:
  "visit lib evh n (nf\<lparr>out_ports := x\<rparr>) fid payload_freed ops = visit lib evh n nf fid payload_freed ops"
proof (induction ops arbitrary: evh n nf x)
  case (Cons op ops)
  show ?case
    by (cases "packet_in lib evh n nf payload_freed"; cases "send_later evh n nf fid op")
      (auto simp: packet_in_out_ports send_later_out_ports Cons.IH)
qed simp

lemma node_update_port_capacity_shape:
  "node_update_port_capacity n r p = Inr n' \<Longrightarrow> uuid n' = uuid n \<and> port_ids n' = port_ids n \<and> flow_buff n' = flow_buff n"
  by (auto simp: node_update_port_capacity_def port_ids_def upd_port_def map_hash_update split: option.splits)

lemma node_add_tx_time_fields:
  assumes "node_add_tx_time n p nf = Inr nf'"
  shows "\<exists>t. nf' = nf\<lparr>start_time := t\<rparr>"
proof (cases "node_port n p")
  case None
  then show ?thesis
    using assms by (intro exI [of _ "start_time nf"]) (simp add: node_add_tx_time_def)
next
  case (Some q)
  define per_us where "per_us = (p_curr_speed q * 1000) div 1000000"
  have "(if per_us = 0 then Inl Div_By_Zero
      else Inr (nf\<lparr>start_time := start_time nf + (byte_cnt nf * 8) div ucast per_us\<rparr>)) = (Inr nf' :: netflow res)"
    using assms unfolding node_add_tx_time_def Some option.case netflow_update_send_time_def Let_def per_us_def .
  then show ?thesis
    by (cases "per_us = 0") auto
qed

lemma send_later_keeps:
  assumes "send_later evh n nf fid op = Inr (evh', n', nf')"
  shows "shape n' = shape n" "nf_match nf' = nf_match nf" "out_ports nf' = out_ports nf"
  using assms by (auto simp: send_later_def shape_def nuuid_def Let_def
      dest!: node_update_port_capacity_shape node_add_tx_time_fields)

lemma packet_in_keeps:
  assumes "packet_in lib evh n nf payload_freed = Inr (evh', nf')"
  shows "nf_match nf' = nf_match nf" "out_ports nf' = out_ports nf"
  using assms by (auto simp: packet_in_def Let_def split: if_splits)

lemma visited_Cons:
  "out_ports nf = op # ops \<Longrightarrow> op \<noteq> OFPP_FLOOD \<Longrightarrow> shape n' = shape n \<Longrightarrow> nf_match nf' = nf_match nf \<Longrightarrow>
     visited n nf = op # visited n' (nf'\<lparr>out_ports := ops\<rparr>)"
  by (simp add: visited_def floods_def shape_def)

lemma visited_flood:
  assumes "out_ports nf = OFPP_FLOOD # ops" "OFPP_FLOOD \<notin> set (port_ids (dp_base dp))"
  shows "visited (Dp dp) nf = visited (Dp dp) (dp_create_flood dp (nf\<lparr>out_ports := ops\<rparr>))"
proof -
  have "flood_ports dp (nf\<lparr>out_ports := ops\<rparr>) = floods (Dp dp) nf"
    by (simp add: flood_ports_def floods_def port_ids_def dp_ports_def)
  moreover have "OFPP_FLOOD \<notin> set (floods (Dp dp) nf)"
    using assms(2) by (simp add: floods_def)
  moreover from this have "filter (\<lambda>p. p \<noteq> OFPP_FLOOD) (floods (Dp dp) nf) = floods (Dp dp) nf"
      "count_list (floods (Dp dp) nf) OFPP_FLOOD = 0"
    by (metis (mono_tags, lifting) filter_True, simp)
  ultimately show ?thesis
    using assms(1) by (simp add: dp_create_flood_eq visited_def floods_def)
qed

text \<open>The loop is a pass over the ports it visits, whatever the switch and the floods are, as long as
  only switches flood and no port is numbered like a flood.\<close>

lemma after_recv_loop_visits:
  assumes "OFPP_FLOOD \<in> set (out_ports nf) \<Longrightarrow> node_kind n = DATAPATH" "OFPP_FLOOD \<notin> set (port_ids (node_of n))"
  shows "after_recv_loop lib evh n nf fid payload_freed = Some (visit lib evh n nf fid payload_freed (visited n nf))"
  using assms
proof (induction "(count_list (out_ports nf) OFPP_FLOOD, length (out_ports nf))" arbitrary: evh n nf
    rule: wf_induct_rule [OF wf_lex_prod [OF wf_less_than wf_less_than]])
  case 1
  note IH = 1(1) and kind = 1(2) and ports = 1(3)
  show ?case
  proof (cases "out_ports nf")
    case Nil
    then have "nf\<lparr>out_ports := []\<rparr> = nf"
      by simp
    then show ?thesis
      using Nil by (simp add: after_recv_loop.simps visited_def)
  next
    case (Cons op ops)
    consider (flood) "op = OFPP_FLOOD" | (ctrl) "op \<noteq> OFPP_FLOOD" "op = OFPP_CONTROLLER"
      | (port) "op \<noteq> OFPP_FLOOD" "op \<noteq> OFPP_CONTROLLER"
      by blast
    then show ?thesis
    proof cases
      case flood
      then obtain dp where n: "n = Dp dp"
        using kind Cons as_dp_kind by auto
      let ?nf = "dp_create_flood dp (nf\<lparr>out_ports := ops\<rparr>)"
      have fresh: "OFPP_FLOOD \<notin> set (flood_ports dp (nf\<lparr>out_ports := ops\<rparr>))"
        using ports n by (simp add: flood_ports_def port_ids_def dp_ports_def)
      have "after_recv_loop lib evh n ?nf fid payload_freed = Some (visit lib evh n ?nf fid payload_freed (visited n ?nf))"
        by (rule IH) (use Cons flood ports kind n fresh in \<open>simp_all add: dp_create_flood_eq\<close>)
      moreover have "visit lib evh n ?nf fid payload_freed vs = visit lib evh n nf fid payload_freed vs" for vs
        by (simp add: dp_create_flood_eq visit_out_ports)
      moreover have "visited n nf = visited n ?nf"
        using visited_flood [of nf ops dp] Cons flood ports n by simp
      ultimately show ?thesis
        using Cons flood n by (subst after_recv_loop.simps) (simp add: as_dp_def OFPP_FLOOD_def OFPP_CONTROLLER_def)
    next
      case ctrl
      show ?thesis
      proof (cases "packet_in lib evh n nf payload_freed")
        case (Inl e)
        then show ?thesis
          using Cons ctrl visited_Cons [of nf op ops n n nf] by (subst after_recv_loop.simps) simp
      next
        case (Inr r)
        obtain evh' nf' where r: "packet_in lib evh n nf payload_freed = Inr (evh', nf')"
          using Inr by (cases r) simp
        have "after_recv_loop lib evh' n (nf'\<lparr>out_ports := ops\<rparr>) fid payload_freed =
            Some (visit lib evh' n (nf'\<lparr>out_ports := ops\<rparr>) fid payload_freed (visited n (nf'\<lparr>out_ports := ops\<rparr>)))"
          by (rule IH) (use Cons ctrl ports kind in auto)
        then show ?thesis
          using Cons ctrl r visited_Cons [of nf op ops n n nf'] packet_in_keeps [OF r]
          by (subst after_recv_loop.simps) (simp add: visit_out_ports)
      qed
    next
      case port
      show ?thesis
      proof (cases "send_later evh n nf fid op")
        case (Inl e)
        then show ?thesis
          using Cons port visited_Cons [of nf op ops n n nf] by (subst after_recv_loop.simps) simp
      next
        case (Inr r)
        obtain evh' n' nf' where r: "send_later evh n nf fid op = Inr (evh', n', nf')"
          using Inr by (cases r) simp
        have "after_recv_loop lib evh' n' (nf'\<lparr>out_ports := ops\<rparr>) fid payload_freed =
            Some (visit lib evh' n' (nf'\<lparr>out_ports := ops\<rparr>) fid payload_freed (visited n' (nf'\<lparr>out_ports := ops\<rparr>)))"
          by (rule IH) (use Cons port ports kind send_later_keeps(1) [OF r] in \<open>auto simp: shape_def\<close>)
        then show ?thesis
          using Cons port r visited_Cons [of nf op ops n' n nf'] send_later_keeps [OF r]
          by (subst after_recv_loop.simps) (simp add: visit_out_ports)
      qed
    qed
  qed
qed

lemma launch_copy_out_ports: "launch_copy evh n (nf\<lparr>out_ports := x\<rparr>) op early = launch_copy evh n nf op early"
  unfolding launch_copy_def netflow_new_from_netflow_def live_flow_new_def node_add_tx_time_out_ports Let_def
  by (cases "node_add_tx_time (node_of n) op nf") simp_all

lemma of_in_loop_visits:
  assumes "OFPP_FLOOD \<notin> set (port_ids (dp_base dp))"
  shows "of_in_loop evh dp nf = Some (rfold (\<lambda>evh op. launch_copy evh (Dp dp) nf op True) evh (visited (Dp dp) nf))"
proof (induction "(count_list (out_ports nf) OFPP_FLOOD, length (out_ports nf))" arbitrary: evh nf
    rule: wf_induct_rule [OF wf_lex_prod [OF wf_less_than wf_less_than]])
  case 1
  note IH = 1
  show ?case
  proof (cases "out_ports nf")
    case Nil
    then show ?thesis
      by (simp add: of_in_loop.simps visited_def)
  next
    case (Cons op ops)
    show ?thesis
    proof (cases "op = OFPP_FLOOD")
      case True
      let ?nf = "dp_create_flood dp (nf\<lparr>out_ports := ops\<rparr>)"
      have "OFPP_FLOOD \<notin> set (flood_ports dp (nf\<lparr>out_ports := ops\<rparr>))"
        using assms by (simp add: flood_ports_def port_ids_def dp_ports_def)
      then have "of_in_loop evh dp ?nf = Some (rfold (\<lambda>evh op. launch_copy evh (Dp dp) ?nf op True) evh (visited (Dp dp) ?nf))"
        using Cons True by (intro IH) (simp add: dp_create_flood_eq)
      then show ?thesis
        using Cons True visited_flood [of nf ops dp] assms
        by (subst of_in_loop.simps) (simp add: dp_create_flood_eq launch_copy_out_ports)
    next
      case False
      have "of_in_loop evh' dp (nf\<lparr>out_ports := ops\<rparr>) =
          Some (rfold (\<lambda>evh op. launch_copy evh (Dp dp) nf op True) evh' (visited (Dp dp) (nf\<lparr>out_ports := ops\<rparr>)))" for evh'
        using Cons False IH [of "nf\<lparr>out_ports := ops\<rparr>" evh'] by (simp add: launch_copy_out_ports)
      then show ?thesis
        using Cons False visited_Cons [of nf op ops "Dp dp" "Dp dp" nf]
        by (subst of_in_loop.simps) (simp split: sum.splits)
    qed
  qed
qed

end
