(* ===== verification/Event_Invariant.thy ===== *)
theory Event_Invariant
  imports Event_Handler
begin

section \<open>What every event keeps\<close>

text \<open>
  The handlers of events change the state of the nodes and schedule events, and nothing else: the
  nodes keep their kind, their identifier and their ports, the links and the indices of the network
  stay as they are, and the queue grows by well-formed events with fresh addresses.
\<close>

subsection \<open>Nodes keep their shape\<close>

lemma upd_port_ids: "(\<And>p. port_id (f p) = port_id p) \<Longrightarrow> port_ids (upd_port n pid f) = port_ids n"
  by (simp add: port_ids_def upd_port_def map_hash_update)

lemma node_update_port_stats_shape:
  "uuid (node_update_port_stats n nf p) = uuid n" "port_ids (node_update_port_stats n nf p) = port_ids n"
  by (simp_all add: node_update_port_stats_def upd_port_ids split: option.splits)

lemma node_flow_push_shape:
  "node_flow_push n nf = Inr (n', ok) \<Longrightarrow> uuid n' = uuid n \<and> port_ids n' = port_ids n"
  by (auto simp: node_flow_push_def port_ids_def Let_def split: if_splits)

lemma node_flow_pop_shape:
  "node_flow_pop n = Inr (n', nf) \<Longrightarrow> uuid n' = uuid n \<and> port_ids n' = port_ids n"
  by (auto simp: node_flow_pop_def port_ids_def Let_def split: if_splits option.splits)

lemma find_forwarding_ports_shape:
  "find_forwarding_ports l nf multi = Inr (l', nf', r) \<Longrightarrow>
     uuid (base l') = uuid (base l) \<and> port_ids (base l') = port_ids (base l)"
  by (auto simp: find_forwarding_ports_def resolve_mac_def Let_def
      dest!: node_flow_push_shape split: if_splits option.splits)

lemma l2_recv_netflow_shape:
  "l2_recv_netflow l nf = Inr (l', nf', r) \<Longrightarrow>
     uuid (base l') = uuid (base l) \<and> port_ids (base l') = port_ids (base l)"
  by (auto simp: l2_recv_netflow_def l2_arp_request_def l2_arp_reply_def Let_def
      dest!: node_flow_pop_shape split: if_splits option.splits)

lemma pipeline_base: "pipeline dp t nf acts = Inr (dp', nf', b) \<Longrightarrow> dp_base dp' = dp_base dp"
proof (induction "255 - unat t" arbitrary: dp t nf acts rule: less_induct)
  case less
  show ?case
    using less.prems by (subst (asm) pipeline.simps)
      (auto simp: Let_def dest: less.hyps [OF table_id_measure] split: option.splits prod.splits if_splits)
qed

lemma dp_recv_netflow_shape: "dp_recv_netflow dp nf = Inr (dp', nf', b) \<Longrightarrow> shape (Dp dp') = shape (Dp dp)"
  by (auto simp: dp_recv_netflow_def shape_def nuuid_def Let_def upd_port_ids dest!: pipeline_base split: option.splits)

lemma router_recv_netflow_shape: "router_recv_netflow r nf = Inr (r', nf') \<Longrightarrow> shape (Rt r') = shape (Rt r)"
  by (auto simp: router_recv_netflow_def shape_def nuuid_def Let_def upd_port_ids
      dest!: l2_recv_netflow_shape find_forwarding_ports_shape split: option.splits if_splits)

lemma host_answer_shape: "host_answer h nf = Inr (h', r) \<Longrightarrow> shape (Ht h') = shape (Ht h)"
  by (auto simp: host_answer_def shape_def nuuid_def dest!: find_forwarding_ports_shape split: option.splits)

lemma host_recv_netflow_shape:
  assumes "host_recv_netflow h nf = Inr (h', r)"
  shows "shape (Ht h') = shape (Ht h)"
proof (cases "l2_recv_netflow (ep h) nf")
  case (Inl e)
  then show ?thesis
    using assms by (simp add: host_recv_netflow_def Let_def)
next
  case (Inr x)
  obtain l f p where l2: "l2_recv_netflow (ep h) nf = Inr (l, f, p)"
    using Inr by (cases x) simp
  have l: "shape (Ht (h\<lparr>ep := l\<rparr>)) = shape (Ht h)"
    using l2_recv_netflow_shape [OF l2] by (simp add: shape_def nuuid_def)
  have "h' = h\<lparr>ep := l\<rparr> \<or> (\<exists>g. host_answer (h\<lparr>ep := l\<rparr>) g = Inr (h', r))"
    using assms unfolding host_recv_netflow_def l2 rbind_simps Let_def
    by (auto split: option.splits if_splits)
  then show ?thesis
    using l host_answer_shape by metis
qed

lemma recv_netflow_shape: "recv_netflow n nf = Inr (n', r) \<Longrightarrow> shape n' = shape n"
  by (cases n) (auto simp: recv_netflow_def dest: dp_recv_netflow_shape router_recv_netflow_shape host_recv_netflow_shape)

lemma send_netflow_shape: "shape (send_netflow n nf p) = shape n"
  by (cases n) (simp_all add: send_netflow_def dp_send_netflow_def router_send_netflow_def host_send_netflow_def
      shape_def nuuid_def node_update_port_stats_shape)

lemma host_execute_app_shape: "host_execute_app h x = Inr (h', x', nf) \<Longrightarrow> shape (Ht h') = shape (Ht h)"
  by (auto simp: host_execute_app_def shape_def nuuid_def Let_def
      dest!: find_forwarding_ports_shape split: option.splits)

lemma router_control_shape: "router_handle_control_message r data = Inr (r', ret) \<Longrightarrow> shape (Rt r') = shape (Rt r)"
  by (auto simp: router_handle_control_message_def fib_add_def shape_def nuuid_def Let_def split: if_splits)

lemma dp_flow_mod_base: "dp_handle_flow_mod nd mem dp obj time = Inr dp' \<Longrightarrow> dp_base dp' = dp_base dp"
  by (cases "object_id obj"; auto simp: dp_handle_flow_mod_def)

lemma dp_get_stats_base: "dp_get_stats_flows dp req arr time = Inr (dp', r) \<Longrightarrow> dp_base dp' = dp_base dp"
  by (auto simp: dp_get_stats_flows_def split: if_splits)

lemma dp_control_shape:
  "dp_control_handle_control_msg parse nd mem dp msg nf time = Inr (dp', nf', ret) \<Longrightarrow> shape (Dp dp') = shape (Dp dp)"
  by (auto simp: dp_control_handle_control_msg_def dp_handle_flow_stats_req_def dp_handle_aggregate_stats_req_def
      shape_def nuuid_def Let_def dest!: dp_flow_mod_base dp_get_stats_base split: if_splits option.splits prod.splits)

subsection \<open>The handlers only extend\<close>

text \<open>What the casts and reads of the handlers rely on: a body that fits the type, and the flow
  identifier set.\<close>

definition wf_event :: "sim_event \<Rightarrow> bool" where
  "wf_event ev \<longleftrightarrow> body_matches ev \<and>
     (case ev_body ev of
        Flow_Recv b \<Rightarrow> recv_flow_id b \<noteq> None
      | Flow_Send b \<Rightarrow> send_flow_id b \<noteq> None
      | _ \<Rightarrow> True)"

text \<open>The events of the simulated network: all but the one that ends the simulation.\<close>

definition work_event :: "sim_event \<Rightarrow> bool" where
  "work_event ev \<longleftrightarrow> wf_event ev \<and> ev_type ev \<noteq> Some EVENT_END"

lemma work_constructors [simp]:
  "work_event (set_flow_id fid (sim_event_flow_recv_new p t u r))"
  "work_event (set_flow_id fid (sim_event_flow_send_new p t u q))"
  "work_event (sim_event_of_msg_out_new p t d bs l)"
  "work_event (sim_event_of_msg_in_new p t d bs l)"
  "work_event (sim_event_router_in_new p t i c bs l)"
  "work_event (sim_event_app_start_new p t u x)"
  by (simp_all add: work_event_def wf_event_def body_matches_def set_flow_id_def event_constructors event_types)

lemma work_wf [simp]: "work_event ev \<Longrightarrow> wf_event ev"
  by (simp add: work_event_def)

lemma addr_constructors [simp]:
  "ev_addr (set_flow_id fid ev) = ev_addr ev" "ev_time (set_flow_id fid ev) = ev_time ev"
  "ev_addr (sim_event_flow_recv_new p t u r) = p" "ev_addr (sim_event_flow_send_new p t u q) = p"
  "ev_addr (sim_event_of_msg_out_new p t d bs l) = p" "ev_addr (sim_event_of_msg_in_new p t d bs l) = p"
  "ev_addr (sim_event_router_in_new p t i c bs l) = p" "ev_addr (sim_event_app_start_new p t u x) = p"
  by (simp_all add: set_flow_id_def event_constructors)

definition same_shape :: "topology \<Rightarrow> topology \<Rightarrow> bool" where
  "same_shape t t' \<longleftrightarrow> map shape (nodes t') = map shape (nodes t) \<and> links t' = links t \<and> dps t' = dps t \<and>
     routers t' = routers t \<and> hosts t' = hosts t"

definition grows :: "ev_handler \<Rightarrow> ev_handler \<Rightarrow> bool" where
  "grows evh evh' \<longleftrightarrow> same_shape (topo evh) (topo evh') \<and> next_addr evh \<le> next_addr evh' \<and>
     (\<exists>new. sch evh' = fold (\<lambda>e s. scheduler_insert s e) new (sch evh) \<and>
        map ev_addr new = [next_addr evh..<next_addr evh'] \<and> list_all work_event new)"

lemma grows_refl [simp]: "grows evh evh"
  by (auto simp: grows_def same_shape_def intro: exI [of _ "[]"])

lemma grows_trans [trans]:
  assumes "grows a b" "grows b c"
  shows "grows a c"
proof -
  obtain xs ys where
      "sch b = fold (\<lambda>e s. scheduler_insert s e) xs (sch a)" "map ev_addr xs = [next_addr a..<next_addr b]" "list_all work_event xs"
      "sch c = fold (\<lambda>e s. scheduler_insert s e) ys (sch b)" "map ev_addr ys = [next_addr b..<next_addr c]" "list_all work_event ys"
    using assms by (auto simp: grows_def)
  moreover have "next_addr a \<le> next_addr b" "next_addr b \<le> next_addr c"
    using assms by (simp_all add: grows_def)
  then have "[next_addr a..<next_addr c] = [next_addr a..<next_addr b] @ [next_addr b..<next_addr c]"
    using upt_add_eq_append [of "next_addr a" "next_addr b" "next_addr c - next_addr b"] by simp
  ultimately show ?thesis
    using assms unfolding grows_def same_shape_def by (intro conjI exI [of _ "xs @ ys"]) simp_all
qed

lemma grows_schedule:
  "grows evh evh' \<Longrightarrow> (\<And>p. ev_addr (mk p) = p \<and> work_event (mk p)) \<Longrightarrow> grows evh (schedule evh' mk)"
  by (rule grows_trans, assumption)
    (auto simp: grows_def schedule_def same_shape_def intro: exI [of _ "[mk (next_addr evh')]"])

lemma grows_fields:
  "grows evh (evh'\<lparr>live_flows := a\<rparr>) = grows evh evh'" "grows evh (evh'\<lparr>cm := b\<rparr>) = grows evh evh'"
  "grows evh (evh'\<lparr>commands := c\<rparr>) = grows evh evh'" "grows evh (evh'\<lparr>next_flow_id := d\<rparr>) = grows evh evh'"
  by (simp_all add: grows_def)

lemma grows_upd_live: "grows evh (upd_live evh' fid f) = grows evh evh'"
  by (simp add: upd_live_def grows_fields)

text \<open>Nodes of one shape stand at one place.\<close>

lemma find_shape:
  assumes "map shape ns' = map shape ns"
  shows "map_option shape (find (\<lambda>n. nuuid n = u) ns') = map_option shape (find (\<lambda>n. nuuid n = u) ns)"
  using assms
proof (induction ns' arbitrary: ns)
  case (Cons n' ns')
  then obtain n ms where "ns = n # ms" "shape n' = shape n" "map shape ns' = map shape ms"
    by (cases ns) auto
  moreover have "nuuid n' = nuuid n"
    using \<open>shape n' = shape n\<close> by (simp add: shape_def)
  ultimately show ?case
    using Cons.IH [of ms] by simp
qed simp

lemma topology_node_shape:
  assumes "same_shape t t'"
  shows "map_option shape (topology_node t' u) = map_option shape (topology_node t u)"
  using assms find_shape [of "rev (nodes t')" "rev (nodes t)" u]
  by (simp add: same_shape_def topology_node_def HASH_FIND_def flip: rev_map)

lemma map_shape_put:
  assumes "map_option shape (topology_node t (nuuid n)) \<in> {None, Some (shape n)}"
  shows "map shape (nodes (put_node t n)) = map shape (nodes t)"
proof -
  have "map shape (update_first (\<lambda>e. nuuid e = nuuid n) (\<lambda>_. n) xs) = map shape xs"
    if "map_option shape (find (\<lambda>e. nuuid e = nuuid n) xs) \<in> {None, Some (shape n)}" for xs
    using that by (induction xs) auto
  then show ?thesis
    using assms by (simp add: put_node_def hash_update_def topology_node_def HASH_FIND_def flip: rev_map)
qed

lemma grows_put:
  assumes "grows evh evh'" "topology_node (topo evh) u = Some n0" "shape n = shape n0"
  shows "grows evh (evh'\<lparr>topo := put_node (topo evh') n\<rparr>)"
proof -
  have "nuuid n = u"
    using topology_node_uuid [OF assms(2)] assms(3) by (simp add: shape_def)
  moreover have "same_shape (topo evh) (topo evh')"
    using assms(1) by (simp add: grows_def)
  ultimately have "map_option shape (topology_node (topo evh') (nuuid n)) = Some (shape n)"
    using topology_node_shape [of "topo evh" "topo evh'" u] assms(2,3) by simp
  then have "map shape (nodes (put_node (topo evh') n)) = map shape (nodes (topo evh'))"
    by (intro map_shape_put) simp
  then show ?thesis
    using assms(1) by (simp add: grows_def same_shape_def put_node_def)
qed

subsection \<open>Each handler\<close>

lemma packet_in_grows: "packet_in lib evh n nf payload_freed = Inr (evh', nf') \<Longrightarrow> grows evh evh'"
  by (auto simp: packet_in_def Let_def grows_schedule split: if_splits)

lemma send_later_grows: "send_later evh n nf fid op = Inr (evh', n', nf') \<Longrightarrow> grows evh evh'"
  by (auto simp: send_later_def Let_def grows_schedule)

lemma after_recv_loop_grows:
  assumes "after_recv_loop lib evh n nf fid payload_freed = Some (Inr (evh', n', nf'))"
  shows "grows evh evh' \<and> shape n' = shape n"
proof -
  have "\<forall>evh' n' nf'. r = Inr (evh', n', nf') \<longrightarrow> grows evh evh' \<and> shape n' = shape n"
    if "after_recv_loop lib evh n nf fid payload_freed = Some r" for r
    using that
  proof (rule after_recv_loop.raw_induct [rotated])
    fix loop lib evh n nf fid payload_freed r
    assume IH: "\<And>lib evh n nf fid payload_freed r. loop lib evh n nf fid payload_freed = Some r \<Longrightarrow>
        \<forall>evh' n' nf'. r = Inr (evh', n', nf') \<longrightarrow> grows evh evh' \<and> shape n' = shape n"
      and body: "(case out_ports nf of [] \<Rightarrow> Some (Inr (evh, n, nf))
        | op # ops \<Rightarrow>
          if op = OFPP_CONTROLLER then
            (case packet_in lib evh n nf payload_freed of
               Inl e \<Rightarrow> Some (Inl e)
             | Inr (evh, nf) \<Rightarrow> loop lib evh n (nf\<lparr>out_ports := ops\<rparr>) fid payload_freed)
          else if op = OFPP_FLOOD then
            (case as_dp n of
               Inl e \<Rightarrow> Some (Inl e)
             | Inr dp \<Rightarrow> loop lib evh n (dp_create_flood dp (nf\<lparr>out_ports := ops\<rparr>)) fid payload_freed)
          else
            (case send_later evh n nf fid op of
               Inl e \<Rightarrow> Some (Inl e)
             | Inr (evh, n, nf) \<Rightarrow> loop lib evh n (nf\<lparr>out_ports := ops\<rparr>) fid payload_freed)) = Some r"
    show "\<forall>evh' n' nf'. r = Inr (evh', n', nf') \<longrightarrow> grows evh evh' \<and> shape n' = shape n"
    proof (intro allI impI)
      fix evh' n' nf'
      assume r: "r = Inr (evh', n', nf')"
      show "grows evh evh' \<and> shape n' = shape n"
        using body r IH packet_in_grows send_later_grows send_later_keeps(1) grows_trans
        by (auto split: list.splits if_splits sum.splits prod.splits) metis+
    qed
  qed
  then show ?thesis
    using assms by blast
qed

lemma handle_recv_netflow_grows:
  assumes "handle_recv_netflow lib evh ev = Inr evh'"
  shows "grows evh evh'"
proof -
  obtain fid where fid: "recv_flow_id ev = Some fid"
    using assms by (cases "recv_flow_id ev") (simp_all add: handle_recv_netflow_def)
  show ?thesis
  proof (cases "(topology_node (topo evh) (recv_node_id ev), find_live_flow evh fid)")
    case (Pair a b)
    show ?thesis
    proof (cases "a = None \<or> b = None")
      case True
      then show ?thesis
        using assms fid Pair by (auto simp: handle_recv_netflow_def split: option.splits)
    next
      case False
      then obtain n0 l where n0: "topology_node (topo evh) (recv_node_id ev) = Some n0" and l: "find_live_flow evh fid = Some l"
        using Pair by auto
      then obtain flow n nf where n: "recv_netflow n0 flow = Inr (n, nf)" and
          rest: "(case nf of Some nf \<Rightarrow> rbind (handle_after_flow_recv lib (evh\<lparr>topo := put_node (topo evh) n\<rparr>) n nf fid (lf_state l = Payload_Freed))
              (\<lambda>(evh, nf). Inr (upd_live evh fid (set_live_flow nf)))
            | None \<Rightarrow> del_live_flow (evh\<lparr>topo := put_node (topo evh) n\<rparr>) l) = Inr evh'"
        using assms fid by (auto simp: handle_recv_netflow_def Let_def)
      have put: "grows evh (evh\<lparr>topo := put_node (topo evh) n\<rparr>)"
        by (rule grows_put [OF grows_refl n0]) (rule recv_netflow_shape [OF n])
      show ?thesis
      proof (cases nf)
        case None
        then show ?thesis
          using rest put by (auto simp: del_live_flow_def Let_def grows_fields)
      next
        case (Some g)
        then obtain evh2 n2 nf2 where
            "after_recv_loop lib (evh\<lparr>topo := put_node (topo evh) n\<rparr>) n g fid (lf_state l = Payload_Freed) = Some (Inr (evh2, n2, nf2))"
            and evh': "evh' = upd_live (evh2\<lparr>topo := put_node (topo evh2) n2\<rparr>) fid (set_live_flow nf2)"
          using rest by (auto simp: handle_after_flow_recv_def returned_def split: option.splits)
        then have "grows (evh\<lparr>topo := put_node (topo evh) n\<rparr>) evh2" "shape n2 = shape n"
          using after_recv_loop_grows by blast+
        then have "grows evh (evh2\<lparr>topo := put_node (topo evh2) n2\<rparr>)"
          using grows_put [OF grows_trans [OF put] n0] recv_netflow_shape [OF n] by simp
        then show ?thesis
          by (simp add: evh' grows_upd_live)
      qed
    qed
  qed
qed

lemma schedule_next_exec_grows:
  assumes "grows evh evh'" "topology_node (topo evh) u = Some n0" "shape n = shape n0"
  shows "grows evh (schedule_next_exec evh' n nf)"
proof (cases n)
  case (Ht h)
  have "grows evh (evh'\<lparr>topo := put_node (topo evh') (Ht (h\<lparr>execs := xs\<rparr>))\<rparr>)" for xs
    by (rule grows_put [OF assms(1,2)]) (use assms(3) Ht in \<open>simp add: shape_def nuuid_def\<close>)
  then show ?thesis
    using assms(1) Ht by (auto simp: schedule_next_exec_def Let_def grows_schedule split: option.splits)
qed (simp_all add: schedule_next_exec_def assms(1))

lemma handle_after_flow_send_grows:
  assumes "grows evh evh'" "topology_node (topo evh) u = Some n0" "shape n = shape n0"
  shows "grows evh (handle_after_flow_send evh' n p nf fid)"
  using schedule_next_exec_grows [OF assms, of nf]
  by (auto simp: handle_after_flow_send_def Let_def grows_upd_live intro!: grows_schedule split: option.splits)

lemma handle_send_netflow_grows:
  assumes "handle_send_netflow evh ev = Inr evh'"
  shows "grows evh evh'"
proof -
  obtain fid where fid: "send_flow_id ev = Some fid"
    using assms by (cases "send_flow_id ev") (simp_all add: handle_send_netflow_def)
  show ?thesis
  proof (cases "topology_node (topo evh) (send_node_id ev) = None \<or> find_live_flow evh fid = None")
    case True
    then show ?thesis
      using assms fid by (auto simp: handle_send_netflow_def split: option.splits)
  next
    case False
    then obtain n0 l where n0: "topology_node (topo evh) (send_node_id ev) = Some n0" and "find_live_flow evh fid = Some l"
      by auto
    then obtain nf b where b: "node_update_port_capacity (node_of n0) (- flow_rate nf) (send_out_port ev) = Inr b" and
        evh': "evh' = evh\<lparr>topo := put_node (topo evh) (set_node_of b n0)\<rparr> \<or>
          evh' = handle_after_flow_send (evh\<lparr>topo := put_node (topo evh) (send_netflow (set_node_of b n0) nf (send_out_port ev))\<rparr>)
            (send_netflow (set_node_of b n0) nf (send_out_port ev)) (send_out_port ev) nf fid"
      using assms fid by (auto simp: handle_send_netflow_def Let_def split: if_splits)
    have s: "shape (set_node_of b n0) = shape n0"
      using node_update_port_capacity_shape [OF b] by (simp add: shape_def nuuid_def)
    then have s': "shape (send_netflow (set_node_of b n0) nf (send_out_port ev)) = shape n0"
      by (simp add: send_netflow_shape)
    show ?thesis
      using evh' grows_put [OF grows_refl n0 s] handle_after_flow_send_grows [OF grows_put [OF grows_refl n0 s'] n0 s'] by auto
  qed
qed

lemma launch_copy_grows: "launch_copy evh n nf op early = Inr evh' \<Longrightarrow> grows evh evh'"
  by (auto simp: launch_copy_def add_live_flow_def Let_def grows_fields intro!: grows_schedule split: prod.splits)

lemma of_in_loop_grows:
  assumes "of_in_loop evh dp nf = Some (Inr evh')"
  shows "grows evh evh'"
proof -
  have "\<forall>evh'. r = Inr evh' \<longrightarrow> grows evh evh'" if "of_in_loop evh dp nf = Some r" for r
    using that
  proof (rule of_in_loop.raw_induct [rotated])
    fix loop evh dp nf r
    assume IH: "\<And>evh dp nf r. loop evh dp nf = Some r \<Longrightarrow> \<forall>evh'. r = Inr evh' \<longrightarrow> grows evh evh'"
      and body: "(case out_ports nf of [] \<Rightarrow> Some (Inr evh)
        | op # ops \<Rightarrow>
          if op = OFPP_FLOOD then loop evh dp (dp_create_flood dp (nf\<lparr>out_ports := ops\<rparr>))
          else (case launch_copy evh (Dp dp) nf op True of
                  Inl e \<Rightarrow> Some (Inl e)
                | Inr evh \<Rightarrow> loop evh dp (nf\<lparr>out_ports := ops\<rparr>))) = Some r"
    show "\<forall>evh'. r = Inr evh' \<longrightarrow> grows evh evh'"
    proof (intro allI impI)
      fix evh'
      assume r: "r = Inr evh'"
      show "grows evh evh'"
        using body r IH launch_copy_grows grows_trans
        by (auto split: list.splits if_splits sum.splits) metis+
    qed
  qed
  then show ?thesis
    using assms by blast
qed

lemma start_app_loop_grows: "start_app_loop evh n nf ops = Inr evh' \<Longrightarrow> grows evh evh'"
  by (induction ops arbitrary: evh) (auto dest!: launch_copy_grows intro: grows_trans)

text \<open>The indices by datapath identifier and router identifier lead to nodes of the network.\<close>

lemma datapath_by_dpid_node:
  "topology_datapath_by_dpid t d = Some dp \<Longrightarrow> \<exists>u. topology_node t u = Some (Dp dp)"
  by (auto simp: topology_datapath_by_dpid_def split: option.splits net_node.splits)

lemma router_by_id_node:
  "topology_router_by_id t i = Some r \<Longrightarrow> \<exists>u. topology_node t u = Some (Rt r)"
  by (auto simp: topology_router_by_id_def split: option.splits net_node.splits)

lemma handle_of_in_grows:
  assumes "handle_of_in lib evh time ev = Inr evh'"
  shows "grows evh evh'"
proof -
  obtain dp0 where dp0: "topology_datapath_by_dpid (topo evh) (of_dp_id ev) = Some dp0"
    using assms by (cases "topology_datapath_by_dpid (topo evh) (of_dp_id ev)") (simp_all add: handle_of_in_def)
  then obtain u where u: "topology_node (topo evh) u = Some (Dp dp0)"
    using datapath_by_dpid_node by blast
  obtain dp nf ret where c: "dp_control_handle_control_msg (of_parse lib) (ndebug lib) (stack lib) dp0
      (take (of_len ev) (of_data ev)) netflow_new time = Inr (dp, nf, ret)"
    using assms dp0 by (auto simp: handle_of_in_def)
  then obtain evh2 where loop: "of_in_loop (evh\<lparr>topo := put_node (topo evh) (Dp dp)\<rparr>) dp nf = Some (Inr evh2)"
      and evh': "evh' = free_shared_payload (next_flow_id evh) nf (case ret of None \<Rightarrow> evh2
        | Some reply \<Rightarrow> schedule evh2 (\<lambda>p. sim_event_of_msg_out_new p time (dp_id dp) (reply_wire lib reply) (length (reply_wire lib reply))))"
    using assms dp0 by (auto simp: handle_of_in_def Let_def returned_def split: option.splits)
  have "grows evh evh2"
    using grows_put [OF grows_refl u dp_control_shape [OF c]] of_in_loop_grows [OF loop] by (rule grows_trans)
  then have "grows evh (case ret of None \<Rightarrow> evh2
        | Some reply \<Rightarrow> schedule evh2 (\<lambda>p. sim_event_of_msg_out_new p time (dp_id dp) (reply_wire lib reply) (length (reply_wire lib reply))))"
    by (simp add: grows_schedule split: option.splits)
  then show ?thesis
    by (simp add: evh' free_shared_payload_def grows_fields)
qed

lemma handle_router_in_grows:
  assumes "handle_router_in evh ev = Inr evh'"
  shows "grows evh evh'"
proof (cases "topology_router_by_id (topo evh) (rt_router_id ev)")
  case None
  then show ?thesis
    using assms by (simp add: handle_router_in_def)
next
  case (Some r0)
  then obtain u where u: "topology_node (topo evh) u = Some (Rt r0)"
    using router_by_id_node by blast
  obtain r ret where r: "router_handle_control_message r0 (rt_data ev) = Inr (r, ret)"
    using assms Some by (auto simp: handle_router_in_def)
  then show ?thesis
    using assms Some grows_put [OF grows_refl u router_control_shape [OF r]]
    by (auto simp: handle_router_in_def Let_def grows_fields split: option.splits)
qed

lemma handle_router_config_grows: "handle_router_config evh ev = Inr evh' \<Longrightarrow> grows evh evh'"
  by (auto simp: handle_router_config_def grows_fields split: option.splits)

lemma handle_start_app_grows:
  assumes "handle_start_app evh ev = Inr evh'"
  shows "grows evh evh'"
proof (cases "topology_node (topo evh) (start_node_id ev)")
  case None
  then show ?thesis
    using assms by (simp add: handle_start_app_def)
next
  case (Some n)
  then obtain h0 x h1 x' nf where n: "n = Ht h0" and x: "host_execute_app h0 x = Inr (h1, x', nf)" and
      rest: "(let h = h1\<lparr>execs := hash_update ex_addr (execs h1) (start_exec ev) (\<lambda>_. x')\<rparr>;
                  evh = evh\<lparr>topo := put_node (topo evh) (Ht h)\<rparr> in
              case nf of None \<Rightarrow> Inr evh | Some nf \<Rightarrow> start_app_loop evh (Ht h) nf (out_ports nf)) = Inr evh'"
    using assms by (cases n) (auto simp: handle_start_app_def as_host_def split: option.splits)
  have "shape (Ht (h1\<lparr>execs := xs\<rparr>)) = shape n" for xs
    using host_execute_app_shape [OF x] n by (simp add: shape_def nuuid_def)
  then have "grows evh (evh\<lparr>topo := put_node (topo evh) (Ht (h1\<lparr>execs := xs\<rparr>))\<rparr>)" for xs
    by (intro grows_put [OF grows_refl Some])
  then show ?thesis
    using rest by (auto simp: Let_def dest!: start_app_loop_grows intro: grows_trans split: option.splits)
qed

lemma handle_event_grows:
  assumes "handle_event lib evh ev = Inr evh'"
  shows "grows evh evh'"
proof -
  have "grows evh evh'" if "handle_fti lib evh ev = Inr evh'"
    using that by (auto simp: handle_fti_def handle_of_out_def handle_router_out_def grows_fields
        dest: handle_of_in_grows handle_router_in_grows handle_router_config_grows split: event_body.splits if_splits)
  then show ?thesis
    using assms by (auto simp: handle_event_def handle_packet_def handle_port_def
        dest: handle_recv_netflow_grows handle_send_netflow_grows handle_start_app_grows
        split: option.splits if_splits event_body.splits)
qed

subsection \<open>The invariant of the event handler\<close>

definition evh_ok :: "ev_handler \<Rightarrow> bool" where
  "evh_ok evh \<longleftrightarrow> topo_ok (topo evh) \<and> sch_inv (sch evh) \<and> list_all wf_event (ev_queue (sch evh)) \<and>
     distinct (map ev_addr (ev_queue (sch evh))) \<and> list_all (\<lambda>e. ev_addr e < next_addr evh) (ev_queue (sch evh))"

lemma topo_ok_same_shape:
  assumes "same_shape t t'"
  shows "topo_ok t' = topo_ok t"
proof -
  have uuids: "map nuuid ns = map (fst \<circ> snd) (map shape ns)" for ns
    by (simp add: shape_def)
  have "map nuuid (nodes t') = map nuuid (nodes t)"
    using assms unfolding uuids same_shape_def by simp
  moreover from this have "nuuid ` set (nodes t') = nuuid ` set (nodes t)"
    by (metis list.set_map)
  ultimately show ?thesis
    using assms by (simp add: topo_ok_def same_shape_def)
qed

lemma evh_ok_grows:
  assumes "evh_ok evh" "grows evh evh'"
  shows "evh_ok evh'"
proof -
  obtain new where new: "sch evh' = fold (\<lambda>e s. scheduler_insert s e) new (sch evh)"
      "map ev_addr new = [next_addr evh..<next_addr evh']" "list_all work_event new"
    and shape: "same_shape (topo evh) (topo evh')" and le: "next_addr evh \<le> next_addr evh'"
    using assms(2) by (auto simp: grows_def)
  have q: "sch_inv (sch evh')" "mset (ev_queue (sch evh')) = mset new + mset (ev_queue (sch evh))"
    using sched_queue.fold_insert [of "sch evh" new] assms(1) by (simp_all add: new(1) evh_ok_def)
  have set: "set (ev_queue (sch evh')) = set new \<union> set (ev_queue (sch evh))"
    using q(2) by (metis set_mset_mset set_mset_union)
  have addr: "ev_addr ` set new = {next_addr evh..<next_addr evh'}"
    using new(2) by (metis list.set_map set_upt)
  have "distinct (map ev_addr (new @ ev_queue (sch evh)))"
    using assms(1) new(2) addr by (force simp: evh_ok_def list_all_iff)
  moreover have "mset (map ev_addr (ev_queue (sch evh'))) = mset (map ev_addr (new @ ev_queue (sch evh)))"
    using q(2) by simp
  ultimately have "distinct (map ev_addr (ev_queue (sch evh')))"
    using mset_eq_imp_distinct_iff by blast
  moreover have "ev_addr e < next_addr evh'" if "e \<in> set (ev_queue (sch evh'))" for e
    using that assms(1) addr le by (fastforce simp: set evh_ok_def list_all_iff)
  ultimately show ?thesis
    using assms(1) new(3) q(1) topo_ok_same_shape [OF shape] by (auto simp: evh_ok_def list_all_iff set)
qed

text \<open>C4: Whatever event is handled, the state of the simulator stays well formed: the nodes keep their
  identifiers, kinds and ports and the links stay, the queue stays in time order, every event in it
  carries what its handler will read, and no two have one address.  The events that were
  pending stay, new ones are added, and the clock and the mode are left to the loops.\<close>

theorem handle_event_keeps_invariant:
  assumes "evh_ok evh" "handle_event lib evh ev = Inr evh'"
  shows "evh_ok evh' \<and> map shape (nodes (topo evh')) = map shape (nodes (topo evh)) \<and> links (topo evh') = links (topo evh) \<and>
    mset (ev_queue (sch evh)) \<subseteq># mset (ev_queue (sch evh')) \<and>
    clock (sch evh') = clock (sch evh) \<and> mode (sch evh') = mode (sch evh)"
proof -
  note grows = handle_event_grows [OF assms(2)]
  then obtain new where new: "sch evh' = fold (\<lambda>e s. scheduler_insert s e) new (sch evh)"
    by (auto simp: grows_def)
  then have "mset (ev_queue (sch evh')) = mset new + mset (ev_queue (sch evh))"
    using sched_queue.fold_insert [of "sch evh" new] assms(1) by (simp add: evh_ok_def)
  then show ?thesis
    using evh_ok_grows [OF assms(1) grows] grows new
    by (simp add: grows_def same_shape_def scheduler_fold_insert_fields)
qed

subsection \<open>A flow on a link\<close>

lemma find_upd_live:
  "(\<And>l. flow_id (lf (f l)) = flow_id (lf l)) \<Longrightarrow> find_live_flow (upd_live evh fid f) i =
     (if i = fid then map_option f (find_live_flow evh i) else find_live_flow evh i)"
  using HASH_FIND_hash_update [of "flow_id \<circ> lf" fid f "live_flows evh" i] by (simp add: find_live_flow_def upd_live_def)

lemma upd_live_fields [simp]:
  "topo (upd_live evh fid f) = topo evh" "sch (upd_live evh fid f) = sch evh" "next_addr (upd_live evh fid f) = next_addr evh"
  by (simp_all add: upd_live_def)

lemma schedule_fields [simp]:
  "topo (schedule evh mk) = topo evh" "find_live_flow (schedule evh mk) = find_live_flow evh"
  "sch (schedule evh mk) = scheduler_insert (sch evh) (mk (next_addr evh))"
  by (simp_all add: schedule_def find_live_flow_def fun_eq_iff)

text \<open>Nothing more to send: the flow is not that of an execution with rounds left.\<close>

definition last_round :: "net_node \<Rightarrow> netflow \<Rightarrow> bool" where
  "last_round n nf =
     (case n of
        Ht h \<Rightarrow> (case HASH_FIND ex_id (host_execs h) (exec_id nf) of None \<Rightarrow> True | Some x \<Rightarrow> exec_cnt x = 0)
      | _ \<Rightarrow> True)"

lemma schedule_next_exec_last: "last_round n nf \<Longrightarrow> schedule_next_exec evh n nf = evh"
  by (cases n) (auto simp: last_round_def schedule_next_exec_def Let_def split: option.splits)

lemma last_round_send: "last_round (send_netflow (set_node_of b n) nf p) nf = last_round n nf"
  by (cases n) (simp_all add: last_round_def send_netflow_def host_send_netflow_def host_execs_def)

text \<open>A flow about to leave: the node and the flow are there, and the port has room.\<close>

definition leaving :: "ev_handler \<Rightarrow> flow_send \<Rightarrow> net_node \<Rightarrow> live \<Rightarrow> node \<Rightarrow> bool" where
  "leaving evh ev n l b \<longleftrightarrow> topology_node (topo evh) (send_node_id ev) = Some n \<and>
     (\<exists>fid. send_flow_id ev = Some fid \<and> find_live_flow evh fid = Some l) \<and> lf_state l = Alive \<and>
     node_calculate_port_loss (node_of n) (lf_flow (lf l)) (send_out_port ev) = 0 \<and>
     node_update_port_capacity (node_of n) (- flow_rate (lf_flow (lf l))) (send_out_port ev) = Inr b \<and>
     last_round n (lf_flow (lf l))"

lemma leaving_uuid:
  assumes "leaving evh ev n l b"
  shows "nuuid (send_netflow (set_node_of b n) nf p) = send_node_id ev"
proof -
  have "nuuid n = send_node_id ev" "uuid b = uuid (node_of n)"
    using assms topology_node_uuid [of "topo evh" "send_node_id ev" n]
      node_update_port_capacity_shape [of "node_of n" "- flow_rate (lf_flow (lf l))" "send_out_port ev" b]
    by (simp_all add: leaving_def)
  then show ?thesis
    using send_netflow_shape [of "set_node_of b n" nf p] by (simp add: shape_def) (simp add: nuuid_def)
qed

lemma handle_send_leaving:
  assumes "leaving evh ev n l b" "send_flow_id ev = Some fid"
  shows "handle_send_netflow evh ev = Inr (
    let n' = send_netflow (set_node_of b n) (lf_flow (lf l)) (send_out_port ev); evh' = evh\<lparr>topo := put_node (topo evh) n'\<rparr> in
    case topology_next_hop (topo evh) (send_node_id ev) (send_out_port ev) of
      None \<Rightarrow> upd_live evh' fid (\<lambda>l. l\<lparr>lf_state := Freed\<rparr>)
    | Some (v, q, lat) \<Rightarrow>
        let nf = upd_match (\<lambda>m. m\<lparr>in_port := q\<rparr>) ((lf_flow (lf l))\<lparr>start_time := start_time (lf_flow (lf l)) + ucast lat\<rparr>) in
        schedule (upd_live evh' fid (\<lambda>l. l\<lparr>lf := (lf l)\<lparr>lf_flow := nf\<rparr>\<rparr>))
          (\<lambda>p. set_flow_id fid (sim_event_flow_recv_new p (start_time nf) v (word_of_int (flow_rate (lf_flow (lf l)))))))"
proof -
  let ?n = "send_netflow (set_node_of b n) (lf_flow (lf l)) (send_out_port ev)"
  have n: "topology_node (topo evh) (send_node_id ev) = Some n" and b: "node_update_port_capacity (node_of n) (- flow_rate (lf_flow (lf l))) (send_out_port ev) = Inr b"
    using assms(1) by (simp_all add: leaving_def)
  note u = leaving_uuid [OF assms(1)]
  have "schedule_next_exec e ?n (lf_flow (lf l)) = e" for e
    by (rule schedule_next_exec_last) (use assms(1) in \<open>simp add: last_round_send leaving_def\<close>)
  then show ?thesis
    using assms n b u by (auto simp: handle_send_netflow_def leaving_def flow_of_live_def send_frees_twice_def
        handle_after_flow_send_def Let_def split: option.splits)
qed

text \<open>C14: A flow that leaves by a connected port crosses the link.  When it is sent, it is accounted for at
  the port, its time grows by the latency of the link and its input port becomes the other end;
  exactly one event is scheduled, its reception by the node at the other end at that time, and the
  other flows are untouched.\<close>

theorem flow_crosses_link:
  assumes "leaving evh ev n l b" "send_flow_id ev = Some fid"
    and "topology_next_hop (topo evh) (send_node_id ev) (send_out_port ev) = Some (v, q, lat)"
  shows "\<exists>evh' nf. handle_send_netflow evh ev = Inr evh' \<and>
    nf = upd_match (\<lambda>m. m\<lparr>in_port := q\<rparr>) ((lf_flow (lf l))\<lparr>start_time := start_time (lf_flow (lf l)) + ucast lat\<rparr>) \<and>
    find_live_flow evh' fid = Some (l\<lparr>lf := (lf l)\<lparr>lf_flow := nf\<rparr>\<rparr>) \<and>
    (\<forall>i. i \<noteq> fid \<longrightarrow> find_live_flow evh' i = find_live_flow evh i) \<and>
    sch evh' = scheduler_insert (sch evh) (set_flow_id fid
      (sim_event_flow_recv_new (next_addr evh) (start_time nf) v (word_of_int (flow_rate (lf_flow (lf l)))))) \<and>
    topology_node (topo evh') (send_node_id ev) = Some (send_netflow (set_node_of b n) (lf_flow (lf l)) (send_out_port ev))"
proof -
  let ?n = "send_netflow (set_node_of b n) (lf_flow (lf l)) (send_out_port ev)"
  have n: "topology_node (topo evh) (send_node_id ev) = Some n" and l: "find_live_flow evh fid = Some l"
    using assms(1,2) by (auto simp: leaving_def)
  note leaving_uuid [OF assms(1)]
  moreover have "find_live_flow (evh\<lparr>topo := t\<rparr>) i = find_live_flow evh i" for t i
    by (simp add: find_live_flow_def)
  ultimately show ?thesis
    using handle_send_leaving [OF assms(1,2)] assms(3) l n
    by (simp add: Let_def find_upd_live topology_node_put)
qed

text \<open>A network of two hosts, with a flow about to leave the first.\<close>

definition example_evh :: ev_handler where
  "example_evh = \<lparr>topo = example_topology, sch = scheduler_new,
     live_flows = [\<lparr>lf = \<lparr>flow_id = 7, lf_node_id = 1, lf_flow = netflow_init\<lparr>start_time := 10\<rparr>\<rparr>, lf_state = Alive\<rparr>],
     cm = \<lparr>active_conns = [], of_sent = [], routing_sent = []\<rparr>, next_flow_id = 8, next_addr = 3, commands = []\<rparr>"

definition example_send :: "u32 \<Rightarrow> flow_send" where
  "example_send p = \<lparr>send_node_id = 1, send_flow_id = Some 7, send_out_port = p, send_flow = None\<rparr>"

lemma example_node: "topology_node example_topology 1 = Some (Ht (fst (host_new 0)))"
proof -
  have "topology_node (topology_add_link t u v p q bw lat False) w = topology_node t w" for t u v p q bw lat w
    by (auto simp: topology_add_link_def add_directed_def topology_node_def split: option.splits)
  then show ?thesis
    by (simp add: example_topology_def) (simp add: topology_node_def topology_add_host_def topology_new_def topology_init_def host_new_uuid)
qed

lemma example_leaving:
  "leaving example_evh (example_send p) (Ht (fst (host_new 0)))
     \<lparr>lf = \<lparr>flow_id = 7, lf_node_id = 1, lf_flow = netflow_init\<lparr>start_time := 10\<rparr>\<rparr>, lf_state = Alive\<rparr> (node_of (Ht (fst (host_new 0))))"
  using example_node
  by (simp add: leaving_def example_evh_def example_send_def find_live_flow_def HASH_FIND_def last_round_def
      host_new_def legacy_node_init_def node_init_def node_port_def node_calculate_port_loss_def
      node_update_port_capacity_def host_execs_def Let_def)

theorem flow_crosses_link_witness:
  "\<exists>evh' nf. handle_send_netflow example_evh (example_send 1) = Inr evh' \<and> in_port (nf_match nf) = 2 \<and> start_time nf = 15 \<and>
     find_live_flow evh' 7 = Some \<lparr>lf = \<lparr>flow_id = 7, lf_node_id = 1, lf_flow = nf\<rparr>, lf_state = Alive\<rparr> \<and>
     map ev_time (ev_queue (sch evh')) = [15]"
proof -
  have "send_flow_id (example_send 1) = Some 7"
      "topology_next_hop (topo example_evh) (send_node_id (example_send 1)) (send_out_port (example_send 1)) = Some (2, 2, 5)"
    using example_built(2) by (simp_all add: example_send_def example_evh_def)
  from flow_crosses_link [OF example_leaving this] obtain evh' nf where
      evh': "handle_send_netflow example_evh (example_send 1) = Inr evh'"
        "find_live_flow evh' 7 = Some \<lparr>lf = \<lparr>flow_id = 7, lf_node_id = 1, lf_flow = nf\<rparr>, lf_state = Alive\<rparr>"
      and nf: "nf = upd_match (\<lambda>m. m\<lparr>in_port := 2\<rparr>) (netflow_init\<lparr>start_time := 10 + ucast (5 :: u32)\<rparr>)"
      and q: "sch evh' = scheduler_insert (sch example_evh) (set_flow_id 7
        (sim_event_flow_recv_new (next_addr example_evh) (start_time nf) 2 (word_of_int (flow_rate (netflow_init\<lparr>start_time := 10\<rparr>)))))"
    by auto
  moreover have "in_port (nf_match nf) = 2" "start_time nf = 15"
    by (simp_all add: nf upd_match_def)
  moreover have "map ev_time (ev_queue (sch evh')) = [start_time nf]"
    by (simp add: q example_evh_def scheduler_insert_def scheduler_new_def)
  ultimately show ?thesis
    by metis
qed

text \<open>C35: A flow that leaves by an unconnected port is released while the table of live flows still holds
  it.  The send succeeds, but every later event of the flow, as there are when it was sent to
  several ports, reads the released flow.\<close>

theorem unconnected_port_frees_flow:
  assumes "leaving evh ev n l b" "send_flow_id ev = Some fid"
    and "topology_next_hop (topo evh) (send_node_id ev) (send_out_port ev) = None"
    and "send_flow_id ev2 = Some fid" "topology_node (topo evh) (send_node_id ev2) \<noteq> None"
    and "recv_flow_id ev3 = Some fid" "topology_node (topo evh) (recv_node_id ev3) \<noteq> None"
  shows "\<exists>evh'. handle_send_netflow evh ev = Inr evh' \<and>
    handle_send_netflow evh' ev2 = Inl Use_After_Free \<and> handle_recv_netflow lib evh' ev3 = Inl Use_After_Free"
proof -
  obtain evh' where evh': "handle_send_netflow evh ev = Inr evh'"
      "evh' = upd_live (evh\<lparr>topo := put_node (topo evh) (send_netflow (set_node_of b n) (lf_flow (lf l)) (send_out_port ev))\<rparr>) fid
        (\<lambda>l. l\<lparr>lf_state := Freed\<rparr>)"
    using handle_send_leaving [OF assms(1,2)] assms(3) by (simp add: Let_def)
  have "find_live_flow (evh\<lparr>topo := t\<rparr>) i = find_live_flow evh i" for t i
    by (simp add: find_live_flow_def)
  then have "find_live_flow evh' fid = Some (l\<lparr>lf_state := Freed\<rparr>)"
    using assms(1,2) by (auto simp: evh'(2) find_upd_live leaving_def)
  moreover have "topology_node (topo evh') u \<noteq> None \<longleftrightarrow> topology_node (topo evh) u \<noteq> None" for u
    by (simp add: evh'(2) topology_node_put)
  ultimately show ?thesis
    using assms(4-7) evh'(1)
    by (auto simp: handle_send_netflow_def [of evh'] handle_recv_netflow_def [of _ evh'] flow_of_live_def split: option.splits)
qed

theorem unconnected_port_frees_flow_witness:
  "\<exists>evh'. handle_send_netflow example_evh (example_send 4) = Inr evh' \<and>
     handle_send_netflow evh' (example_send 1) = Inl Use_After_Free"
proof -
  have "topology_next_hop example_topology 1 4 = None"
    using next_hop_add_link by (simp add: example_topology_def topology_add_link_def add_directed_def topology_next_hop_def
        topology_node_def topology_add_host_def topology_new_def topology_init_def host_new_uuid)
  then show ?thesis
    using unconnected_port_frees_flow [OF example_leaving, of 4 7 "example_send 1"
        "\<lparr>recv_node_id = 1, recv_flow_id = Some 7, recv_rate = 0, recv_flow = None\<rparr>"] example_node
    by (auto simp: example_send_def example_evh_def)
qed

lemma example_evh_ok: "evh_ok example_evh"
  using topo_built_ok [OF example_built(1)] by (simp add: evh_ok_def example_evh_def) (simp add: scheduler_new_def)

theorem handle_event_keeps_invariant_witness:
  "\<forall>lib. \<exists>evh'. handle_event lib example_evh (set_flow_id 7 (sim_event_flow_send_new 2 10 1 1)) = Inr evh' \<and> evh_ok evh' \<and>
     links (topo evh') = links example_topology \<and> clock (sch evh') = 0"
proof
  fix lib
  have "send_flow_id (example_send 1) = Some 7"
    by (simp add: example_send_def)
  then obtain evh' where "handle_send_netflow example_evh (example_send 1) = Inr evh'"
    using handle_send_leaving [OF example_leaving] by blast
  then have "handle_event lib example_evh (set_flow_id 7 (sim_event_flow_send_new 2 10 1 1)) = Inr evh'"
    by (simp add: handle_event_def set_flow_id_def event_constructors event_types example_send_def)
  from this handle_event_keeps_invariant [OF example_evh_ok this]
  show "\<exists>evh'. handle_event lib example_evh (set_flow_id 7 (sim_event_flow_send_new 2 10 1 1)) = Inr evh' \<and> evh_ok evh' \<and>
     links (topo evh') = links example_topology \<and> clock (sch evh') = 0"
    by (auto simp: example_evh_def scheduler_new_def)
qed

text \<open>One receiver that drops a flow ends it everywhere.  When a node takes a flow off the network, its
  entry in the table of live flows goes, and every event still pending for the flow, such as its
  arrival at the other ends of a flood, does nothing.\<close>

theorem first_drop_ends_flow:
  assumes "topology_node (topo evh) (recv_node_id ev) = Some n" "recv_flow_id ev = Some fid"
    and "find_live_flow evh fid = Some l" "lf_state l = Alive" "distinct (map (flow_id \<circ> lf) (live_flows evh))"
    and "recv_netflow n (lf_flow (lf l)) = Inr (n', None)"
    and "recv_flow_id ev2 = Some fid" "send_flow_id ev3 = Some fid"
  shows "\<exists>evh'. handle_recv_netflow lib evh ev = Inr evh' \<and> find_live_flow evh' fid = None \<and>
    (\<forall>i. i \<noteq> fid \<longrightarrow> find_live_flow evh' i = find_live_flow evh i) \<and> sch evh' = sch evh \<and>
    handle_recv_netflow lib evh' ev2 = Inr evh' \<and> handle_send_netflow evh' ev3 = Inr evh'"
proof -
  have "flow_id (lf l) = fid"
    using assms(3) HASH_FIND_SomeD [of "flow_id \<circ> lf" "live_flows evh" fid l] by (simp add: find_live_flow_def)
  then obtain evh' where evh': "handle_recv_netflow lib evh ev = Inr evh'"
      "evh' = evh\<lparr>topo := put_node (topo evh) n', live_flows := HASH_DEL (flow_id \<circ> lf) (live_flows evh) fid\<rparr>"
    using assms(1-4,6) by (simp add: handle_recv_netflow_def flow_of_live_def del_live_flow_def live_flow_destroy_def Let_def)
  then have gone: "find_live_flow evh' i = (if i = fid then None else find_live_flow evh i)" for i
    using HASH_FIND_DEL [OF assms(5), of fid i] by (simp add: find_live_flow_def)
  have "handle_recv_netflow lib evh' ev2 = Inr evh'" "handle_send_netflow evh' ev3 = Inr evh'"
    using gone [of fid] assms(7,8) by (simp_all add: handle_recv_netflow_def handle_send_netflow_def split: option.splits)
  moreover have "sch evh' = sch evh"
    by (simp add: evh'(2))
  ultimately show ?thesis
    using evh'(1) gone by auto
qed

theorem first_drop_ends_flow_witness:
  "\<forall>lib. \<exists>evh'. handle_recv_netflow lib example_evh \<lparr>recv_node_id = 1, recv_flow_id = Some 7, recv_rate = 0, recv_flow = None\<rparr> = Inr evh' \<and>
     find_live_flow evh' 7 = None \<and> handle_send_netflow evh' (example_send 1) = Inr evh'"
proof
  fix lib
  let ?l = "\<lparr>lf = \<lparr>flow_id = 7, lf_node_id = 1, lf_flow = netflow_init\<lparr>start_time := 10\<rparr>\<rparr>, lf_state = Alive\<rparr>"
  let ?ev = "\<lparr>recv_node_id = 1, recv_flow_id = Some 7, recv_rate = 0, recv_flow = None\<rparr>"
  have l: "find_live_flow example_evh 7 = Some ?l" "distinct (map (flow_id \<circ> lf) (live_flows example_evh))"
    by (simp_all add: example_evh_def find_live_flow_def HASH_FIND_def)
  have "recv_netflow (Ht (fst (host_new 0))) (lf_flow (lf ?l)) = Inr (Ht (fst (host_new 0)), None)"
    by (simp add: recv_netflow_def host_recv_netflow_def l2_recv_netflow_def host_new_def legacy_node_init_def
        node_init_def node_port_def Let_def)
  with l show "\<exists>evh'. handle_recv_netflow lib example_evh ?ev = Inr evh' \<and>
     find_live_flow evh' 7 = None \<and> handle_send_netflow evh' (example_send 1) = Inr evh'"
    using first_drop_ends_flow [of example_evh ?ev "Ht (fst (host_new 0))" 7 ?l "Ht (fst (host_new 0))" ?ev "example_send 1" lib]
      example_node
    by (simp add: example_send_def) (auto simp: example_evh_def)
qed

end
