(* ===== verification/Setup.thy ===== *)
theory Setup
  imports Event_Invariant
begin

section \<open>Setting up a simulation (sim/setup, sim/sim\_config)\<close>

text \<open>
  What happens before the first event: the executions of the hosts are scheduled, the namespaces,
  interfaces and daemons of the routers are created, and the settings of the switches are given to
  the OpenFlow client.  The result of the operating system's calls is a parameter: which namespaces
  cannot be added, and what the start of each daemon meets (the descriptor of its socket, how often
  the connection is refused, the helper in the environment).
\<close>

subsection \<open>Configuration\<close>

datatype sim_mode = SIM_CTRL | EMU_CTRL

record sim_config =
  cfg_mode :: sim_mode
  cfg_end_time :: u64
  cfg_ctrl_idle_interval :: u64

definition sim_config_new :: sim_config where
  "sim_config_new = \<lparr>cfg_mode = EMU_CTRL, cfg_end_time = - 1, cfg_ctrl_idle_interval = 100000\<rparr>"

definition sim_config_set_mode :: "sim_config \<Rightarrow> sim_mode \<Rightarrow> sim_config" where
  "sim_config_set_mode conf m = conf\<lparr>cfg_mode := m\<rparr>"

definition sim_config_set_end_time :: "sim_config \<Rightarrow> u64 \<Rightarrow> sim_config" where
  "sim_config_set_end_time conf t = conf\<lparr>cfg_end_time := t\<rparr>"

definition sim_config_set_ctrl_idle_interval :: "sim_config \<Rightarrow> u64 \<Rightarrow> sim_config" where
  "sim_config_set_ctrl_idle_interval conf i = conf\<lparr>cfg_ctrl_idle_interval := i\<rparr>"

definition sim_config_get_mode :: "sim_config \<Rightarrow> sim_mode" where
  "sim_config_get_mode conf = cfg_mode conf"

definition sim_config_get_end_time :: "sim_config \<Rightarrow> u64" where
  "sim_config_get_end_time conf = cfg_end_time conf"

definition sim_config_get_ctrl_idle_interval :: "sim_config \<Rightarrow> u64" where
  "sim_config_get_ctrl_idle_interval conf = cfg_ctrl_idle_interval conf"

subsection \<open>Applications\<close>

definition create_internal_devices :: "command list" where
  "create_internal_devices =
     create_bridge ''br0'' @ setup_veth None ''conn1'' ''conn2'' ''172.20.254.254'' ''16'' ''br0'' @
     [Netns_Run None ''ip route add 172.20.0.0/16 dev conn1'']"

text \<open>The executions of one host, in the order in which they were added.\<close>

definition schedule_execs :: "ev_handler \<Rightarrow> host \<Rightarrow> ev_handler" where
  "schedule_execs evh h =
     fold (\<lambda>x evh. schedule evh (\<lambda>p. sim_event_app_start_new p (ex_start_time x) (host_uuid h) (ex_addr x))) (host_execs h) evh"

definition host_at :: "topology \<Rightarrow> host_node \<Rightarrow> host res" where
  "host_at t hn = (case topology_node t (hn_uuid hn) of Some (Ht h) \<Rightarrow> Inr h | _ \<Rightarrow> Inl Null_Deref)"

fun setup_app_events :: "ev_handler \<Rightarrow> host_node list \<Rightarrow> ev_handler res" where
  "setup_app_events evh [] = Inr evh"
| "setup_app_events evh (hn # hns) =
     rbind (host_at (topo evh) hn) (\<lambda>h. setup_app_events (schedule_execs evh h) hns)"

subsection \<open>Routers\<close>

record os_answers =
  netns_fails :: "string \<Rightarrow> bool"
  zebra_fd :: "string \<Rightarrow> int"
  zebra_refused :: "string \<Rightarrow> nat option"
  helper_env :: "string option"

definition router_at :: "topology \<Rightarrow> router_node \<Rightarrow> router res" where
  "router_at t rn = (case topology_node t (rn_uuid rn) of Some (Rt r) \<Rightarrow> Inr r | _ \<Rightarrow> Inl Null_Deref)"

text \<open>Whether a router could be started is not looked at.\<close>

fun start_routers ::
  "os_answers \<Rightarrow> topology \<Rightarrow> internal_net_bytes \<Rightarrow> router_node list \<Rightarrow> (internal_net_bytes \<times> command list) res" where
  "start_routers os t b [] = Inr (b, [])"
| "start_routers os t b (rn # rns) =
     rbind (router_at t rn) (\<lambda>r.
     rbind (router_start r (netns_fails os (router_name r)) b) (\<lambda>(b, _, cmds).
     rbind (start_routers os t b rns) (\<lambda>(b, more). Inr (b, cmds @ more))))"

fun start_router_daemons :: "os_answers \<Rightarrow> topology \<Rightarrow> router_node list \<Rightarrow> (topology \<times> command list) res" where
  "start_router_daemons os t [] = Inr (t, [])"
| "start_router_daemons os t (rn # rns) =
     rbind (router_at t rn) (\<lambda>r.
     rbind (router_start_daemon r (zebra_fd os (router_name r)) (zebra_refused os (router_name r)) (helper_env os)) (\<lambda>(r, cmds).
     rbind (start_router_daemons os (put_node t (Rt r)) rns) (\<lambda>(t, more). Inr (t, cmds @ more))))"

text \<open>\<open>snprintf\<close> with a size of \<open>mask / 10 + 2\<close>: it cuts what does not fit.\<close>

definition configure_router_port :: "router \<Rightarrow> port \<Rightarrow> command list res" where
  "configure_router_port r p =
     rbind (deref (p_ipv4_addr p)) (\<lambda>i.
       let ip = swap32 (v4_addr i);
           msk = unat (count_set_bits (v4_netmask i));
           netmask_str = take (msk div 10 + 1) (dec_digits msk);
           ip_str = get_ip_str (mem32 ip) in
       Inr (set_intf_ip (Some (router_name r)) (p_name p) ip_str netmask_str))"

text \<open>A port gets the name of its interface and, if it has an address, its configuration.\<close>

definition setup_port :: "topology \<Rightarrow> router \<Rightarrow> u32 \<Rightarrow> string \<Rightarrow> (topology \<times> command list) res" where
  "setup_port t r pid intf =
     (case router_port r pid of
        None \<Rightarrow> Inr (t, [])
      | Some p \<Rightarrow>
          let p = port_set_name p intf;
              r = r\<lparr>ln := (ln r)\<lparr>base := upd_port (base (ln r)) pid (\<lambda>_. p)\<rparr>\<rparr>;
              t = put_node t (Rt r) in
          if p_ipv4_addr p = None then Inr (t, [])
          else rbind (configure_router_port r p) (\<lambda>cmds. Inr (t, cmds)))"

definition intf_name :: "router \<Rightarrow> string \<Rightarrow> u32 \<Rightarrow> string" where
  "intf_name r mid pid = router_name r @ mid @ dec_digits (unat pid)"

text \<open>The second router is read after the first has been written: they may be one router.\<close>

definition setup_router_pair_link ::
  "topology \<Rightarrow> router \<Rightarrow> u32 \<Rightarrow> router \<Rightarrow> u32 \<Rightarrow> (topology \<times> command list) res" where
  "setup_router_pair_link t r1 p1 r2 p2 =
     rbind (sprintf MAX_PORT_NAME (intf_name r1 ''-eth'' p1)) (\<lambda>intf1.
     rbind (sprintf MAX_PORT_NAME (intf_name r2 ''-eth'' p2)) (\<lambda>intf2.
     let pair = add_veth_pair intf1 (Some (router_name r1)) intf2 (Some (router_name r2)) in
     rbind (setup_port t r1 p1 intf1) (\<lambda>(t, cmds1).
     rbind (case topology_node t (router_uuid r2) of Some (Rt r) \<Rightarrow> Inr r | _ \<Rightarrow> Inl Null_Deref) (\<lambda>r2.
     rbind (setup_port t r2 p2 intf2) (\<lambda>(t, cmds2). Inr (t, pair @ cmds1 @ cmds2))))))"

definition setup_router_nonrouter_link :: "topology \<Rightarrow> router \<Rightarrow> u32 \<Rightarrow> (topology \<times> command list) res" where
  "setup_router_nonrouter_link t r rport =
     rbind (sprintf 42 (intf_name r ''-eth'' rport)) (\<lambda>intf1.
     rbind (sprintf 42 (intf_name r ''-ext-eth'' rport)) (\<lambda>intf2.
     rbind (setup_port t r rport intf1) (\<lambda>(t, cmds).
       Inr (t, add_veth_pair intf1 (Some (router_name r)) intf2 None @ set_intf_up None intf2 @ cmds))))"

text \<open>What a link needs depends on which of its ends are routers.\<close>

definition setup_link :: "topology \<Rightarrow> link \<Rightarrow> (topology \<times> command list) res" where
  "setup_link t l =
     rbind (deref (topology_node t (fst (l_node1 l)))) (\<lambda>n1.
     rbind (deref (topology_node t (fst (l_node2 l)))) (\<lambda>n2.
       case (n1, n2) of
         (Rt r1, Rt r2) \<Rightarrow> setup_router_pair_link t r1 (snd (l_node1 l)) r2 (snd (l_node2 l))
       | (Rt r, _) \<Rightarrow> setup_router_nonrouter_link t r (snd (l_node1 l))
       | (_, Rt r) \<Rightarrow> setup_router_nonrouter_link t r (snd (l_node2 l))
       | _ \<Rightarrow> Inr (t, [])))"

text \<open>The loop over the links.  The table of links done backwards is a list of the ends to skip.\<close>

fun setup_links :: "topology \<Rightarrow> node_port_pair list \<Rightarrow> link list \<Rightarrow> (topology \<times> command list) res" where
  "setup_links t added [] = Inr (t, [])"
| "setup_links t added (l # ls) =
     (if l_node1 l \<in> set added then setup_links t added ls
      else rbind (setup_link t l) (\<lambda>(t, cmds).
             rbind (setup_links t (added @ [l_node2 l]) ls) (\<lambda>(t, more). Inr (t, cmds @ more))))"

definition setup_routers ::
  "os_answers \<Rightarrow> topology \<Rightarrow> internal_net_bytes \<Rightarrow> (topology \<times> internal_net_bytes \<times> command list) res" where
  "setup_routers os t b =
     rbind (start_routers os t b (routers t)) (\<lambda>(b, cmds1).
     rbind (setup_links t [] (links t)) (\<lambda>(t, cmds2).
     rbind (start_router_daemons os t (routers t)) (\<lambda>(t, cmds3). Inr (t, b, cmds1 @ cmds2 @ cmds3))))"

text \<open>The server is started, and the settings of every switch are given to the OpenFlow client: the
  result is the commands, whether the server runs and the switches that will connect.\<close>

definition setup_server :: "topology \<Rightarrow> command list \<times> bool \<times> u64 list" where
  "setup_server t =
     (if topology_routers_num t \<noteq> 0 then (create_internal_devices, True, map dn_dp_id (dps t))
      else ([], False, map dn_dp_id (dps t)))"

definition setup_sim :: "os_answers \<Rightarrow> ev_handler \<Rightarrow> internal_net_bytes \<Rightarrow> (ev_handler \<times> internal_net_bytes \<times> bool \<times> u64 list) res" where
  "setup_sim os evh b =
     (let (cmds, running, clients) = setup_server (topo evh);
          evh = evh\<lparr>commands := commands evh @ cmds\<rparr> in
      rbind (setup_app_events evh (hosts (topo evh))) (\<lambda>evh.
      rbind (setup_routers os (topo evh) b) (\<lambda>(t, b, cmds).
        Inr (evh\<lparr>topo := t, commands := commands evh @ cmds\<rparr>, b, running, clients))))"

subsection \<open>Every execution is scheduled\<close>

lemma schedule_execs_grows: "grows evh evh' \<Longrightarrow> grows evh (schedule_execs evh' h)"
proof -
  have "grows evh (fold (\<lambda>x evh. schedule evh (\<lambda>p. sim_event_app_start_new p (ex_start_time x) (host_uuid h) (ex_addr x))) xs evh')"
    if "grows evh evh'" for xs
    using that
  proof (induction xs arbitrary: evh')
    case (Cons x xs)
    have "grows evh (schedule evh' (\<lambda>p. sim_event_app_start_new p (ex_start_time x) (host_uuid h) (ex_addr x)))"
      by (rule grows_schedule [OF Cons.prems]) simp
    then show ?case
      using Cons.IH by simp
  qed simp
  then show "grows evh evh' \<Longrightarrow> grows evh (schedule_execs evh' h)"
    by (simp add: schedule_execs_def)
qed

lemma schedule_execs_topo [simp]: "topo (schedule_execs evh h) = topo evh"
proof -
  have "topo (fold (\<lambda>x evh. schedule evh (mk x)) xs evh) = topo evh" for mk xs
    by (induction xs arbitrary: evh) simp_all
  then show ?thesis
    by (simp add: schedule_execs_def)
qed

lemma setup_app_events_grows: "grows evh evh' \<Longrightarrow> setup_app_events evh' hns = Inr evh2 \<Longrightarrow> grows evh evh2"
  by (induction hns arbitrary: evh') (auto dest: schedule_execs_grows)

text \<open>The starts a host asks for: time, host and execution.\<close>

definition starts_of :: "host \<Rightarrow> (u64 \<times> event_body) list" where
  "starts_of h = map (\<lambda>x. (ex_start_time x, App_Start \<lparr>start_node_id = host_uuid h, start_exec = ex_addr x\<rparr>)) (execs h)"

definition pending :: "ev_handler \<Rightarrow> (u64 \<times> event_body) multiset" where
  "pending evh = mset (map (\<lambda>e. (ev_time e, ev_body e)) (ev_queue (sch evh)))"

lemma pending_schedule:
  "sch_inv (sch evh) \<Longrightarrow> pending (schedule evh mk) = add_mset (ev_time (mk (next_addr evh)), ev_body (mk (next_addr evh))) (pending evh)"
  using sched_queue.contents_insert [of "sch evh"] by (simp add: pending_def)

lemma pending_schedule_execs:
  assumes "sch_inv (sch evh)"
  shows "pending (schedule_execs evh h) = mset (starts_of h) + pending evh" "sch_inv (sch (schedule_execs evh h))"
proof -
  have all: "pending (fold (\<lambda>x evh. schedule evh (\<lambda>p. sim_event_app_start_new p (ex_start_time x) u (ex_addr x))) xs evh) =
      mset (map (\<lambda>x. (ex_start_time x, App_Start \<lparr>start_node_id = u, start_exec = ex_addr x\<rparr>)) xs) + pending evh \<and>
      sch_inv (sch (fold (\<lambda>x evh. schedule evh (\<lambda>p. sim_event_app_start_new p (ex_start_time x) u (ex_addr x))) xs evh))" for u xs
    using assms
  proof (induction xs arbitrary: evh)
    case (Cons x xs)
    then show ?case
      by (simp add: pending_schedule sch_inv_insert) (simp add: event_constructors)
  qed simp
  show "pending (schedule_execs evh h) = mset (starts_of h) + pending evh" "sch_inv (sch (schedule_execs evh h))"
    using all [of "host_uuid h" "execs h"] by (simp_all add: schedule_execs_def starts_of_def host_execs_def)
qed

text \<open>Setting up the applications schedules one start event for every execution of every host, at the
  start time of the execution and for its host, and nothing else.\<close>

theorem setup_app_events_exact:
  assumes "sch_inv (sch evh)" "map (topology_node (topo evh) \<circ> hn_uuid) hns = map (Some \<circ> Ht) hs"
  shows "\<exists>evh'. setup_app_events evh hns = Inr evh' \<and> pending evh' = mset (concat (map starts_of hs)) + pending evh"
  using assms
proof (induction hns arbitrary: evh hs)
  case (Cons hn hns)
  then obtain h hs' where hs: "hs = h # hs'" "topology_node (topo evh) (hn_uuid hn) = Some (Ht h)"
    by (cases hs) auto
  then show ?case
    using Cons.IH [of "schedule_execs evh h" hs'] Cons.prems pending_schedule_execs [OF Cons.prems(1), of h]
    by (auto simp: host_at_def)
qed simp

definition example_busy_host :: host where
  "example_busy_host = (fst (host_new 0))\<lparr>execs := [example_exec]\<rparr>"

definition example_busy :: ev_handler where
  "example_busy = example_evh\<lparr>topo := topology_add_host topology_new example_busy_host\<rparr>"

theorem setup_app_events_exact_witness:
  "\<exists>evh'. setup_app_events example_busy (hosts (topo example_busy)) = Inr evh' \<and>
     pending evh' = {#(9, App_Start \<lparr>start_node_id = 1, start_exec = 0\<rparr>)#}"
proof -
  have h: "host_uuid example_busy_host = 1" "nuuid (Ht example_busy_host) = 1"
    by (simp_all add: example_busy_host_def host_new_def legacy_node_init_def node_init_def host_uuid_def nuuid_def Let_def)
  have "sch_inv (sch example_busy)" "pending example_busy = {#}"
    by (simp_all add: example_busy_def example_evh_def pending_def) (simp add: scheduler_new_def)
  moreover have "map (topology_node (topo example_busy) \<circ> hn_uuid) (hosts (topo example_busy)) = map (Some \<circ> Ht) [example_busy_host]"
    by (simp add: example_busy_def topology_node_def topology_add_host_def topology_new_def topology_init_def h HASH_ADD_def HASH_FIND_def)
  moreover have "starts_of example_busy_host = [(9, App_Start \<lparr>start_node_id = 1, start_exec = 0\<rparr>)]"
    by (simp add: starts_of_def h) (simp add: example_busy_host_def example_exec_def)
  ultimately show ?thesis
    using setup_app_events_exact [of example_busy "hosts (topo example_busy)" "[example_busy_host]"] by simp
qed

subsection \<open>Every link is set up once\<close>

text \<open>The links that are set up, in order: those whose first end is not the second end of one set up
  before.\<close>

fun once :: "node_port_pair list \<Rightarrow> link list \<Rightarrow> link list" where
  "once added [] = []"
| "once added (l # ls) = (if l_node1 l \<in> set added then once added ls else l # once (added @ [l_node2 l]) ls)"

fun setup_all :: "topology \<Rightarrow> link list \<Rightarrow> (topology \<times> command list) res" where
  "setup_all t [] = Inr (t, [])"
| "setup_all t (l # ls) =
     rbind (setup_link t l) (\<lambda>(t, cmds). rbind (setup_all t ls) (\<lambda>(t, more). Inr (t, cmds @ more)))"

lemma setup_links_once: "setup_links t added ls = setup_all t (once added ls)"
  by (induction ls arbitrary: t added) simp_all

lemma set_once: "l \<in> set (once added ls) \<Longrightarrow> l \<in> set ls"
  by (induction ls arbitrary: added) (auto split: if_splits)

lemma once_append: "once added (xs @ ys) = once added xs @ once (added @ map l_node2 (once added xs)) ys"
  by (induction xs arbitrary: added) simp_all

lemma once_at:
  assumes "distinct (xs @ l # ys)"
  shows "l \<in> set (once [] (xs @ l # ys)) \<longleftrightarrow> l_node1 l \<notin> l_node2 ` set (once [] xs)"
  using assms set_once [of l "[]" xs] set_once [of l _ ys] by (auto simp: once_append)

text \<open>Of the two directions of a link, the first in the list is set up and the second is not.\<close>

lemma once_first:
  assumes "distinct (map l_node1 (xs @ l # ys))" "r \<in> set ys" "l_node1 r = l_node2 l"
    and sym: "\<And>p. p \<in> set (xs @ l # ys) \<Longrightarrow> \<exists>q \<in> set (xs @ l # ys). l_node1 q = l_node2 p \<and> l_node2 q = l_node1 p"
  shows "l \<in> set (once [] (xs @ l # ys)) \<and> r \<notin> set (once [] (xs @ l # ys))"
proof -
  have inj: "inj_on l_node1 (set (xs @ l # ys))" and dist: "distinct (xs @ l # ys)"
    using assms(1) by (simp_all only: distinct_map)
  have "l_node1 l \<noteq> l_node2 p" if "p \<in> set xs" for p
  proof
    assume "l_node1 l = l_node2 p"
    moreover have "p \<in> set (xs @ l # ys)"
      using that by simp
    then obtain q where "q \<in> set (xs @ l # ys)" "l_node1 q = l_node2 p" "l_node2 q = l_node1 p"
      using sym by blast
    ultimately have "l_node2 l = l_node1 p"
      using inj_onD [OF inj, of q l] by simp
    then show False
      using inj_onD [OF inj, of r p] assms(2,3) that dist by auto
  qed
  then have l: "l \<in> set (once [] (xs @ l # ys))"
    using once_at [OF dist] set_once [of _ "[]" xs] by auto
  obtain us vs where ys: "ys = us @ r # vs"
    using assms(2) by (meson split_list)
  have "l \<notin> set (r # vs)"
    using dist by (auto simp: ys)
  then have "l \<notin> set (once added (r # vs))" for added
    using set_once by blast
  with l have "l \<in> set (once [] (xs @ l # us))"
    unfolding ys once_append [of "[]" "xs @ l # us" "r # vs", unfolded append_assoc append_Cons] by (simp only: set_append Un_iff) simp
  then show ?thesis
    using l once_at [of "xs @ l # us" r vs] dist assms(3) by (auto simp: ys)
qed

lemma distinct_once: "distinct ls \<Longrightarrow> distinct (once added ls)"
  by (induction ls arbitrary: added) (auto dest: set_once)

lemma built_links_irreflexive: "topo_built t \<Longrightarrow> l \<in> set (links t) \<Longrightarrow> l_node1 l \<noteq> l_node2 l"
proof (induction arbitrary: l rule: topo_built.induct)
  case (built_link t u p v q bw lat)
  then show ?case
  proof (cases "topology_node t u = None \<or> topology_node t v = None")
    case False
    then show ?thesis
      using built_link by (auto simp: topology_add_link_eq)
  qed (simp add: topology_add_link_missing)
qed (auto simp: topology_new_def topology_init_def topology_add_router_def topology_add_datapath_def topology_add_host_def)

lemma built_links_reversed:
  assumes "topo_built t" "l \<in> set (links t)"
  shows "\<exists>r \<in> set (links t). l_node1 r = l_node2 l \<and> l_node2 r = l_node1 l"
proof -
  have ok: "topo_ok t" "links_symmetric t"
    using topo_built_ok [OF assms(1)] by simp_all
  have "topology_next_hop t (fst (l_node1 l)) (snd (l_node1 l)) = Some (fst (l_node2 l), snd (l_node2 l), l_latency l)"
    using HASH_FIND_unique [of l_node1 "links t" "l_node1 l" l] ok(1) assms(2) by (simp add: topo_ok_def topology_next_hop_def)
  then have "topology_next_hop t (fst (l_node2 l)) (snd (l_node2 l)) = Some (fst (l_node1 l), snd (l_node1 l), l_latency l)"
    using ok(2) unfolding links_symmetric_def by blast
  then obtain r where "HASH_FIND l_node1 (links t) (l_node2 l) = Some r" "l_node2 r = l_node1 l"
    by (auto simp: topology_next_hop_def prod_eq_iff split: option.splits)
  then show ?thesis
    by (blast dest: HASH_FIND_SomeD)
qed

text \<open>C31: In a network built by the tools every link is set up exactly once: the loop over the two
  directions of every link sets up the links of a list in which of a link and its reverse exactly one
  stands, and no link twice.  So no interface is created twice.\<close>

theorem links_set_up_once:
  assumes "topo_built t"
  shows "setup_links t [] (links t) = setup_all t (once [] (links t)) \<and> distinct (once [] (links t)) \<and>
    set (once [] (links t)) \<subseteq> set (links t) \<and>
    (\<forall>l r. l \<in> set (links t) \<longrightarrow> r \<in> set (links t) \<longrightarrow> l_node1 r = l_node2 l \<longrightarrow>
       (l \<in> set (once [] (links t)) \<longleftrightarrow> r \<notin> set (once [] (links t))))"
proof -
  have keys: "distinct (map l_node1 (links t))"
    using topo_built_ok [OF assms] by (simp add: topo_ok_def)
  have one: "l \<in> set (once [] (links t)) \<longleftrightarrow> r \<notin> set (once [] (links t))"
    if lr: "l \<in> set (links t)" "r \<in> set (links t)" "l_node1 r = l_node2 l" for l r
  proof -
    obtain xs ys where xs: "links t = xs @ l # ys"
      using lr(1) by (meson split_list)
    obtain q where q: "q \<in> set (links t)" "l_node1 q = l_node2 l" "l_node2 q = l_node1 l"
      using built_links_reversed [OF assms lr(1)] by blast
    then have l2: "l_node2 r = l_node1 l"
      using keys lr inj_onD [of l_node1 "set (links t)" q r] by (simp add: distinct_map)
    have "r \<noteq> l"
      using built_links_irreflexive [OF assms lr(1)] lr(3) by auto
    then consider "r \<in> set ys" | "r \<in> set xs"
      using lr(2) xs by auto
    then show ?thesis
    proof cases
      case 1
      then show ?thesis
        using once_first [of xs l ys r] keys lr(3) built_links_reversed [OF assms] unfolding xs by blast
    next
      case 2
      then obtain us vs where "xs = us @ r # vs"
        by (meson split_list)
      then have "links t = us @ r # (vs @ l # ys)" "l \<in> set (vs @ l # ys)"
        using xs by simp_all
      then show ?thesis
        using once_first [of us r "vs @ l # ys" l] keys l2 built_links_reversed [OF assms] by metis
    qed
  qed
  have "distinct (once [] (links t))"
    using keys distinct_once distinct_map by blast
  then show ?thesis
    using one setup_links_once set_once by blast
qed

lemma example_links:
  "links example_topology =
     [\<lparr>l_node1 = (1, 1), l_node2 = (2, 2), l_latency = 5, l_bandwidth = 100\<rparr>, \<lparr>l_node1 = (2, 2), l_node2 = (1, 1), l_latency = 5, l_bandwidth = 100\<rparr>]"
  unfolding example_topology_def
  by (subst topology_add_link_eq)
    (simp_all add: topology_node_def topology_new_def topology_init_def topology_add_host_def host_new_uuid HASH_ADD_def HASH_FIND_def)

theorem links_set_up_once_witness:
  "topo_built example_topology \<and> length (links example_topology) = 2 \<and> length (once [] (links example_topology)) = 1 \<and>
   set (once [] (links example_topology)) \<subseteq> set (links example_topology)"
  using links_set_up_once [OF example_built(1)] example_built(1)
  by (simp add: example_links)

subsection \<open>The network keeps its shape\<close>

lemma same_shape_refl [simp]: "same_shape t t"
  by (simp add: same_shape_def)

lemma same_shape_trans: "same_shape a b \<Longrightarrow> same_shape b c \<Longrightarrow> same_shape a c"
  by (simp add: same_shape_def)

lemma same_shape_put:
  assumes "topology_node t u = Some n0" "shape n = shape n0"
  shows "same_shape t (put_node t n)"
proof -
  have "nuuid n = u"
    using topology_node_uuid [OF assms(1)] assms(2) by (simp add: shape_def)
  then have "map shape (nodes (put_node t n)) = map shape (nodes t)"
    using assms by (intro map_shape_put) simp
  then show ?thesis
    by (simp add: same_shape_def put_node_def)
qed

lemma upd_port_const_ids: "port_id p = pid \<Longrightarrow> port_ids (upd_port n pid (\<lambda>_. p)) = port_ids n"
proof -
  assume p: "port_id p = pid"
  have "map port_id (update_first (\<lambda>e. port_id e = pid) (\<lambda>_. p) xs) = map port_id xs" for xs
    using p by (induction xs) auto
  then show ?thesis
    by (simp add: port_ids_def upd_port_def hash_update_def flip: rev_map)
qed

lemma setup_port_shape:
  assumes "setup_port t r pid intf = Inr (t', cmds)" "topology_node t u = Some (Rt r)"
  shows "same_shape t t'"
proof (cases "router_port r pid")
  case None
  then show ?thesis
    using assms(1) by (simp add: setup_port_def)
next
  case (Some p)
  let ?r = "r\<lparr>ln := (ln r)\<lparr>base := upd_port (base (ln r)) pid (\<lambda>_. port_set_name p intf)\<rparr>\<rparr>"
  have "port_id (port_set_name p intf) = pid"
    using Some by (auto simp: router_port_def node_port_def port_set_name_def dest: HASH_FIND_SomeD)
  then have "shape (Rt ?r) = shape (Rt r)"
    by (simp add: shape_def nuuid_def upd_port_const_ids)
  then have "same_shape t (put_node t (Rt ?r))"
    using assms(2) same_shape_put by blast
  moreover have "t' = put_node t (Rt ?r)"
    using assms(1) Some by (auto simp: setup_port_def Let_def split: if_splits)
  ultimately show ?thesis
    by simp
qed

lemma setup_router_pair_shape:
  assumes "setup_router_pair_link t r1 p1 r2 p2 = Inr (t', cmds)" "topology_node t u = Some (Rt r1)"
  shows "same_shape t t'"
proof -
  obtain intf1 intf2 t1 cs1 r cs2 where s: "setup_port t r1 p1 intf1 = Inr (t1, cs1)"
      "(case topology_node t1 (router_uuid r2) of Some (Rt r) \<Rightarrow> Inr r | _ \<Rightarrow> Inl Null_Deref) = Inr r"
      "setup_port t1 r p2 intf2 = Inr (t', cs2)"
    using assms(1) unfolding setup_router_pair_link_def Let_def rbind_eq_Inr by (auto simp only: split_paired_all prod.case rbind_eq_Inr)
  have "topology_node t1 (router_uuid r2) = Some (Rt r)"
    using s(2) by (auto split: option.splits net_node.splits)
  then show ?thesis
    using setup_port_shape [OF s(1) assms(2)] setup_port_shape [OF s(3)] same_shape_trans by blast
qed

lemma setup_nonrouter_shape:
  assumes "setup_router_nonrouter_link t r p = Inr (t', cmds)" "topology_node t u = Some (Rt r)"
  shows "same_shape t t'"
  using assms(1) unfolding setup_router_nonrouter_link_def
  by (auto dest!: setup_port_shape [OF _ assms(2)])

lemma setup_link_shape:
  assumes "setup_link t l = Inr (t', cmds)"
  shows "same_shape t t'"
proof -
  obtain n1 n2 where n: "topology_node t (fst (l_node1 l)) = Some n1" "topology_node t (fst (l_node2 l)) = Some n2"
    using assms by (auto simp: setup_link_def)
  then show ?thesis
    using assms by (cases n1; cases n2)
      (auto simp: setup_link_def intro: setup_router_pair_shape setup_nonrouter_shape)
qed

lemma setup_links_shape: "setup_links t added ls = Inr (t', cmds) \<Longrightarrow> same_shape t t'"
  by (induction ls arbitrary: t added cmds)
    (auto split: if_splits dest!: setup_link_shape intro: same_shape_trans)

lemma start_router_daemons_shape: "start_router_daemons os t rns = Inr (t', cmds) \<Longrightarrow> same_shape t t'"
proof (induction rns arbitrary: t cmds)
  case (Cons rn rns)
  then obtain r r' cs more where r: "router_at t rn = Inr r"
      "router_start_daemon r (zebra_fd os (router_name r)) (zebra_refused os (router_name r)) (helper_env os) = Inr (r', cs)"
      "start_router_daemons os (put_node t (Rt r')) rns = Inr (t', more)"
    by auto
  have "shape (Rt r') = shape (Rt r)"
    using r(2) by (auto simp: router_start_daemon_def shape_def nuuid_def Let_def)
  moreover have "topology_node t (rn_uuid rn) = Some (Rt r)"
    using r(1) by (auto simp: router_at_def split: option.splits net_node.splits)
  ultimately show ?case
    using Cons.IH [OF r(3)] same_shape_put same_shape_trans by blast
qed simp

lemma setup_sim_ok:
  assumes "setup_sim os evh b = Inr (evh', b', running, clients)" "evh_ok evh"
  shows "evh_ok evh' \<and> (list_all work_event (ev_queue (sch evh)) \<longrightarrow> list_all work_event (ev_queue (sch evh'))) \<and>
    mode (sch evh') = mode (sch evh)"
proof -
  define evh0 where "evh0 = evh\<lparr>commands := commands evh @ fst (setup_server (topo evh))\<rparr>"
  obtain evh1 t cmds where e: "setup_app_events evh0 (hosts (topo evh)) = Inr evh1" "setup_routers os (topo evh1) b = Inr (t, b', cmds)"
      "evh' = evh1\<lparr>topo := t, commands := commands evh1 @ cmds\<rparr>"
    using assms(1) by (auto simp: setup_sim_def evh0_def Let_def split_beta)
  have g: "grows evh evh1"
    using setup_app_events_grows [OF _ e(1), of evh] by (simp add: evh0_def grows_fields)
  have ok1: "evh_ok evh1"
    using evh_ok_grows [OF assms(2) g] .
  have "same_shape (topo evh1) t"
    using e(2) by (auto simp: setup_routers_def dest!: setup_links_shape start_router_daemons_shape intro: same_shape_trans)
  then have "evh_ok evh'"
    using ok1 by (simp add: e(3) evh_ok_def topo_ok_same_shape)
  moreover obtain new where new: "sch evh1 = fold (\<lambda>e s. scheduler_insert s e) new (sch evh)" "list_all work_event new"
    using g by (auto simp: grows_def)
  moreover have "mset (ev_queue (sch evh1)) = mset new + mset (ev_queue (sch evh))"
    using sched_queue.fold_insert [of "sch evh" new] assms(2) by (simp add: evh_ok_def new(1))
  then have "set (ev_queue (sch evh1)) = set new \<union> set (ev_queue (sch evh))"
    by (metis set_mset_mset set_mset_union)
  ultimately show ?thesis
    by (auto simp: e(3) list_all_iff scheduler_fold_insert_fields)
qed

end
