(* ===== verification/Sim.thy ===== *)
theory Sim
  imports Setup "HOL-Library.Signed_Division"
begin

section \<open>The two threads of the simulator (sim/sim)\<close>

text \<open>
  The state of a simulation and its threads.  One thread dispatches events while the scheduler is in
  its mode \<open>DES\<close>; a timer runs the other while it is in mode \<open>FTI\<close>, where the clock of the scheduler
  follows the clock of the machine.  The threads wait for their mode, so they alternate; what the
  callbacks of the connections insert may come between any two calls of the scheduler, each of which
  holds its mutex.  The steps of the relation below are therefore a round of the first thread, the
  beginning of an activation of the second, a round of its loop, and a callback.  The readings of
  the clock of the machine and the connections that are open are parameters.
\<close>

subsection \<open>State\<close>

record timespec =
  tv_sec :: int
  tv_nsec :: int

record sim =
  s_evh :: ev_handler
  s_config :: sim_config
  cm_made :: bool
  last_wrt :: u64
  last_ctrl :: u64
  last_stats :: u64
  last_read :: timespec
  cur_ev :: "sim_event option"
  stats_out :: "stats_line list"
  rx_state :: cb_state
  in_cont :: bool
  ended :: bool

abbreviation s_sch :: "sim \<Rightarrow> scheduler" where
  "s_sch s \<equiv> sch (s_evh s)"

abbreviation upd_sch :: "(scheduler \<Rightarrow> scheduler) \<Rightarrow> sim \<Rightarrow> sim" where
  "upd_sch f s \<equiv> s\<lparr>s_evh := (s_evh s)\<lparr>sch := f (s_sch s)\<rparr>\<rparr>"

text \<open>The differences are computed with \<open>long\<close>, whose division truncates.\<close>

definition elapsed_us :: "timespec \<Rightarrow> timespec \<Rightarrow> u64" where
  "elapsed_us now prev =
     word_of_int ((tv_sec now - tv_sec prev) * 1000000 + (tv_nsec now - tv_nsec prev) sdiv 1000)"

subsection \<open>Start and end\<close>

text \<open>\<open>conns n\<close> are the switches connected after \<open>n\<close> seconds.\<close>

function wait_all_switches_connect :: "(nat \<Rightarrow> u64 list) \<Rightarrow> topology \<Rightarrow> nat \<Rightarrow> nat res" where
  "wait_all_switches_connect conns t time =
     (if of_nat (length (conns time)) < topology_dps_num t then
        let time = time + 1 in
        if time > 10 then Inl Exit_Failure else wait_all_switches_connect conns t time
      else Inr time)"
  by pat_completeness auto
termination
  by (relation "measure (\<lambda>(conns, t, time). 11 - time)") auto

declare wait_all_switches_connect.simps [simp del]

definition end_event :: "sim_config \<Rightarrow> addr \<Rightarrow> sim_event" where
  "end_event config p = (sim_event_new p (sim_config_get_end_time config))\<lparr>ev_type := Some EVENT_END\<rparr>"

definition ev_handler_init :: "topology \<Rightarrow> ev_handler" where
  "ev_handler_init t = \<lparr>topo = t, sch = scheduler_new, live_flows = [],
     cm = \<lparr>active_conns = [], of_sent = [], routing_sent = []\<rparr>, next_flow_id = 0, next_addr = 0, commands = []\<rparr>"

definition sim_init :: "os_answers \<Rightarrow> (nat \<Rightarrow> u64 list) \<Rightarrow> timespec \<Rightarrow> topology \<Rightarrow> sim_config \<Rightarrow> sim res" where
  "sim_init os conns now t config =
     rbind
       (if sim_config_get_mode config = EMU_CTRL then
          rbind (setup_sim os (ev_handler_init t) internal_last_bytes) (\<lambda>(evh, _).
          if topology_dps_num (topo evh) \<noteq> 0 then
            rbind (wait_all_switches_connect conns (topo evh) 0) (\<lambda>n.
              Inr (evh\<lparr>cm := (cm evh)\<lparr>active_conns := conns n\<rparr>\<rparr>, True))
          else Inr (evh, True))
        else Inr (ev_handler_init t, False)) (\<lambda>(evh, made).
     Inr \<lparr>s_evh = schedule evh (end_event config), s_config = config, cm_made = made, last_wrt = 0,
       last_ctrl = 0, last_stats = 0, last_read = now, cur_ev = None, stats_out = [], rx_state = cb_init,
       in_cont = False, ended = False\<rparr>)"

text \<open>The commands of the end: those of the nodes, and those that remove the bridge.\<close>

definition sim_close :: "sim \<Rightarrow> command list res" where
  "sim_close s =
     (if \<not> cm_made s then Inl Null_Deref
      else
        let has_routers = topology_routers_num (topo (s_evh s)) \<noteq> 0 in
        rbind (topology_destroy (topo (s_evh s))) (\<lambda>cmds.
          Inr (cmds @
            (if has_routers
             then [Netns_Run None ''ip link delete conn1'', Netns_Run None ''ifconfig br0 down'',
               Netns_Run None ''brctl delbr br0'', Netns_Run None ''ip netns del bridge'']
             else []))))"

subsection \<open>Statistics and time messages\<close>

fun update_stats_loop :: "u64 \<Rightarrow> net_node list \<Rightarrow> stats_line list \<times> net_node list" where
  "update_stats_loop time [] = ([], [])"
| "update_stats_loop time (n # ns) =
     (let (ls, b) = node_write_stats (node_of n) time; (more, ns') = update_stats_loop time ns
      in (ls @ more, set_node_of b n # ns'))"

definition update_stats :: "topology \<Rightarrow> u64 \<Rightarrow> stats_line list \<times> topology" where
  "update_stats t time = (let (ls, ns) = update_stats_loop time (nodes t) in (ls, t\<lparr>nodes := ns\<rparr>))"

text \<open>Both threads report when a second has passed since the last report.\<close>

definition report_stats :: "u64 \<Rightarrow> sim \<Rightarrow> sim" where
  "report_stats time s =
     (if (time - last_stats s) div 1000000 \<noteq> 0 then
        let (ls, t) = update_stats (topo (s_evh s)) time in
        s\<lparr>s_evh := (s_evh s)\<lparr>topo := t\<rparr>, stats_out := stats_out s @ ls, last_stats := time\<rparr>
      else s)"

definition make_time_msg :: "addr \<Rightarrow> u64 \<Rightarrow> sim_event" where
  "make_time_msg p time =
     sim_event_of_msg_out_new p time 1
       ([4, 4] @ mem16 (swap16 24) @ mem32 0 @ mem32 (swap32 0xF0A1F0A1) @ mem32 0 @ mem64 (hton64 time)) 24"

subsection \<open>The thread of the discrete events\<close>

text \<open>One round of the loop: the first event is taken from the queue and handled; a control event
  hands over to the other thread.\<close>

definition des_round :: "libs \<Rightarrow> sim \<Rightarrow> sim res" where
  "des_round lib s =
     rbind (scheduler_dispatch (s_sch s)) (\<lambda>(ev, q).
       let s = report_stats (ev_time ev) (upd_sch (\<lambda>_. q\<lparr>clock := ev_time ev\<rparr>) s) in
       if ev_type ev = None then Inl Uninitialised
       else if ev_type ev \<noteq> Some EVENT_END then
         rbind (handle_event lib (s_evh s) ev) (\<lambda>evh.
           let s = s\<lparr>s_evh := evh\<rparr>;
               s = (if ev_type ev = Some EVENT_FTI
                    then upd_sch (\<lambda>q. q\<lparr>mode := FTI\<rparr>) (s\<lparr>last_ctrl := clock (s_sch s)\<rparr>) else s) in
           rbind (sim_event_free ev) (\<lambda>_. Inr s))
       else rbind (sim_event_free ev) (\<lambda>_. Inr (s\<lparr>ended := True\<rparr>)))"

subsection \<open>The thread of the fixed time increments\<close>

text \<open>The time message is not put into the queue and not released.\<close>

definition cont_begin :: "libs \<Rightarrow> timespec \<Rightarrow> sim \<Rightarrow> sim res" where
  "cont_begin lib now s =
     (let s = s\<lparr>cur_ev := scheduler_retrieve (s_sch s), in_cont := True\<rparr>;
          s = upd_sch (\<lambda>q. q\<lparr>clock := clock q + elapsed_us now (last_read s)\<rparr>) s;
          time = clock (s_sch s); p = next_addr (s_evh s) in
      if time - last_wrt s > 10000000 then
        if \<not> cm_made s then Inl Null_Deref
        else
          rbind (handle_event lib ((s_evh s)\<lparr>next_addr := p + 1\<rparr>) (make_time_msg p time)) (\<lambda>evh.
            Inr (s\<lparr>s_evh := evh, last_wrt := time\<rparr>))
      else Inr s)"

definition check_idle :: "sim \<Rightarrow> sim" where
  "check_idle s =
     (let s = s\<lparr>in_cont := False\<rparr> in
      if clock (s_sch s) - last_ctrl s > sim_config_get_ctrl_idle_interval (s_config s)
      then upd_sch (\<lambda>q. q\<lparr>mode := DES\<rparr>) s else s)"

text \<open>One test of the loop's condition, with what follows.\<close>

definition cont_round :: "libs \<Rightarrow> timespec \<Rightarrow> sim \<Rightarrow> sim res" where
  "cont_round lib now s =
     rbind (deref (cur_ev s)) (\<lambda>ev.
       if ev_time ev \<le> clock (s_sch s) then
         let s = report_stats (ev_time ev) s in
         if ev_type ev = None then Inl Uninitialised
         else if ev_type ev = Some EVENT_END then Inr (check_idle s)
         else
           let s = (if ev_type ev = Some EVENT_FTI then s\<lparr>last_ctrl := ev_time ev\<rparr> else s) in
           rbind (handle_event lib (s_evh s) ev) (\<lambda>evh.
           rbind (scheduler_delete (sch evh) (ev_addr ev)) (\<lambda>q.
           rbind (sim_event_free ev) (\<lambda>_.
             Inr (s\<lparr>s_evh := evh\<lparr>sch := q\<rparr>, cur_ev := scheduler_retrieve q\<rparr>))))
       else Inr (check_idle (s\<lparr>last_read := now\<rparr>)))"

text \<open>An activation with nothing in between.  The loop has no bound: its handlers may schedule events
  that are due.\<close>

partial_function (option) cont_loop :: "libs \<Rightarrow> timespec \<Rightarrow> sim \<Rightarrow> sim res option" where
  "cont_loop lib now s =
     (case cont_round lib now s of
        Inl e \<Rightarrow> Some (Inl e)
      | Inr s' \<Rightarrow> if in_cont s' then cont_loop lib now s' else Some (Inr s'))"

definition cont_mode :: "libs \<Rightarrow> timespec \<Rightarrow> timespec \<Rightarrow> sim \<Rightarrow> sim res" where
  "cont_mode lib now now2 s = rbind (cont_begin lib now s) (\<lambda>s. returned (cont_loop lib now2 s))"

subsection \<open>Callbacks and steps\<close>

text \<open>What arrives becomes events at new addresses; a read of routing messages uses at most one
  address for each byte and one more.\<close>

definition receive_of :: "sim \<Rightarrow> u64 \<Rightarrow> bytes \<Rightarrow> nat \<Rightarrow> sim" where
  "receive_of s dpid data len =
     s\<lparr>s_evh := (s_evh s)\<lparr>sch := conn_manager_of_message_cb (s_sch s) (next_addr (s_evh s)) dpid data len,
       next_addr := next_addr (s_evh s) + 1\<rparr>\<rparr>"

definition receive_routing :: "sim \<Rightarrow> int \<Rightarrow> bytes \<Rightarrow> sim res" where
  "receive_routing s conn_id input =
     rbind (conn_manager_router_message_cb (s_sch s) conn_id (next_addr (s_evh s)) (rx_state s) input) (\<lambda>(q, st).
       Inr (s\<lparr>s_evh := (s_evh s)\<lparr>sch := q, next_addr := next_addr (s_evh s) + length input + 1\<rparr>, rx_state := st\<rparr>))"

inductive sim_step :: "libs \<Rightarrow> sim \<Rightarrow> sim \<Rightarrow> bool" for lib where
  step_des: "\<not> ended s \<Longrightarrow> mode (s_sch s) = DES \<Longrightarrow> des_round lib s = Inr s' \<Longrightarrow> sim_step lib s s'"
| step_begin: "\<not> in_cont s \<Longrightarrow> mode (s_sch s) = FTI \<Longrightarrow> cont_begin lib now s = Inr s' \<Longrightarrow> sim_step lib s s'"
| step_round: "in_cont s \<Longrightarrow> cont_round lib now s = Inr s' \<Longrightarrow> sim_step lib s s'"
| step_of: "cm_made s \<Longrightarrow> sim_step lib s (receive_of s dpid data len)"
| step_routing: "cm_made s \<Longrightarrow> receive_routing s conn_id input = Inr s' \<Longrightarrow> sim_step lib s s'"
| step_conns: "cm_made s \<Longrightarrow> sim_step lib s (s\<lparr>s_evh := (s_evh s)\<lparr>cm := (cm (s_evh s))\<lparr>active_conns := conns\<rparr>\<rparr>\<rparr>)"

subsection \<open>What the steps keep\<close>

text \<open>The events that end the simulation.\<close>

definition ends :: "scheduler \<Rightarrow> sim_event set" where
  "ends q = {e \<in> set (ev_queue q). ev_type e = Some EVENT_END}"

definition sim_ok :: "sim \<Rightarrow> bool" where
  "sim_ok s \<longleftrightarrow> evh_ok (s_evh s) \<and> (\<forall>e \<in> ends (s_sch s). ev_time e = cfg_end_time (s_config s)) \<and>
     (ended s \<longrightarrow> mode (s_sch s) = DES \<and> \<not> in_cont s) \<and> (\<not> ended s \<longrightarrow> ends (s_sch s) \<noteq> {}) \<and>
     (in_cont s \<longrightarrow> mode (s_sch s) = FTI \<and>
        (\<exists>e \<in> set (ev_queue (s_sch s)). cur_ev s = Some e \<and> ev_time e \<le> cfg_end_time (s_config s)))"

lemma evh_ok_fields [simp]:
  "evh_ok (evh\<lparr>live_flows := a\<rparr>) = evh_ok evh" "evh_ok (evh\<lparr>cm := b\<rparr>) = evh_ok evh"
  "evh_ok (evh\<lparr>commands := c\<rparr>) = evh_ok evh" "evh_ok (evh\<lparr>next_flow_id := d\<rparr>) = evh_ok evh"
  by (simp_all add: evh_ok_def)

lemma evh_ok_sch: "ev_queue q = ev_queue (sch evh) \<Longrightarrow> evh_ok (evh\<lparr>sch := q\<rparr>) = evh_ok evh"
  by (simp add: evh_ok_def sch_inv_def)

lemma evh_ok_next: "evh_ok evh \<Longrightarrow> next_addr evh \<le> n \<Longrightarrow> evh_ok (evh\<lparr>next_addr := n\<rparr>)"
  by (auto simp: evh_ok_def list_all_iff)

lemma evh_ok_topo: "evh_ok evh \<Longrightarrow> same_shape (topo evh) t \<Longrightarrow> evh_ok (evh\<lparr>topo := t\<rparr>)"
  by (simp add: evh_ok_def topo_ok_same_shape)

lemma set_scheduler_insert [simp]: "set (ev_queue (scheduler_insert q e)) = insert e (set (ev_queue q))"
proof -
  have "mset (ev_queue (scheduler_insert q e)) = add_mset e (mset (ev_queue q))"
    by (simp add: scheduler_insert_def)
  then show ?thesis
    by (metis set_mset_add_mset_insert set_mset_mset)
qed

lemma evh_ok_insert:
  assumes "evh_ok evh" "wf_event e" "next_addr evh \<le> ev_addr e" "ev_addr e < n"
  shows "evh_ok (evh\<lparr>sch := scheduler_insert (sch evh) e, next_addr := n\<rparr>)"
proof -
  have "distinct (map ev_addr (e # ev_queue (sch evh)))"
    using assms by (auto simp: evh_ok_def list_all_iff)
  moreover have "mset (map ev_addr (ev_queue (scheduler_insert (sch evh) e))) = mset (map ev_addr (e # ev_queue (sch evh)))"
    by (simp add: scheduler_insert_def)
  ultimately have "distinct (map ev_addr (ev_queue (scheduler_insert (sch evh) e)))"
    using mset_eq_imp_distinct_iff by blast
  then show ?thesis
    using assms by (auto simp: evh_ok_def list_all_iff sch_inv_insert)
qed

lemma grows_queue:
  assumes "grows evh evh'" "evh_ok evh"
  shows "evh_ok evh' \<and> ends (sch evh') = ends (sch evh) \<and> set (ev_queue (sch evh)) \<subseteq> set (ev_queue (sch evh')) \<and>
    clock (sch evh') = clock (sch evh) \<and> mode (sch evh') = mode (sch evh)"
proof -
  obtain new where new: "sch evh' = fold (\<lambda>e s. scheduler_insert s e) new (sch evh)" "list_all work_event new"
    using assms(1) by (auto simp: grows_def)
  have "mset (ev_queue (sch evh')) = mset new + mset (ev_queue (sch evh))"
    using sched_queue.fold_insert [of "sch evh" new] assms(2) by (simp add: evh_ok_def new(1))
  then have "set (ev_queue (sch evh')) = set new \<union> set (ev_queue (sch evh))"
    by (metis set_mset_mset set_mset_union)
  then show ?thesis
    using evh_ok_grows [OF assms(2,1)] new
    by (auto simp: ends_def list_all_iff work_event_def scheduler_fold_insert_fields)
qed

lemma update_stats_shape: "same_shape t (snd (update_stats t time))"
proof -
  have ports: "map port_id (snd (write_stats_loop w ps)) = map port_id ps" for w ps
    using write_stats_loop_ports [of w ps] by (metis (mono_tags, lifting) comp_apply fst_conv map_map map_eq_conv)
  have "map shape (snd (update_stats_loop time ns)) = map shape ns" for ns
    by (induction ns) (auto simp: shape_def node_write_stats_def port_ids_def ports Let_def split_beta nuuid_def)
  then show ?thesis
    by (simp add: same_shape_def update_stats_def Let_def split_beta)
qed

lemma report_stats_fields [simp]:
  "s_sch (report_stats time s) = s_sch s" "s_config (report_stats time s) = s_config s"
  "cur_ev (report_stats time s) = cur_ev s" "in_cont (report_stats time s) = in_cont s"
  "ended (report_stats time s) = ended s" "last_ctrl (report_stats time s) = last_ctrl s"
  "cm_made (report_stats time s) = cm_made s" "last_read (report_stats time s) = last_read s"
  "next_addr (s_evh (report_stats time s)) = next_addr (s_evh s)"
  by (simp_all add: report_stats_def Let_def split_beta)

lemma report_stats_ok [simp]: "evh_ok (s_evh s) \<Longrightarrow> evh_ok (s_evh (report_stats time s))"
  using update_stats_shape by (simp add: report_stats_def Let_def split_beta evh_ok_topo)

text \<open>The first event of the queue is not later than the end.\<close>

lemma head_before_end:
  assumes "sch_inv q" "ends q \<noteq> {}" "\<forall>e \<in> ends q. ev_time e = t"
  obtains ev rest where "ev_queue q = ev # rest" "ev_time ev \<le> t"
proof -
  obtain e where e: "e \<in> set (ev_queue q)" "ev_time e = t"
    using assms(2,3) by (auto simp: ends_def)
  then obtain ev rest where q: "ev_queue q = ev # rest"
    by (cases "ev_queue q") auto
  then have "ev_time ev \<le> t"
    using e assms(1) by (auto simp: sch_inv_def)
  then show ?thesis
    using that q by blast
qed

lemma sim_head:
  assumes "sim_ok s" "\<not> ended s"
  obtains ev rest where "ev_queue (s_sch s) = ev # rest" "ev_time ev \<le> cfg_end_time (s_config s)"
proof -
  have "sch_inv (s_sch s)" "ends (s_sch s) \<noteq> {}" "\<forall>e \<in> ends (s_sch s). ev_time e = cfg_end_time (s_config s)"
    using assms by (simp_all add: sim_ok_def evh_ok_def)
  then show ?thesis
    by (rule head_before_end) (rule that)
qed

text \<open>The state in which the dispatched event is handled.\<close>

definition dispatched :: "sim \<Rightarrow> sim_event \<Rightarrow> sim_event list \<Rightarrow> sim" where
  "dispatched s ev rest = report_stats (ev_time ev) (upd_sch (\<lambda>_. (s_sch s)\<lparr>ev_queue := rest, clock := ev_time ev\<rparr>) s)"

lemma dispatched_fields [simp]:
  "s_sch (dispatched s ev rest) = (s_sch s)\<lparr>ev_queue := rest, clock := ev_time ev\<rparr>"
  "s_config (dispatched s ev rest) = s_config s" "in_cont (dispatched s ev rest) = in_cont s"
  "ended (dispatched s ev rest) = ended s" "cur_ev (dispatched s ev rest) = cur_ev s"
  by (simp_all add: dispatched_def)

lemma dispatched_ok:
  assumes "evh_ok (s_evh s)" "ev_queue (s_sch s) = ev # rest"
  shows "evh_ok (s_evh (dispatched s ev rest))"
proof -
  have "evh_ok ((s_evh s)\<lparr>sch := (s_sch s)\<lparr>ev_queue := rest, clock := ev_time ev\<rparr>\<rparr>)"
    using assms by (simp add: evh_ok_def sch_inv_def)
  then show ?thesis
    by (simp add: dispatched_def)
qed

lemma des_roundE:
  assumes "ev_queue (s_sch s) = ev # rest" "des_round lib s = Inr s'"
  obtains (stop) "ev_type ev = Some EVENT_END" "s' = (dispatched s ev rest)\<lparr>ended := True\<rparr>"
  | (run) evh where "ev_type ev \<noteq> Some EVENT_END" "handle_event lib (s_evh (dispatched s ev rest)) ev = Inr evh"
      "s' = (if ev_type ev = Some EVENT_FTI
         then upd_sch (\<lambda>q. q\<lparr>mode := FTI\<rparr>) ((dispatched s ev rest)\<lparr>s_evh := evh, last_ctrl := clock (sch evh)\<rparr>)
         else (dispatched s ev rest)\<lparr>s_evh := evh\<rparr>)"
proof -
  define s1 where "s1 = dispatched s ev rest"
  have eq: "des_round lib s = (if ev_type ev = None then Inl Uninitialised
       else if ev_type ev \<noteq> Some EVENT_END then
         rbind (handle_event lib (s_evh s1) ev) (\<lambda>evh.
           let s = s1\<lparr>s_evh := evh\<rparr>;
               s = (if ev_type ev = Some EVENT_FTI
                    then upd_sch (\<lambda>q. q\<lparr>mode := FTI\<rparr>) (s\<lparr>last_ctrl := clock (s_sch s)\<rparr>) else s) in
           rbind (sim_event_free ev) (\<lambda>_. Inr s))
       else rbind (sim_event_free ev) (\<lambda>_. Inr (s1\<lparr>ended := True\<rparr>)))"
    by (simp add: des_round_def scheduler_dispatch_def assms(1) s1_def dispatched_def Let_def)
  show ?thesis
    using assms(2) [unfolded eq] stop run unfolding s1_def [symmetric] by (auto simp: Let_def split: if_splits)
qed

lemma des_round_ok:
  assumes ok: "sim_ok s" and s: "\<not> ended s" "mode (s_sch s) = DES" and step: "des_round lib s = Inr s'"
  shows "sim_ok s'"
proof -
  have inv: "evh_ok (s_evh s)" "\<not> in_cont s"
    using ok s by (auto simp: sim_ok_def)
  obtain ev rest where q: "ev_queue (s_sch s) = ev # rest"
    using sim_head [OF ok s(1)] by metis
  note ok1 = dispatched_ok [OF inv(1) q]
  have ends: "ends (s_sch s) = (if ev_type ev = Some EVENT_END then insert ev (ends (s_sch (dispatched s ev rest)))
      else ends (s_sch (dispatched s ev rest)))"
    by (auto simp: ends_def q)
  from q step show ?thesis
  proof (cases rule: des_roundE)
    case stop
    then show ?thesis
      using ok ok1 s inv(2) ends unfolding sim_ok_def by auto
  next
    case (run evh)
    have g: "evh_ok evh" "ends (sch evh) = ends (s_sch s)"
      using grows_queue [OF handle_event_grows [OF run(2)] ok1] ends run(1) by simp_all
    have "evh_ok (evh\<lparr>sch := (sch evh)\<lparr>mode := FTI\<rparr>\<rparr>)" "ends ((sch evh)\<lparr>mode := FTI\<rparr>) = ends (sch evh)"
      using g(1) by (simp_all add: evh_ok_sch ends_def)
    then show ?thesis
      using ok g s(1) inv(2) unfolding run(3) sim_ok_def by auto
  qed
qed

lemma cont_begin_ok:
  assumes ok: "sim_ok s" and s: "mode (s_sch s) = FTI" and step: "cont_begin lib now s = Inr s'"
  shows "sim_ok s'"
proof -
  have inv: "evh_ok (s_evh s)" "sch_inv (s_sch s)" "\<not> ended s"
    using ok s by (auto simp: sim_ok_def evh_ok_def)
  obtain ev rest where q: "ev_queue (s_sch s) = ev # rest" "ev_time ev \<le> cfg_end_time (s_config s)"
    using sim_head [OF ok inv(3)] by metis
  define t where "t = clock (s_sch s) + elapsed_us now (last_read s)"
  define evh where "evh = (s_evh s)\<lparr>sch := (s_sch s)\<lparr>clock := t\<rparr>\<rparr>"
  have e: "evh_ok evh" "ends (sch evh) = ends (s_sch s)" "ev_queue (sch evh) = ev # rest" "mode (sch evh) = FTI"
    using inv(1) s q by (simp_all add: evh_def evh_ok_sch ends_def)
  have base: "sim_ok (s\<lparr>cur_ev := Some ev, in_cont := True, s_evh := evh', last_wrt := w\<rparr>)"
    if "grows evh evh' \<or> grows (evh\<lparr>next_addr := next_addr evh + 1\<rparr>) evh'" for evh' w
  proof -
    have "evh_ok (evh\<lparr>next_addr := next_addr evh + 1\<rparr>)"
      using e(1) by (rule evh_ok_next) simp
    then have "evh_ok evh' \<and> ends (sch evh') = ends (sch evh) \<and> set (ev_queue (sch evh)) \<subseteq> set (ev_queue (sch evh')) \<and>
        mode (sch evh') = FTI"
      using grows_queue [of evh evh'] grows_queue [of "evh\<lparr>next_addr := next_addr evh + 1\<rparr>" evh'] that e(1,4) by auto
    then show ?thesis
      using ok inv(3) e q(2) unfolding sim_ok_def by auto
  qed
  have "\<exists>evh' w. (grows evh evh' \<or> grows (evh\<lparr>next_addr := next_addr evh + 1\<rparr>) evh') \<and>
      s' = s\<lparr>cur_ev := Some ev, in_cont := True, s_evh := evh', last_wrt := w\<rparr>"
  proof (cases "t - last_wrt s > 10000000")
    case True
    then obtain evh' where "handle_event lib (evh\<lparr>next_addr := next_addr evh + 1\<rparr>) (make_time_msg (next_addr evh) t) = Inr evh'"
        "s' = s\<lparr>cur_ev := Some ev, in_cont := True, s_evh := evh', last_wrt := t\<rparr>"
      using step q(1) by (auto simp: cont_begin_def Let_def scheduler_retrieve_def evh_def t_def split: if_splits)
    then show ?thesis
      using handle_event_grows by blast
  next
    case False
    then have "s' = s\<lparr>cur_ev := Some ev, in_cont := True, s_evh := evh\<rparr>"
      using step q(1) by (simp add: cont_begin_def Let_def scheduler_retrieve_def evh_def t_def)
    moreover have "\<dots> = s\<lparr>cur_ev := Some ev, in_cont := True, s_evh := evh, last_wrt := last_wrt s\<rparr>"
      by (cases s) simp
    ultimately show ?thesis
      using grows_refl by metis
  qed
  then show ?thesis
    using base by blast
qed

lemma check_idle_ok: "sim_ok s \<Longrightarrow> \<not> ended s \<Longrightarrow> sim_ok (check_idle s)"
  by (auto simp: sim_ok_def check_idle_def Let_def evh_ok_sch ends_def)

lemma report_stats_sim_ok: "sim_ok s \<Longrightarrow> sim_ok (report_stats time s)"
  unfolding sim_ok_def by simp

lemma sim_ok_clocks: "sim_ok (s\<lparr>last_read := a\<rparr>) = sim_ok s" "sim_ok (s\<lparr>last_ctrl := b\<rparr>) = sim_ok s"
  by (simp_all add: sim_ok_def)

text \<open>Deleting the event by its address removes it and nothing else.\<close>

lemma delete_exact:
  assumes "evh_ok evh" "ev \<in> set (ev_queue (sch evh))"
  obtains q where "scheduler_delete (sch evh) (ev_addr ev) = Inr q" "evh_ok (evh\<lparr>sch := q\<rparr>)"
    "set (ev_queue q) = set (ev_queue (sch evh)) - {ev}" "mode q = mode (sch evh)"
proof -
  have inv: "sch_inv (sch evh)" "ev_queue (sch evh) \<noteq> []" "distinct (map ev_addr (ev_queue (sch evh)))"
    using assms by (auto simp: evh_ok_def)
  obtain q where q: "scheduler_delete (sch evh) (ev_addr ev) = Inr q" "sch_inv q"
      and mset: "case find (\<lambda>e. ev_addr e = ev_addr ev) (ev_queue (sch evh)) of
          None \<Rightarrow> ev_queue q = ev_queue (sch evh) | Some ev \<Rightarrow> mset (ev_queue (sch evh)) = add_mset ev (mset (ev_queue q))"
    using scheduler_delete_correct [OF inv(1,2), of "ev_addr ev"] by auto
  have "find (\<lambda>e. ev_addr e = ev_addr ev) (ev_queue (sch evh)) = Some ev"
  proof (cases "find (\<lambda>e. ev_addr e = ev_addr ev) (ev_queue (sch evh))")
    case None
    then show ?thesis
      using assms(2) by (auto simp: find_None_iff)
  next
    case (Some e)
    then have "e \<in> set (ev_queue (sch evh))" "ev_addr e = ev_addr ev"
      by (auto simp: find_Some_iff)
    then show ?thesis
      using Some inv(3) assms(2) by (auto simp: distinct_map dest: inj_onD)
  qed
  then have m: "mset (ev_queue (sch evh)) = mset (ev # ev_queue q)"
    using mset by simp
  have d: "distinct (map ev_addr (ev # ev_queue q))"
    using inv(3) m mset_eq_imp_distinct_iff by (metis mset_map)
  have set: "set (ev_queue (sch evh)) = insert ev (set (ev_queue q))"
    using m by (metis list.simps(15) set_mset_mset)
  have "ev \<notin> set (ev_queue q)"
    using d by auto
  moreover have "mode q = mode (sch evh)"
    using q(1) by (auto simp: scheduler_delete_def)
  moreover have "evh_ok (evh\<lparr>sch := q\<rparr>)"
    using assms(1) q(2) d set by (auto simp: evh_ok_def list_all_iff)
  ultimately show ?thesis
    using that q(1) set by blast
qed

lemma cont_round_ok:
  assumes ok: "sim_ok s" and s: "in_cont s" and step: "cont_round lib now s = Inr s'"
  shows "sim_ok s'"
proof -
  have inv: "evh_ok (s_evh s)" "mode (s_sch s) = FTI" "\<not> ended s"
    using ok s by (auto simp: sim_ok_def)
  obtain ev where ev: "cur_ev s = Some ev" "ev \<in> set (ev_queue (s_sch s))"
    using ok s by (auto simp: sim_ok_def)
  consider (late) "\<not> ev_time ev \<le> clock (s_sch s)" | (stop) "ev_time ev \<le> clock (s_sch s)" "ev_type ev = Some EVENT_END"
    | (run) "ev_time ev \<le> clock (s_sch s)" "ev_type ev \<noteq> Some EVENT_END"
    by blast
  then show ?thesis
  proof cases
    case late
    then show ?thesis
      using step ev(1) check_idle_ok [of "s\<lparr>last_read := now\<rparr>"] ok inv(3)
      by (auto simp: cont_round_def sim_ok_clocks)
  next
    case stop
    then show ?thesis
      using step ev(1) check_idle_ok [OF report_stats_sim_ok [OF ok], of "ev_time ev"] inv(3)
      by (simp add: cont_round_def Let_def)
  next
    case run
    define s1 where "s1 = (let s = report_stats (ev_time ev) s in
      if ev_type ev = Some EVENT_FTI then s\<lparr>last_ctrl := ev_time ev\<rparr> else s)"
    have s1: "s_sch s1 = s_sch s" "s_config s1 = s_config s" "in_cont s1" "\<not> ended s1" "evh_ok (s_evh s1)"
      using s inv(1,3) by (simp_all add: s1_def Let_def)
    obtain evh q where evh: "handle_event lib (s_evh s1) ev = Inr evh" "scheduler_delete (sch evh) (ev_addr ev) = Inr q"
      and s': "s' = s1\<lparr>s_evh := evh\<lparr>sch := q\<rparr>, cur_ev := scheduler_retrieve q\<rparr>"
      using step ev(1) run by (auto simp: cont_round_def Let_def s1_def split: if_splits)
    note g = grows_queue [OF handle_event_grows [OF evh(1)] s1(5)]
    have "ev \<in> set (ev_queue (sch evh))" "evh_ok evh"
      using g ev(2) s1(1) by auto
    then have q: "evh_ok (evh\<lparr>sch := q\<rparr>)" "set (ev_queue q) = set (ev_queue (sch evh)) - {ev}" "mode q = FTI"
      using delete_exact [of evh ev] evh(2) g s1(1) inv(2) by (metis sum.inject(2))+
    have ends: "ends q = ends (s_sch s)"
      using g run(2) s1(1) by (auto simp: ends_def q(2))
    then have e: "sch_inv q" "ends q \<noteq> {}" "\<forall>e \<in> ends q. ev_time e = cfg_end_time (s_config s)"
      using q(1) ok inv(3) by (simp_all add: evh_ok_def sim_ok_def)
    from head_before_end [OF this] obtain e rest where "ev_queue q = e # rest" "ev_time e \<le> cfg_end_time (s_config s)"
      by metis
    then have "scheduler_retrieve q = Some e" "e \<in> set (ev_queue q)" "ev_time e \<le> cfg_end_time (s_config s)"
      by (simp_all add: scheduler_retrieve_def)
    then show ?thesis
      using q(1,3) e s1(2-4) unfolding s' sim_ok_def by simp
  qed
qed

lemma receive_of_ok: "sim_ok s \<Longrightarrow> sim_ok (receive_of s dpid data len)"
proof -
  assume ok: "sim_ok s"
  let ?mk = "\<lambda>p. sim_event_of_msg_in_new p (clock (s_sch s)) dpid (take len data) len"
  have s': "receive_of s dpid data len = s\<lparr>s_evh := schedule (s_evh s) ?mk\<rparr>"
    by (simp add: receive_of_def schedule_def conn_manager_of_message_cb_def)
  have "grows (s_evh s) (schedule (s_evh s) ?mk)"
    by (rule grows_schedule) simp_all
  moreover have "evh_ok (s_evh s)"
    using ok by (simp add: sim_ok_def)
  ultimately show ?thesis
    using grows_queue [of "s_evh s" "schedule (s_evh s) ?mk"] ok unfolding s' sim_ok_def by auto
qed

lemma cb_round_event: "cb_round q conn_id p st input = Inr (st', input', Some ev, n) \<Longrightarrow> work_event ev \<and> ev_addr ev = p"
  by (auto simp: cb_round_def Let_def bev_read_def split: if_splits)

lemma router_message_ok:
  assumes "conn_manager_router_message_cb q conn_id p st input = Inr (q', st')" "evh_ok (evh\<lparr>sch := q, next_addr := p\<rparr>)"
  shows "evh_ok (evh\<lparr>sch := q', next_addr := p + length input + 1\<rparr>) \<and> ends q' = ends q \<and>
    set (ev_queue q) \<subseteq> set (ev_queue q') \<and> clock q' = clock q \<and> mode q' = mode q"
  using assms
proof (induction q conn_id p st input rule: conn_manager_router_message_cb.induct)
  case (1 q conn_id p st input)
  obtain st1 input1 ev n where r: "cb_round q conn_id p st input = Inr (st1, input1, ev, n)"
    using "1.prems"(1) by (subst (asm) conn_manager_router_message_cb.simps) (auto split: sum.splits)
  define q1 where "q1 = (case ev of None \<Rightarrow> q | Some ev \<Rightarrow> scheduler_insert q ev)"
  have q1: "evh_ok (evh\<lparr>sch := q1, next_addr := p + 1\<rparr>) \<and> ends q1 = ends q \<and> set (ev_queue q) \<subseteq> set (ev_queue q1) \<and>
      clock q1 = clock q \<and> mode q1 = mode q"
  proof (cases ev)
    case None
    then show ?thesis
      using evh_ok_next [OF "1.prems"(2), of "p + 1"] by (simp add: q1_def)
  next
    case (Some e)
    then have e: "work_event e" "ev_addr e = p"
      using cb_round_event r by blast+
    then show ?thesis
      using evh_ok_insert [OF "1.prems"(2), of e "p + 1"] Some
      by (auto simp: q1_def ends_def work_event_def) (simp_all add: scheduler_insert_def)
  qed
  show ?case
  proof (cases "n = 0")
    case True
    then have "q' = q1"
      using "1.prems"(1) r by (subst (asm) conn_manager_router_message_cb.simps) (simp add: q1_def)
    then show ?thesis
      using q1 evh_ok_next [of "evh\<lparr>sch := q1, next_addr := p + 1\<rparr>" "p + length input + 1"] by simp
  next
    case False
    then have rec: "conn_manager_router_message_cb q1 conn_id (p + 1) st1 input1 = Inr (q', st')"
      using "1.prems"(1) r by (subst (asm) conn_manager_router_message_cb.simps) (simp add: q1_def)
    have less: "length input1 < length input"
      using cb_round_consumes [OF r] False by simp
    have "evh_ok (evh\<lparr>sch := q', next_addr := p + 1 + length input1 + 1\<rparr>) \<and> ends q' = ends q1 \<and>
        set (ev_queue q1) \<subseteq> set (ev_queue q') \<and> clock q' = clock q1 \<and> mode q' = mode q1"
      using "1.IH" r rec q1 False unfolding q1_def by blast
    then show ?thesis
      using q1 less evh_ok_next [of "evh\<lparr>sch := q', next_addr := p + 1 + length input1 + 1\<rparr>" "p + length input + 1"] by auto
  qed
qed

lemma receive_routing_ok:
  assumes ok: "sim_ok s" and step: "receive_routing s conn_id input = Inr s'"
  shows "sim_ok s'"
proof -
  obtain q st where q: "conn_manager_router_message_cb (s_sch s) conn_id (next_addr (s_evh s)) (rx_state s) input = Inr (q, st)"
    and s': "s' = s\<lparr>s_evh := (s_evh s)\<lparr>sch := q, next_addr := next_addr (s_evh s) + length input + 1\<rparr>, rx_state := st\<rparr>"
    using step by (auto simp: receive_routing_def)
  have "evh_ok (s_evh s)"
    using ok by (simp add: sim_ok_def)
  then show ?thesis
    using router_message_ok [OF q, of "s_evh s"] ok unfolding s' sim_ok_def by auto
qed

lemma sim_step_ok: "sim_step lib s s' \<Longrightarrow> sim_ok s \<Longrightarrow> sim_ok s'"
proof (induction rule: sim_step.induct)
  case (step_conns s conns)
  then show ?case
    by (simp add: sim_ok_def)
qed (blast intro: des_round_ok cont_begin_ok cont_round_ok receive_of_ok receive_routing_ok)+

lemma sim_steps_ok: "(sim_step lib)\<^sup>*\<^sup>* s s' \<Longrightarrow> sim_ok s \<Longrightarrow> sim_ok s'"
  by (induction rule: rtranclp_induct) (auto dest: sim_step_ok)

lemma wf_end_event: "wf_event (end_event config p)" "ev_addr (end_event config p) = p"
  "ev_time (end_event config p) = cfg_end_time config" "ev_type (end_event config p) = Some EVENT_END"
  by (simp_all add: end_event_def sim_event_new_def wf_event_def body_matches_def sim_config_get_end_time_def)

lemma sim_init_ok:
  assumes "topo_ok t" "sim_init os conns now t config = Inr s"
  shows "sim_ok s \<and> \<not> ended s \<and> \<not> in_cont s \<and> s_config s = config"
proof -
  have init: "evh_ok (ev_handler_init t)" "list_all work_event (ev_queue (sch (ev_handler_init t)))"
    using assms(1) by (simp_all add: evh_ok_def ev_handler_init_def) (simp_all add: scheduler_new_def)
  obtain evh made where s: "s = \<lparr>s_evh = schedule evh (end_event config), s_config = config, cm_made = made, last_wrt = 0,
       last_ctrl = 0, last_stats = 0, last_read = now, cur_ev = None, stats_out = [], rx_state = cb_init,
       in_cont = False, ended = False\<rparr>"
    and ok: "evh_ok evh \<and> list_all work_event (ev_queue (sch evh))"
  proof (cases "sim_config_get_mode config = EMU_CTRL")
    case True
    then obtain evh b running clients where evh: "setup_sim os (ev_handler_init t) internal_last_bytes = Inr (evh, b, running, clients)"
      using assms(2) by (cases "setup_sim os (ev_handler_init t) internal_last_bytes") (auto simp: sim_init_def)
    have ok: "evh_ok evh \<and> list_all work_event (ev_queue (sch evh))"
      using setup_sim_ok [OF evh init(1)] init(2) by simp
    show ?thesis
      using assms(2) that [of evh True] that [of "evh\<lparr>cm := (cm evh)\<lparr>active_conns := c\<rparr>\<rparr>" True for c] ok
      by (simp add: sim_init_def True evh split: if_splits) auto
  next
    case False
    then show ?thesis
      using assms(2) that [of "ev_handler_init t" False] init by (simp add: sim_init_def)
  qed
  have "evh_ok (schedule evh (end_event config))"
    using evh_ok_insert [of evh "end_event config (next_addr evh)" "next_addr evh + 1"] ok
    by (simp add: schedule_def wf_end_event)
  moreover have "ends (sch (schedule evh (end_event config))) = {end_event config (next_addr evh)}"
    using ok by (auto simp: ends_def schedule_def wf_end_event list_all_iff work_event_def)
  ultimately show ?thesis
    by (simp add: s sim_ok_def wf_end_event)
qed

lemma sim_step_config: "sim_step lib s s' \<Longrightarrow> s_config s' = s_config s"
  by (induction rule: sim_step.induct)
    (auto simp: des_round_def cont_begin_def cont_round_def check_idle_def receive_of_def receive_routing_def Let_def split: if_splits)

definition simulates :: "libs \<Rightarrow> topology \<Rightarrow> sim_config \<Rightarrow> sim \<Rightarrow> bool" where
  "simulates lib t config s \<longleftrightarrow>
     topo_built t \<and> (\<exists>os conns now s0. sim_init os conns now t config = Inr s0 \<and> (sim_step lib)\<^sup>*\<^sup>* s0 s)"

lemma simulates_ok:
  assumes "simulates lib t config s"
  shows "sim_ok s" "s_config s = config"
proof -
  obtain os conns now s0 where s0: "sim_init os conns now t config = Inr s0" "(sim_step lib)\<^sup>*\<^sup>* s0 s" "topo_built t"
    using assms unfolding simulates_def by blast
  have i: "sim_ok s0" "s_config s0 = config"
    using sim_init_ok [OF _ s0(1)] topo_built_ok [OF s0(3)] by simp_all
  show "sim_ok s"
    using sim_steps_ok [OF s0(2) i(1)] .
  show "s_config s = config"
    using s0(2) i(2) by (induction rule: rtranclp_induct) (auto dest: sim_step_config)
qed

text \<open>C3: However the threads and the callbacks interleave, the simulator never runs out of events before
  its end: the thread whose turn it is finds a well-formed event not later than the end time, and the
  event the second thread holds stays in the queue until that thread deletes it.  So the
  links that are followed without a test are never NULL, and the state stays well formed.\<close>

theorem simulation_never_starves:
  assumes "simulates lib t config s" "\<not> ended s"
  shows "evh_ok (s_evh s) \<and>
    (\<exists>ev q. scheduler_dispatch (s_sch s) = Inr (ev, q) \<and> scheduler_retrieve (s_sch s) = Some ev \<and>
       wf_event ev \<and> ev_time ev \<le> sim_config_get_end_time config) \<and>
    (in_cont s \<longrightarrow> mode (s_sch s) = FTI \<and>
       (\<exists>ev q. cur_ev s = Some ev \<and> wf_event ev \<and> ev_time ev \<le> sim_config_get_end_time config \<and>
          scheduler_delete (s_sch s) (ev_addr ev) = Inr q \<and> set (ev_queue q) = set (ev_queue (s_sch s)) - {ev}))"
proof -
  note ok = simulates_ok [OF assms(1)]
  have evh: "evh_ok (s_evh s)"
    using ok(1) by (simp add: sim_ok_def)
  obtain ev rest where q: "ev_queue (s_sch s) = ev # rest" "ev_time ev \<le> cfg_end_time config"
    using sim_head [OF ok(1) assms(2)] ok(2) by metis
  have "wf_event ev"
    using evh q(1) by (simp add: evh_ok_def)
  moreover have "mode (s_sch s) = FTI \<and> (\<exists>ev q. cur_ev s = Some ev \<and> wf_event ev \<and> ev_time ev \<le> cfg_end_time config \<and>
      scheduler_delete (s_sch s) (ev_addr ev) = Inr q \<and> set (ev_queue q) = set (ev_queue (s_sch s)) - {ev})" if cont: "in_cont s"
  proof -
    obtain e where e: "e \<in> set (ev_queue (s_sch s))" "cur_ev s = Some e" "ev_time e \<le> cfg_end_time config" "mode (s_sch s) = FTI"
      using ok cont by (auto simp: sim_ok_def)
    obtain q where "scheduler_delete (s_sch s) (ev_addr e) = Inr q" "set (ev_queue q) = set (ev_queue (s_sch s)) - {e}"
      using delete_exact [OF evh e(1)] by blast
    moreover have "wf_event e"
      using evh e(1) by (auto simp: evh_ok_def list_all_iff)
    ultimately show ?thesis
      using e by blast
  qed
  ultimately show ?thesis
    using evh q by (simp add: scheduler_dispatch_def scheduler_retrieve_def sim_config_get_end_time_def)
qed

text \<open>C19: In discrete mode the clock never passes the end time, whatever was scheduled: a round handles an
  event at its time, control goes to the other thread exactly after a control event, and the
  simulation ends exactly when the event of the end is dispatched, with the clock at the end time.\<close>

theorem simulation_ends_on_time:
  assumes "simulates lib t config s" "\<not> ended s" "mode (s_sch s) = DES"
    and "scheduler_dispatch (s_sch s) = Inr (ev, q)" "des_round lib s = Inr s'"
  shows "clock (s_sch s') = ev_time ev \<and> clock (s_sch s') \<le> sim_config_get_end_time config \<and>
    (mode (s_sch s') = FTI \<longleftrightarrow> ev_type ev = Some EVENT_FTI) \<and>
    (ended s' \<longleftrightarrow> ev_type ev = Some EVENT_END) \<and>
    (ended s' \<longrightarrow> clock (s_sch s') = sim_config_get_end_time config)"
proof -
  note ok = simulates_ok [OF assms(1)]
  obtain rest where q: "ev_queue (s_sch s) = ev # rest" "ev_time ev \<le> cfg_end_time config" "q = (s_sch s)\<lparr>ev_queue := rest\<rparr>"
    using sim_head [OF ok(1) assms(2)] ok(2) assms(4) by (force simp: scheduler_dispatch_def)
  have on_time: "ev_time ev = cfg_end_time config" if "ev_type ev = Some EVENT_END"
    using ok that q(1) by (simp add: sim_ok_def ends_def)
  have keep: "clock (sch evh) = clock (sch evh0) \<and> mode (sch evh) = mode (sch evh0)"
    if "handle_event lib evh0 ev = Inr evh" for evh evh0
    using handle_event_grows [OF that] by (auto simp: grows_def scheduler_fold_insert_fields)
  from q(1) assms(5) show ?thesis
  proof (cases rule: des_roundE)
    case stop
    then show ?thesis
      using assms(3) q(2) on_time by (simp add: sim_config_get_end_time_def event_types)
  next
    case (run evh)
    then show ?thesis
      using keep [OF run(2)] assms(2,3) q(2) by (simp add: sim_config_get_end_time_def)
  qed
qed

subsection \<open>Activations\<close>

definition advanced :: "sim \<Rightarrow> u64 \<Rightarrow> sim_event \<Rightarrow> sim" where
  "advanced s time ev = (upd_sch (\<lambda>q. q\<lparr>clock := time\<rparr>) s)\<lparr>cur_ev := Some ev, in_cont := True\<rparr>"

lemma cont_begin_no_msg:
  assumes "ev_queue (s_sch s) = ev # rest" "time = clock (s_sch s) + elapsed_us now (last_read s)"
    and "\<not> time - last_wrt s > 10000000"
  shows "cont_begin lib now s = Inr (advanced s time ev)"
  using assms by (simp add: cont_begin_def Let_def scheduler_retrieve_def advanced_def)

lemma cont_round_late:
  "time < ev_time ev \<Longrightarrow> cont_round lib now (advanced s time ev) = Inr (check_idle ((advanced s time ev)\<lparr>last_read := now\<rparr>))"
  by (simp add: cont_round_def advanced_def not_le [symmetric])

lemma cont_round_end:
  "ev_time ev \<le> time \<Longrightarrow> ev_type ev = Some EVENT_END \<Longrightarrow>
     cont_round lib now (advanced s time ev) = Inr (check_idle (report_stats (ev_time ev) (advanced s time ev)))"
  by (simp add: cont_round_def advanced_def)

lemma check_idle_fields [simp]:
  "\<not> in_cont (check_idle s)" "ended (check_idle s) = ended s" "last_read (check_idle s) = last_read s"
  "last_wrt (check_idle s) = last_wrt s" "last_ctrl (check_idle s) = last_ctrl s" "s_config (check_idle s) = s_config s"
  "ev_queue (s_sch (check_idle s)) = ev_queue (s_sch s)" "clock (s_sch (check_idle s)) = clock (s_sch s)"
  "mode (s_sch (check_idle s)) =
     (if clock (s_sch s) - last_ctrl s > sim_config_get_ctrl_idle_interval (s_config s) then DES else mode (s_sch s))"
  "topo (s_evh (check_idle s)) = topo (s_evh s)"
  by (simp_all add: check_idle_def Let_def)

lemma cont_mode_one_round:
  "cont_begin lib now s = Inr s1 \<Longrightarrow> cont_round lib now2 s1 = Inr s2 \<Longrightarrow> \<not> in_cont s2 \<Longrightarrow> cont_mode lib now now2 s = Inr s2"
  by (simp add: cont_mode_def cont_loop.simps [of lib now2 s1] returned_def)

lemma advanced_fields [simp]:
  "s_sch (advanced s time ev) = (s_sch s)\<lparr>clock := time\<rparr>" "last_ctrl (advanced s time ev) = last_ctrl s"
  "last_read (advanced s time ev) = last_read s" "last_wrt (advanced s time ev) = last_wrt s"
  "s_config (advanced s time ev) = s_config s" "ended (advanced s time ev) = ended s"
  "topo (s_evh (advanced s time ev)) = topo (s_evh s)"
  by (simp_all add: advanced_def)

lemma last_wrt_report [simp]: "last_wrt (report_stats time s) = last_wrt s"
  by (simp add: report_stats_def Let_def split_beta)

text \<open>What an activation does that finds the end due.\<close>

lemma cont_mode_end:
  assumes "ev_queue (s_sch s) = ev # rest" "ev_type ev = Some EVENT_END"
    and "time = clock (s_sch s) + elapsed_us now (last_read s)" "\<not> time - last_wrt s > 10000000" "ev_time ev \<le> time"
  shows "\<exists>s'. cont_mode lib now now2 s = Inr s' \<and> ev_queue (s_sch s') = ev # rest \<and> clock (s_sch s') = time \<and>
    last_read s' = last_read s \<and> last_wrt s' = last_wrt s \<and> last_ctrl s' = last_ctrl s \<and> s_config s' = s_config s \<and>
    ended s' = ended s \<and>
    mode (s_sch s') = (if time - last_ctrl s > sim_config_get_ctrl_idle_interval (s_config s) then DES else mode (s_sch s))"
proof -
  have "cont_mode lib now now2 s = Inr (check_idle (report_stats (ev_time ev) (advanced s time ev)))"
    using cont_begin_no_msg [OF assms(1,3,4)] cont_round_end [OF assms(5,2)] by (rule cont_mode_one_round) simp
  then show ?thesis
    using assms(1) by simp
qed

text \<open>C20: An activation that finds nothing due lets the time of the machine pass: the clock advances by
  what has elapsed since the last reading, which is renewed, nothing else happens to the network or
  the queue, and control goes to the discrete mode exactly if no control event was seen for longer
  than the idle interval.\<close>

theorem quiet_activation:
  assumes "ev_queue (s_sch s) = ev # rest" "time = clock (s_sch s) + elapsed_us now (last_read s)"
    and "\<not> time - last_wrt s > 10000000" "time < ev_time ev"
  shows "\<exists>s'. cont_mode lib now now2 s = Inr s' \<and> clock (s_sch s') = time \<and> last_read s' = now2 \<and>
    ev_queue (s_sch s') = ev_queue (s_sch s) \<and> topo (s_evh s') = topo (s_evh s) \<and> ended s' = ended s \<and>
    mode (s_sch s') = (if time - last_ctrl s > sim_config_get_ctrl_idle_interval (s_config s) then DES else mode (s_sch s))"
proof -
  have "cont_mode lib now now2 s = Inr (check_idle ((advanced s time ev)\<lparr>last_read := now2\<rparr>))"
    using cont_begin_no_msg [OF assms(1-3)] cont_round_late [OF assms(4)] by (rule cont_mode_one_round) simp
  then show ?thesis
    by simp
qed

text \<open>C21: A simulation whose end falls into the time of the controllers does end: once the idle interval
  has passed, an activation that finds the end due gives control back, and the next round of the
  discrete mode ends the simulation, with the clock put back to the end time.\<close>

theorem end_in_fixed_time_mode:
  assumes "ev_queue (s_sch s) = ev # rest" "ev_type ev = Some EVENT_END"
    and "time = clock (s_sch s) + elapsed_us now (last_read s)" "\<not> time - last_wrt s > 10000000" "ev_time ev \<le> time"
    and "time - last_ctrl s > sim_config_get_ctrl_idle_interval (s_config s)"
  shows "\<exists>s1 s2. cont_mode lib now now2 s = Inr s1 \<and> mode (s_sch s1) = DES \<and>
    des_round lib s1 = Inr s2 \<and> ended s2 \<and> clock (s_sch s2) = ev_time ev \<and> ev_queue (s_sch s2) = rest"
proof -
  obtain s1 where s1: "cont_mode lib now now2 s = Inr s1" "ev_queue (s_sch s1) = ev # rest" "mode (s_sch s1) = DES"
    using cont_mode_end [OF assms(1-5), of lib now2] assms(6) by auto
  have "sim_event_free ev = Inr (ev_addr ev, Silent)"
    using assms(2) by (simp add: sim_event_free_def event_types)
  then have "des_round lib s1 = Inr ((dispatched s1 ev rest)\<lparr>ended := True\<rparr>)"
    using s1(2) assms(2) by (simp add: des_round_def scheduler_dispatch_def dispatched_def Let_def)
  then show ?thesis
    using s1 by simp
qed

text \<open>C39: While the end is due and the controllers are not idle, the time that passes is counted again at
  every activation: the reading from which it is measured is not renewed, so after two activations
  the clock has advanced by the time up to the first as well as by the whole time up to the
  second.\<close>

theorem end_recounts_time:
  assumes "ev_queue (s_sch s) = ev # rest" "ev_type ev = Some EVENT_END"
    and "time = clock (s_sch s) + elapsed_us now (last_read s)" "\<not> time - last_wrt s > 10000000" "ev_time ev \<le> time"
    and "\<not> time - last_ctrl s > sim_config_get_ctrl_idle_interval (s_config s)"
    and "time2 = time + elapsed_us now2 (last_read s)" "\<not> time2 - last_wrt s > 10000000" "ev_time ev \<le> time2"
  shows "\<exists>s1 s2. cont_mode lib now r1 s = Inr s1 \<and> mode (s_sch s1) = mode (s_sch s) \<and> cont_mode lib now2 r2 s1 = Inr s2 \<and> last_read s2 = last_read s \<and>
    clock (s_sch s2) = clock (s_sch s) + elapsed_us now (last_read s) + elapsed_us now2 (last_read s)"
proof -
  obtain s1 where s1: "cont_mode lib now r1 s = Inr s1" "ev_queue (s_sch s1) = ev # rest" "clock (s_sch s1) = time"
      "last_read s1 = last_read s" "last_wrt s1 = last_wrt s" "mode (s_sch s1) = mode (s_sch s)"
    using cont_mode_end [OF assms(1-5), of lib r1] assms(6) by auto
  obtain s2 where "cont_mode lib now2 r2 s1 = Inr s2" "clock (s_sch s2) = time2" "last_read s2 = last_read s"
    using cont_mode_end [OF s1(2) assms(2), of time2 now2 lib r2] assms(7-9) s1 by auto
  then show ?thesis
    using s1(1,6) assms(3,7) by (intro exI [of _ s1] exI [of _ s2]) simp
qed

subsection \<open>A simulation of one host\<close>

definition example_config :: "u64 \<Rightarrow> sim_config" where
  "example_config t = sim_config_set_end_time sim_config_new t"

definition example_net :: topology where
  "example_net = topology_add_host topology_new (fst (host_new 0))"

definition example_os :: os_answers where
  "example_os = \<lparr>netns_fails = (\<lambda>_. False), zebra_fd = (\<lambda>_. 3), zebra_refused = (\<lambda>_. Some 0), helper_env = None\<rparr>"

definition at_us :: "int \<Rightarrow> timespec" where
  "at_us t = \<lparr>tv_sec = t div 1000000, tv_nsec = (t mod 1000000) * 1000\<rparr>"

definition example_sim :: "u64 \<Rightarrow> sim" where
  "example_sim t =
     \<lparr>s_evh = schedule (ev_handler_init example_net) (end_event (example_config t)), s_config = example_config t, cm_made = True,
       last_wrt = 0, last_ctrl = 0, last_stats = 0, last_read = at_us 0, cur_ev = None, stats_out = [], rx_state = cb_init,
       in_cont = False, ended = False\<rparr>"

lemma example_net_built: "topo_built example_net"
  unfolding example_net_def
  by (intro topo_built.intros) (simp add: topology_node_def topology_new_def topology_init_def)

lemma example_sim_init: "sim_init example_os (\<lambda>_. []) (at_us 0) example_net (example_config t) = Inr (example_sim t)"
proof -
  have net: "hosts example_net = [\<lparr>hn_uuid = 1\<rparr>]" "routers example_net = []" "links example_net = []" "dps example_net = []"
      "topology_node example_net 1 = Some (Ht (fst (host_new 0)))" "topology_dps_num example_net = 0" "topology_routers_num example_net = 0"
    by (simp_all add: example_net_def topology_add_host_def topology_new_def topology_init_def topology_node_def
        topology_dps_num_def topology_routers_num_def HASH_ADD_def HASH_FIND_def host_new_uuid)
  have "schedule_execs evh (fst (host_new 0)) = evh" for evh
    by (simp add: schedule_execs_def host_execs_def host_new_def Let_def split_beta)
  then have apps: "setup_app_events ((ev_handler_init example_net)\<lparr>commands := []\<rparr>) [\<lparr>hn_uuid = 1\<rparr>] = Inr (ev_handler_init example_net)"
    by (simp add: ev_handler_init_def host_at_def net)
  have "topo (ev_handler_init example_net) = example_net" "commands (ev_handler_init example_net) = []"
    by (simp_all add: ev_handler_init_def)
  then have "setup_sim example_os (ev_handler_init example_net) internal_last_bytes =
      Inr (ev_handler_init example_net, internal_last_bytes, False, [])"
    using apps by (simp add: setup_sim_def setup_server_def setup_routers_def net Let_def del: setup_app_events.simps rbind_eq_Inr)
  moreover have "topology_dps_num (topo (ev_handler_init example_net)) = 0"
    by (simp add: ev_handler_init_def net)
  ultimately show ?thesis
    by (simp add: sim_init_def example_sim_def example_config_def sim_config_get_mode_def sim_config_set_end_time_def sim_config_new_def)
qed

lemma example_queue: "ev_queue (s_sch (example_sim t)) = [end_event (example_config t) 0]" "clock (s_sch (example_sim t)) = 0"
    "last_read (example_sim t) = at_us 0" "last_wrt (example_sim t) = 0" "last_ctrl (example_sim t) = 0" "mode (s_sch (example_sim t)) = FTI"
    "\<not> in_cont (example_sim t)" "cm_made (example_sim t)" "\<not> ended (example_sim t)"
    "sim_config_get_ctrl_idle_interval (s_config (example_sim t)) = 100000" "sim_config_get_end_time (example_config t) = t"
  by (simp_all add: example_sim_def ev_handler_init_def schedule_def scheduler_new_def scheduler_insert_def
      sim_config_get_ctrl_idle_interval_def sim_config_get_end_time_def)
    (simp_all add: example_config_def sim_config_set_end_time_def sim_config_new_def)

lemma example_elapsed: "elapsed_us (at_us t) (at_us 0) = word_of_int t"
proof -
  have "(t mod 1000000 * 1000) sdiv 1000 = t mod 1000000"
    using pos_mod_sign [of 1000000 t] by (auto simp: signed_divide_int_def abs_mult sgn_mult sgn_if simp del: pos_mod_sign)
  then have "(t div 1000000) * 1000000 + (t mod 1000000 * 1000) sdiv 1000 = t"
    by simp
  moreover have "elapsed_us (at_us t) (at_us 0) = word_of_int ((t div 1000000) * 1000000 + (t mod 1000000 * 1000) sdiv 1000)"
    by (simp add: elapsed_us_def at_us_def)
  ultimately show ?thesis
    by (simp only:)
qed

lemma example_end: "ev_time (end_event (example_config t) 0) = t" "ev_type (end_event (example_config t) 0) = Some EVENT_END"
  by (simp_all add: wf_end_event) (simp add: example_config_def sim_config_set_end_time_def)

lemma example_simulates: "simulates lib example_net (example_config t) (example_sim t)"
  using example_net_built example_sim_init unfolding simulates_def by blast

text \<open>After a fifth of a second without a control event the discrete mode has its turn.\<close>

definition example_des :: "u64 \<Rightarrow> sim" where
  "example_des t = check_idle ((advanced (example_sim t) 200000 (end_event (example_config t) 0))\<lparr>last_read := at_us 200000\<rparr>)"

lemma example_des_simulates:
  assumes "200000 < t"
  shows "simulates lib example_net (example_config t) (example_des t)"
proof -
  have "cont_begin lib (at_us 200000) (example_sim t) = Inr (advanced (example_sim t) 200000 (end_event (example_config t) 0))"
    by (rule cont_begin_no_msg) (simp_all add: example_queue example_elapsed)
  then have "sim_step lib (example_sim t) (advanced (example_sim t) 200000 (end_event (example_config t) 0))"
    by (intro step_begin) (simp_all add: example_queue)
  moreover have "cont_round lib (at_us 200000) (advanced (example_sim t) 200000 (end_event (example_config t) 0)) = Inr (example_des t)"
    unfolding example_des_def by (rule cont_round_late) (simp add: example_end assms)
  then have "sim_step lib (advanced (example_sim t) 200000 (end_event (example_config t) 0)) (example_des t)"
    by (intro step_round) (simp_all add: advanced_def)
  ultimately show ?thesis
    using example_net_built example_sim_init [of t] unfolding simulates_def
    by (meson converse_rtranclp_into_rtranclp rtranclp.rtrancl_refl)
qed

theorem simulation_never_starves_witness:
  "\<forall>lib. \<exists>ev q. scheduler_dispatch (s_sch (example_des 300000)) = Inr (ev, q) \<and> ev_time ev \<le> 300000"
  using simulation_never_starves [OF example_des_simulates [of 300000]]
  by (simp add: example_queue) (auto simp: example_des_def advanced_def example_queue)

theorem simulation_ends_on_time_witness:
  "\<forall>lib. \<exists>s'. des_round lib (example_des 300000) = Inr s' \<and> ended s' \<and> clock (s_sch s') = 300000"
proof
  fix lib
  let ?e = "end_event (example_config 300000) 0"
  have s: "\<not> ended (example_des 300000)" "mode (s_sch (example_des 300000)) = DES" "ev_queue (s_sch (example_des 300000)) = [?e]"
    by (simp_all add: example_des_def example_queue advanced_def [of "example_sim 300000"])
  have "sim_event_free ?e = Inr (ev_addr ?e, Silent)"
    using example_end(2) by (simp add: sim_event_free_def event_types)
  then have "des_round lib (example_des 300000) = Inr ((dispatched (example_des 300000) ?e [])\<lparr>ended := True\<rparr>)"
    using s(3) example_end(2) by (simp add: des_round_def scheduler_dispatch_def dispatched_def Let_def)
  moreover have "scheduler_dispatch (s_sch (example_des 300000)) = Inr (?e, (s_sch (example_des 300000))\<lparr>ev_queue := []\<rparr>)"
    using s(3) by (simp add: scheduler_dispatch_def)
  ultimately show "\<exists>s'. des_round lib (example_des 300000) = Inr s' \<and> ended s' \<and> clock (s_sch s') = 300000"
    using simulation_ends_on_time [OF example_des_simulates s(1,2)] by (simp add: example_queue example_end)
qed

theorem quiet_activation_witness:
  "\<forall>lib. \<exists>s'. cont_mode lib (at_us 200000) (at_us 200001) (example_sim 300000) = Inr s' \<and> clock (s_sch s') = 200000 \<and>
     mode (s_sch s') = DES \<and> last_read s' = at_us 200001"
proof
  fix lib
  have "\<not> (200000 :: u64) - last_wrt (example_sim 300000) > 10000000" "(200000 :: u64) < ev_time (end_event (example_config 300000) 0)"
      "(200000 :: u64) = clock (s_sch (example_sim 300000)) + elapsed_us (at_us 200000) (last_read (example_sim 300000))"
    by (simp_all add: example_queue example_end example_elapsed)
  then show "\<exists>s'. cont_mode lib (at_us 200000) (at_us 200001) (example_sim 300000) = Inr s' \<and> clock (s_sch s') = 200000 \<and>
      mode (s_sch s') = DES \<and> last_read s' = at_us 200001"
    using quiet_activation [OF example_queue(1) [of 300000], where time = 200000 and now = "at_us 200000" and lib = lib and ?now2.0 = "at_us 200001"] by (auto simp: example_queue)
qed

theorem end_in_fixed_time_mode_witness:
  "\<forall>lib. \<exists>s1 s2. cont_mode lib (at_us 200000) (at_us 200001) (example_sim 150000) = Inr s1 \<and> des_round lib s1 = Inr s2 \<and>
     ended s2 \<and> clock (s_sch s2) = 150000"
proof
  fix lib
  show "\<exists>s1 s2. cont_mode lib (at_us 200000) (at_us 200001) (example_sim 150000) = Inr s1 \<and> des_round lib s1 = Inr s2 \<and>
      ended s2 \<and> clock (s_sch s2) = 150000"
    using end_in_fixed_time_mode [OF example_queue(1) [of 150000] example_end(2), where time = 200000 and now = "at_us 200000" and lib = lib and ?now2.0 = "at_us 200001"]
    by (simp add: example_queue example_end example_elapsed) blast
qed

theorem end_recounts_time_witness:
  "\<forall>lib. \<exists>s1 s2. cont_mode lib (at_us 60000) (at_us 60000) (example_sim 50000) = Inr s1 \<and>
     cont_mode lib (at_us 70000) (at_us 70000) s1 = Inr s2 \<and> clock (s_sch s2) = 130000"
proof
  fix lib
  show "\<exists>s1 s2. cont_mode lib (at_us 60000) (at_us 60000) (example_sim 50000) = Inr s1 \<and>
      cont_mode lib (at_us 70000) (at_us 70000) s1 = Inr s2 \<and> clock (s_sch s2) = 130000"
    using end_recounts_time [OF example_queue(1) [of 50000] example_end(2), where time = 60000 and now = "at_us 60000"
      and ?time2.0 = 130000 and ?now2.0 = "at_us 70000" and lib = lib and ?r1.0 = "at_us 60000" and ?r2.0 = "at_us 70000"]
    by (simp add: example_queue example_end example_elapsed) blast
qed

subsection \<open>Waiting, time messages and whole activations\<close>

text \<open>The wait returns exactly if the switches are connected within ten seconds, after the first second
  at which they are.\<close>

lemma wait_exact:
  assumes "m \<le> 10"
  shows "wait_all_switches_connect conns t m =
    (case find (\<lambda>n. \<not> of_nat (length (conns n)) < topology_dps_num t) [m..<11] of None \<Rightarrow> Inl Exit_Failure | Some n \<Rightarrow> Inr n)"
  using assms
proof (induction "10 - m" arbitrary: m)
  case 0
  then show ?case
    by (subst wait_all_switches_connect.simps) (simp add: Let_def upt_rec)
next
  case (Suc k)
  then have "wait_all_switches_connect conns t (m + 1) =
      (case find (\<lambda>n. \<not> of_nat (length (conns n)) < topology_dps_num t) [m + 1..<11] of None \<Rightarrow> Inl Exit_Failure | Some n \<Rightarrow> Inr n)"
    by (intro Suc.hyps) simp_all
  moreover have "[m..<11] = m # [m + 1..<11]"
    using Suc.prems by (simp add: upt_rec)
  ultimately show ?case
    using Suc by (subst wait_all_switches_connect.simps) (simp add: Let_def)
qed

text \<open>A time message is an OpenFlow message of 24 bytes whose last eight are the time.\<close>

lemma time_msg_reads:
  "\<exists>b. ev_body (make_time_msg p time) = Fti_Of b \<and> of_len b = length (of_data b) \<and> of_dp_id b = 1 \<and>
     rm64 (of_data b) 16 = Inr (hton64 time)"
proof -
  let ?hdr = "[4, 4] @ mem16 (swap16 24) @ mem32 0 @ mem32 (swap32 0xF0A1F0A1) @ mem32 0"
  have "length ?hdr = 16"
    by (simp add: mem16_def mem32_def)
  then have "rm64 (?hdr @ mem64 (hton64 time) @ []) 16 = Inr (hton64 time)"
    by (rule rm64_mem64)
  moreover have "length (?hdr @ mem64 (hton64 time)) = 24"
    by (simp add: mem16_def mem32_def mem64_def)
  ultimately show ?thesis
    by (simp add: make_time_msg_def event_constructors)
qed

text \<open>An activation is a sequence of steps of the second thread.\<close>

lemma cont_loop_steps:
  assumes "cont_loop lib now s = Some (Inr s')" "in_cont s"
  shows "(sim_step lib)\<^sup>*\<^sup>* s s' \<and> \<not> in_cont s'"
proof -
  have "in_cont s \<longrightarrow> (\<forall>s'. r = Inr s' \<longrightarrow> (sim_step lib)\<^sup>*\<^sup>* s s' \<and> \<not> in_cont s')" if "cont_loop lib now s = Some r" for r
  proof (rule cont_loop.raw_induct [rotated, OF that])
    fix loop lib' now' s r
    assume IH: "\<And>lib'' now'' s r. loop lib'' now'' s = Some r \<Longrightarrow> in_cont s \<longrightarrow> (\<forall>s'. r = Inr s' \<longrightarrow> (sim_step lib'')\<^sup>*\<^sup>* s s' \<and> \<not> in_cont s')"
      and step: "(case cont_round lib' now' s of Inl e \<Rightarrow> Some (Inl e) | Inr s' \<Rightarrow> if in_cont s' then loop lib' now' s' else Some (Inr s')) = Some r"
    show "in_cont s \<longrightarrow> (\<forall>s'. r = Inr s' \<longrightarrow> (sim_step lib')\<^sup>*\<^sup>* s s' \<and> \<not> in_cont s')"
    proof (intro impI allI)
      fix s'
      assume s: "in_cont s" and r: "r = Inr s'"
      then obtain s1 where s1: "cont_round lib' now' s = Inr s1"
        using step by (cases "cont_round lib' now' s") auto
      then have one: "sim_step lib' s s1"
        using s by (intro step_round)
      show "(sim_step lib')\<^sup>*\<^sup>* s s' \<and> \<not> in_cont s'"
      proof (cases "in_cont s1")
        case True
        then have "(sim_step lib')\<^sup>*\<^sup>* s1 s' \<and> \<not> in_cont s'"
          using IH [of lib' now' s1 r] step s1 r by simp
        then show ?thesis
          using one by (auto intro: converse_rtranclp_into_rtranclp)
      next
        case False
        then show ?thesis
          using one step s1 r by auto
      qed
    qed
  qed
  then show ?thesis
    using assms by simp
qed

lemma cont_mode_steps:
  assumes "cont_mode lib now now2 s = Inr s'" "\<not> in_cont s" "mode (s_sch s) = FTI"
  shows "(sim_step lib)\<^sup>*\<^sup>* s s' \<and> \<not> in_cont s'"
proof -
  obtain s1 where s1: "cont_begin lib now s = Inr s1" "cont_loop lib now2 s1 = Some (Inr s')"
    using assms(1) by (auto simp: cont_mode_def returned_def split: option.splits)
  have "in_cont s1"
    using s1(1) by (auto simp: cont_begin_def Let_def split: if_splits)
  then show ?thesis
    using cont_loop_steps [OF s1(2)] step_begin [OF assms(2,3) s1(1)] converse_rtranclp_into_rtranclp by metis
qed

end
