(* ===== verification/Spec2Isabelle.thy ===== *)
theory Spec2Isabelle
  imports Util Heap Server Json_Topology Horse_Daemon Sim
begin

text \<open>
  \<^bold>\<open>Horse: a verification development for the Horse network simulator.\<close>

  Horse simulates networks of OpenFlow switches, hosts and routers at the level of flows. A
  simulation has a queue of timed events and two threads. The first, \<^emph>\<open>discrete events\<close>, takes the
  earliest event and jumps to its time. The second, \<^emph>\<open>fixed time increments\<close>, follows the clock of
  the machine while OpenFlow controllers or routing daemons, which are real programs, are active.
  Messages of these programs arrive by callbacks and become events. The handler of an event changes
  the nodes of the network and schedules further events.

  \<^bold>\<open>Conventions.\<close> Integers of the C code are words of their width, structures are records, tagged
  unions are datatypes. A C function that may read or write outside an array, through NULL, after a
  release or before initialisation, divide by zero or stop at an assertion returns a value of
  \<open>'a res\<close>, the sum of \<open>c_error\<close> and the results: every theorem that concludes \<open>Inr\<close> also says that
  none of this happens. Memory that the code uses without setting it is a parameter. The tables of
  uthash and utlist are lists in the order of insertion, which is the order in which they are walked.

  \<^bold>\<open>The theories\<close>, with the sources below src/src they model:

  \<^item> \<open>Prelude\<close>: machine types, outcomes, byte strings and the lemma collections. \<open>Containers\<close>: the
    operations of utlist and uthash that are used, with the contract \<open>keyed_table\<close>. \<open>Event_Queue\<close>:
    the contract \<open>event_queue\<close>, which \<open>Heap\<close> and \<open>Scheduler\<close> fulfil.
  \<^item> \<open>Util\<close> (lib/util): CRC-32, bit counts, byte orders; each equals its plain definition.
    \<open>Heap\<close> (lib/heap): the array heap with its bookkeeping.
  \<^item> \<open>Sim_Event\<close> (lib/sim\_event), \<open>Scheduler\<close> (sim/scheduler): events, the clock and the ordered
    queue; the clock is monotone.
  \<^item> \<open>Actions\<close> (lib/action, action\_list, action\_set, instruction, instruction\_set), \<open>Flow\<close>
    (lib/flow, ofl.h, packets.h), \<open>Flow_Table\<close> (net/flow\_table): keys, masks and tables of a switch.
    A table is a list of groups with a common mask; its lemmas say what lookup, addition,
    modification and deletion do to the \<^emph>\<open>set\<close> of its entries.
  \<^item> \<open>Netflow\<close> (lib/netflow): simulated flows, the stack of tags, and packets written and parsed.
    \<open>Dp_Actions\<close> (net/dp\_actions): the handlers of actions. \<open>Node\<close> (net/node, port, buffer\_state,
    live\_flow): ports and waiting flows, with the contract \<open>bounded_stack\<close>.
  \<^item> \<open>Loci\<close>: the objects and accessors of the OpenFlow library that are used. \<open>Of_Unpack\<close>, \<open>Of_Pack\<close>
    (lib/of\_unpack, of\_pack): messages read and written, with the round trip of flow statistics.
    \<open>Datapath\<close> (net/datapath, dp\_control): pipeline and control messages of a switch, and its
    refinement of an abstract switch whose tables are sets of entries (\<open>of_pipeline\<close>).
  \<^item> \<open>Patricia\<close> (vendor/patricia), \<open>Route_Table\<close> (net/route\_table): the trie, and longest prefix
    lookup over it by the contract \<open>prefix_store\<close>. \<open>Arp_Table\<close>, \<open>Legacy_Node\<close>, \<open>App\<close>, \<open>Host\<close>,
    \<open>Router\<close> (net/arp\_table, legacy\_node, app, host, router): hosts and routers up to complete
    exchanges of ARP and ICMP messages.
  \<^item> \<open>Routing_Msg\<close> (routing\_msg), \<open>Net_Utils\<close> (lib/net\_utils), \<open>Routing_Daemon\<close> (net/routing): the
    messages of the daemons and the commands that start and configure them. \<open>Horse_Daemon\<close>
    (horse\_daemon.c): the program beside an emulated router, which reports captured packets and new
    routes; its reports are related to the code that receives them.
  \<^item> \<open>Conn_Manager\<close>, \<open>Server\<close> (sim/conn\_manager, server): messages of controllers and daemons.
  \<^item> \<open>Topology\<close>, \<open>Json_Topology\<close> (net/topology, lib/json\_topology): the network and its construction,
    also from a file.
  \<^item> \<open>Event_Handler\<close> (sim/event\_handler): what each event does. \<open>Event_Invariant\<close>: what all events
    keep (\<open>evh_ok\<close>), and that handlers only add well-formed events (\<open>grows\<close>).
  \<^item> \<open>Setup\<close> (sim/setup, sim\_config): the first events and the start of the routers. \<open>Sim\<close>
    (sim/sim): the two threads. \<open>sim_step\<close> interleaves rounds of the discrete thread, activations
    and rounds of the second one, and callbacks; \<open>sim_ok\<close> is its invariant.

  \<^bold>\<open>How the parts rest on each other.\<close> \<open>simulation_never_starves\<close> needs that every handler keeps
  \<open>evh_ok\<close>, which rests on the queue contract of the scheduler and the shapes of nodes. The pipeline
  of a switch uses the lookup lemmas of flow tables, the safety of actions and the map that an action
  set refines. Forwarding of routers uses the prefix store and the table of link addresses. Each
  locale is interpreted in the theory that provides its operations.

  \<^bold>\<open>Loops and bounds.\<close> Loops are total functions with a proof of termination wherever they end: the
  pipeline because tables strictly increase below 128, the loops of the daemon and of parsers
  because the rest of the buffer shrinks, waiting for switches because the code gives up after its
  number of attempts. Loops that need not end are partial functions into option, so that not
  returning is \<open>None\<close>: \<open>after_recv_loop\<close> and \<open>of_in_loop\<close>, which walk a list of ports that may be
  written while it is walked, and \<open>cont_loop\<close>, which runs as long as due events schedule due events.
  No fuel is used. \<open>sim_step\<close> speaks about the single rounds of \<open>cont_loop\<close>, so that its invariant
  also holds while the loop runs; \<open>cont_mode_steps\<close> ties them to the loop.

  \<^bold>\<open>Parameters.\<close> The message parser of LOCI and the other library functions (\<open>libs\<close>), the tree
  that the JSON parser returns, the clock of the machine, open connections and the answers of the
  operating system (\<open>os_answers\<close>), and the contents of fresh memory.

  \<^bold>\<open>Not modelled.\<close> lib/timer, lib/signal\_handler and main.c consist of system calls: signals,
  semaphores, threads, the command line. The effect of the timer is that an activation of the second
  thread may come at any step. Logging and printing are left out. Functions that only release
  memory are left out, unless the code goes on using what they release. Sockets, processes and
  network namespaces belong to the operating system: the commands are modelled as the strings that
  are executed. Vendored libraries other than the trie (LOCI, uthash, json, log, netemu) are not
  verified; what is used of them is stated in \<open>Loci\<close> and \<open>Containers\<close> or is a parameter. The Python
  bindings convert arguments and call the modelled functions. Removal from the trie and its printing
  are not called by the simulator. The mutex of the scheduler makes its operations atomic, and the
  steps of \<open>sim_step\<close> are whole rounds: two threads inside the handler of one node at the same time,
  which the code excludes by its hand-over, are not represented.
\<close>

end
